(* ===== verification/Go_Prelude.thy ===== *)
theory Go_Prelude
  imports Main "HOL-Library.Word" "HOL-Library.Multiset"
begin

text \<open>
  What the components share: Go's strings, errors and panics, the parts of the standard
  library the sources call on strings and integers, and the order in which a \<open>range\<close> over
  a map visits its keys.

  A Go string and a \<open>[]byte\<close> are both sequences of bytes; HOL's \<open>char\<close> has 256 values, so
  both are \<open>string\<close> here (\<open>bytes\<close> is the name used for the latter). A Go map is a partial
  function. A function that returns \<open>error\<close> returns \<open>go_error option\<close> (\<open>None\<close> is nil), one
  that returns a value and an error returns a sum, and one that may panic an \<open>outcome\<close>.
\<close>

named_theorems outcome_simps "equations that evaluate the sequencing of outcomes"
named_theorems string_simps "evaluation of the string functions of the Go library"

type_synonym bytes = string
type_synonym strmap = "string \<rightharpoonup> string"


section \<open>Errors and panics\<close>

text \<open>
  \<open>Error_String\<close> stands for \<open>errors.New\<close>, \<open>fmt.Errorf\<close> and the errors of libraries, known by
  their text only; \<open>With_Message\<close> is what \<open>errors.Wrap\<close> of \<open>pkg/errors\<close> builds.
\<close>

datatype go_error =
    Error_String string
  | With_Message go_error string
  | Api_Error int string

type_synonym 'a result = "go_error + 'a"

definition wrap :: "go_error option \<Rightarrow> string \<Rightarrow> go_error option" where
  "wrap err message = (case err of None \<Rightarrow> None | Some e \<Rightarrow> Some (With_Message e message))"

lemma wrap_simps [simp]:
  "wrap None m = None"
  "wrap (Some e) m = Some (With_Message e m)"
  by (simp_all add: wrap_def)

text \<open>
  \<open>Panicked\<close> is a run-time panic: a nil dereference, an index out of range, the fatal error
  of an unlock of a lock nobody holds.
\<close>

datatype 'a outcome = Returned 'a | Panicked string

fun and_then :: "'a outcome \<Rightarrow> ('a \<Rightarrow> 'b outcome) \<Rightarrow> 'b outcome" where
  "and_then (Returned x) f = f x"
| "and_then (Panicked m) f = Panicked m"

lemma and_then_eq_Returned [outcome_simps]:
  "and_then m f = Returned y \<longleftrightarrow> (\<exists>x. m = Returned x \<and> f x = Returned y)"
  by (cases m) auto

lemma and_then_assoc [outcome_simps]:
  "and_then (and_then m f) g = and_then m (\<lambda>x. and_then (f x) g)"
  by (cases m) auto

abbreviation returns :: "'a outcome \<Rightarrow> bool" where
  "returns m \<equiv> \<exists>x. m = Returned x"


section \<open>Integers as text\<close>

text \<open>\<open>strconv.FormatInt(i, 10)\<close>, \<open>strconv.Itoa\<close> and the verb \<open>%d\<close>.\<close>

fun format_nat :: "nat \<Rightarrow> string" where
  "format_nat n =
     (if n < 10 then [''0123456789'' ! n]
      else format_nat (n div 10) @ [''0123456789'' ! (n mod 10)])"

declare format_nat.simps [simp del]

definition format_int :: "int \<Rightarrow> string" where
  "format_int i = (if i < 0 then ''-'' @ format_nat (nat (- i)) else format_nat (nat i))"

text \<open>The hexadecimal text of an address, as \<open>fmt\<close> prints a pointer after \<open>0x\<close>.\<close>

fun format_hex :: "nat \<Rightarrow> string" where
  "format_hex n =
     (if n < 16 then [''0123456789abcdef'' ! n]
      else format_hex (n div 16) @ [''0123456789abcdef'' ! (n mod 16)])"

declare format_hex.simps [simp del]

lemma format_nat_digits: "set (format_nat n) \<subseteq> set ''0123456789''"
proof (induction n rule: format_nat.induct)
  case (1 n)
  have digit: "''0123456789'' ! d \<in> set ''0123456789''" if "d < 10" for d
    using that by (intro nth_mem) simp
  show ?case
  proof (cases "n < 10")
    case True
    then show ?thesis using digit [of n] by (subst format_nat.simps) simp
  next
    case False
    then show ?thesis using 1 digit [of "n mod 10"] by (subst format_nat.simps) simp
  qed
qed

lemma format_nat_no_slash: "CHR ''/'' \<notin> set (format_nat n)"
  using format_nat_digits [of n] by auto

lemma format_int_no_slash: "CHR ''/'' \<notin> set (format_int i)"
  by (simp add: format_int_def format_nat_no_slash)

text \<open>Different integers have different texts.\<close>

lemma format_nat_Nil [simp]: "format_nat n \<noteq> []"
  by (subst format_nat.simps) simp

lemma format_nat_inj: "format_nat m = format_nat n \<Longrightarrow> m = n"
proof (induction m arbitrary: n rule: format_nat.induct)
  case (1 m)
  let ?d = "\<lambda>n. ''0123456789'' ! (n mod 10)"
  have form: "format_nat n = (if n < 10 then [] else format_nat (n div 10)) @ [?d n]" for n
    by (subst format_nat.simps) simp
  have last: "last (format_nat n) = ?d n" for n by (subst form) simp
  have butlast: "butlast (format_nat n) = (if n < 10 then [] else format_nat (n div 10))" for n
    by (subst form) (simp only: butlast_snoc)
  have "?d m = ?d n" using 1(2) last [of m] last [of n] by simp
  moreover have "distinct ''0123456789''" by simp
  ultimately have digit: "m mod 10 = n mod 10"
    by (simp add: nth_eq_iff_index_eq)
  have rest: "(if m < 10 then [] else format_nat (m div 10)) =
      (if n < 10 then [] else format_nat (n div 10))"
    unfolding butlast [symmetric] 1(2) ..
  have "m div 10 = n div 10"
    using rest 1(1) [of "n div 10"] format_nat_Nil [symmetric] by (auto split: if_splits)
  with digit show ?case by (metis div_mult_mod_eq)
qed

lemma format_int_inj: "format_int i = format_int j \<Longrightarrow> i = j"
proof -
  assume eq: "format_int i = format_int j"
  have "format_nat n \<noteq> CHR ''-'' # s" for n s
    using format_nat_digits [of n] by auto
  with eq have "i < 0 \<longleftrightarrow> j < 0"
    by (auto simp: format_int_def split: if_splits) (metis append_Cons)+
  with eq show "i = j"
    by (auto simp: format_int_def dest: format_nat_inj split: if_splits)
qed


text \<open>
  The text of an error, as \<open>Error()\<close> gives it; for \<open>pkg.Error\<close> that is the format
  \<open>API error (%d): %s\<close> of \<open>pkg/http.go\<close>.
\<close>

fun error_text :: "go_error \<Rightarrow> string" where
  "error_text (Error_String s) = s"
| "error_text (With_Message e m) = m @ '': '' @ error_text e"
| "error_text (Api_Error status message) =
     ''API error ('' @ format_int status @ ''): '' @ message"


section \<open>Strings\<close>

text \<open>\<open>strings.Contains(s, c)\<close> and \<open>strings.Split(s, c)\<close> for a separator of one byte.\<close>

definition contains_byte :: "string \<Rightarrow> char \<Rightarrow> bool" where
  "contains_byte s c \<longleftrightarrow> c \<in> set s"

fun split_on :: "char \<Rightarrow> string \<Rightarrow> string list" where
  "split_on c [] = [[]]"
| "split_on c (x # xs) =
     (if x = c then [] # split_on c xs
      else (case split_on c xs of [] \<Rightarrow> [[x]] | y # ys \<Rightarrow> (x # y) # ys))"

text \<open>\<open>strings.Join(xs, sep)\<close>.\<close>

fun join :: "string \<Rightarrow> string list \<Rightarrow> string" where
  "join sep [] = []"
| "join sep [x] = x"
| "join sep (x # y # ys) = x @ sep @ join sep (y # ys)"

lemma split_on_not_Nil [simp]: "split_on c s \<noteq> []"
  by (cases s) (auto split: list.splits)

lemma split_on_absent: "c \<notin> set s \<Longrightarrow> split_on c s = [s]"
  by (induction s) auto

lemma split_on_append:
  "c \<notin> set a \<Longrightarrow> split_on c (a @ c # b) = a # split_on c b"
  by (induction a) auto

lemma join_Cons: "ys \<noteq> [] \<Longrightarrow> join sep (x # ys) = x @ sep @ join sep ys"
  by (cases ys) auto

lemma join_split_on: "join [c] (split_on c s) = s"
proof (induction s)
  case Nil
  show ?case by simp
next
  case (Cons x s)
  obtain y ys where split: "split_on c s = y # ys"
    by (cases "split_on c s") auto
  show ?case
  proof (cases "x = c")
    case True
    with Cons show ?thesis by (simp add: join_Cons)
  next
    case False
    with Cons split show ?thesis by (cases ys) auto
  qed
qed

text \<open>A key that holds the separator has at least two parts, so \<open>values[1]\<close> is in range.\<close>

lemma split_on_two: "c \<in> set s \<Longrightarrow> \<exists>a b rest. split_on c s = a # b # rest"
proof (induction s)
  case Nil
  then show ?case by simp
next
  case (Cons x s)
  show ?case
  proof (cases "x = c")
    case True
    then show ?thesis by (cases "split_on c s") auto
  next
    case False
    with Cons obtain a b rest where "split_on c s = a # b # rest" by auto
    with False show ?thesis by simp
  qed
qed


section \<open>The order of a range over a map\<close>

text \<open>
  The language leaves the order in which \<open>range\<close> visits the entries of a map open. A loop
  over a map that does not change while the loop runs takes a list of its keys as an
  argument; \<open>enumerates\<close> says that the list is one of the orders the language allows.
\<close>

definition enumerates :: "'k list \<Rightarrow> ('k \<rightharpoonup> 'v) \<Rightarrow> bool" where
  "enumerates ks m \<longleftrightarrow> distinct ks \<and> set ks = dom m"

lemma enumerates_finite: "enumerates ks m \<Longrightarrow> finite (dom m)"
  unfolding enumerates_def by (metis List.finite_set)

lemma enumerates_length: "enumerates ks m \<Longrightarrow> length ks = card (dom m)"
  unfolding enumerates_def by (metis distinct_card)

lemma enumerates_ex: "finite (dom m) \<Longrightarrow> \<exists>ks. enumerates ks m"
  unfolding enumerates_def by (metis finite_distinct_list)

end
