(* ===== verification/Http.thy ===== *)
theory Http
  imports Go_Prelude
begin

text \<open>
  The HTTP client of \<open>pkg/http.go\<close>. The network, \<open>json.Marshal\<close> on the data of the request
  and the checks of \<open>http.NewRequest\<close> are the fields of \<open>http_env\<close>; a state \<open>'w\<close> of the outside
  world is threaded through every exchange. A response carries its status and what reading
  its body to the end gives.
\<close>

record http_request =
  req_method :: string
  req_url :: string
  req_header :: "string \<rightharpoonup> string"
  req_body :: "bytes option"

record http_response =
  StatusCode :: int
  resp_body :: "bytes result"

text \<open>
  A context is known by its \<open>Err()\<close>: nil until it is done. The entries of \<open>Headers\<close> are listed
  in the order in which \<open>range\<close> visits them.
\<close>

record ('w, 'd) do_options =
  Data :: "'d option"
  Context :: "('w \<Rightarrow> go_error option) option"
  Headers :: "(string \<times> string) list"
  ForceJSON :: bool

record ('w, 'd) http_env =
  marshal :: "'d option \<Rightarrow> bytes result"
  new_request :: "string \<Rightarrow> string \<Rightarrow> go_error option"
  transport :: "'w \<Rightarrow> http_request \<Rightarrow> 'w \<times> http_response result"


section \<open>Header names\<close>

text \<open>
  \<open>Header.Set\<close> stores under the canonical form of the name: the first letter and every letter
  after a hyphen in upper case, the others in lower case; a name with a byte that may not
  occur in a header name is left as it is.
\<close>

definition is_lower :: "char \<Rightarrow> bool" where
  "is_lower c \<longleftrightarrow> c \<in> set ''abcdefghijklmnopqrstuvwxyz''"

definition is_upper :: "char \<Rightarrow> bool" where
  "is_upper c \<longleftrightarrow> c \<in> set ''ABCDEFGHIJKLMNOPQRSTUVWXYZ''"

definition header_byte :: "char \<Rightarrow> bool" where
  "header_byte c \<longleftrightarrow>
     is_lower c \<or> is_upper c \<or> c \<in> set ''0123456789!#$%&*+-.^_|~'' \<or> c = CHR 0x27 \<or> c = CHR 0x60"

definition ascii_upper :: "char \<Rightarrow> char" where
  "ascii_upper c = (if is_lower c then char_of (of_char c - 32 :: nat) else c)"

definition ascii_lower :: "char \<Rightarrow> char" where
  "ascii_lower c = (if is_upper c then char_of (of_char c + 32 :: nat) else c)"

fun canonical_from :: "bool \<Rightarrow> string \<Rightarrow> string" where
  "canonical_from up [] = []"
| "canonical_from up (c # cs) =
     (if up then ascii_upper c else ascii_lower c) # canonical_from (c = CHR ''-'') cs"

definition canonical_header :: "string \<Rightarrow> string" where
  "canonical_header k = (if list_all header_byte k then canonical_from True k else k)"

definition header_set :: "string \<Rightarrow> string \<Rightarrow> strmap \<Rightarrow> strmap" where
  "header_set k v h = h(canonical_header k \<mapsto> v)"


section \<open>Requests\<close>

definition background :: "'w \<Rightarrow> go_error option" where
  "background = (\<lambda>_. None)"

definition chooseError :: "('w \<Rightarrow> go_error option) \<Rightarrow> 'w \<Rightarrow> go_error \<Rightarrow> go_error" where
  "chooseError ctx w err = (case ctx w of Some done \<Rightarrow> done | None \<Rightarrow> err)"

definition newError :: "http_response \<Rightarrow> go_error" where
  "newError resp =
     (case resp_body resp of
        Inl err \<Rightarrow> Api_Error (StatusCode resp) (''cannot read body, err: '' @ error_text err)
      | Inr data \<Rightarrow> Api_Error (StatusCode resp) data)"

definition request_body :: "('w, 'd) http_env \<Rightarrow> ('w, 'd) do_options \<Rightarrow> bytes option result" where
  "request_body env opts =
     (if Data opts \<noteq> None \<or> ForceJSON opts
      then (case marshal env (Data opts) of Inl err \<Rightarrow> Inl err | Inr buf \<Rightarrow> Inr (Some buf))
      else Inr None)"

definition request_header :: "('w, 'd) do_options \<Rightarrow> strmap" where
  "request_header opts =
     fold (\<lambda>(k, v). header_set k v) (Headers opts)
       (if Data opts \<noteq> None
        then header_set ''Content-Type'' ''application/json'' Map.empty
        else Map.empty)"

definition Do ::
    "('w, 'd) http_env \<Rightarrow> 'w \<Rightarrow> string \<Rightarrow> string \<Rightarrow> ('w, 'd) do_options \<Rightarrow>
     'w \<times> http_response result" where
  "Do env w method path opts =
     (case request_body env opts of
        Inl err \<Rightarrow> (w, Inl err)
      | Inr body \<Rightarrow>
          (case new_request env method path of
             Some err \<Rightarrow> (w, Inl err)
           | None \<Rightarrow>
               (let ctx = (case Context opts of None \<Rightarrow> background | Some c \<Rightarrow> c);
                    (w', r) = transport env w
                      \<lparr>req_method = method, req_url = path,
                       req_header = request_header opts, req_body = body\<rparr>
                in case r of
                     Inl err \<Rightarrow>
                       (w', Inl (With_Message (chooseError ctx w' err) ''HTTP DO Failed''))
                   | Inr resp \<Rightarrow>
                       if StatusCode resp < 200 \<or> StatusCode resp \<ge> 400
                       then (w', Inl (newError resp))
                       else (w', Inr resp))))"

lemma Do_no_context:
  assumes "Context opts = None" "request_body env opts = Inr body"
    and "new_request env method path = None"
    and "transport env w \<lparr>req_method = method, req_url = path,
           req_header = request_header opts, req_body = body\<rparr> = (w', Inl err)"
  shows "Do env w method path opts = (w', Inl (With_Message err ''HTTP DO Failed''))"
  using assms by (simp add: Do_def chooseError_def background_def)

text \<open>What a caller may rely on: a response that is handed back has a status from 200 to 399.\<close>

lemma Do_status:
  "Do env w method path opts = (w', Inr resp) \<Longrightarrow> 200 \<le> StatusCode resp \<and> StatusCode resp < 400"
  by (auto simp: Do_def Let_def split: sum.splits option.splits prod.splits if_splits)

lemma canonical_authorization [simp]: "canonical_header ''authorization'' = ''Authorization''"
  by code_simp

lemma canonical_accept [simp]: "canonical_header ''Accept'' = ''Accept''"
  by code_simp

lemma canonical_content_type [simp]: "canonical_header ''Content-Type'' = ''Content-Type''"
  by code_simp

end
