(* ===== verification/Houston.thy ===== *)
theory Houston
  imports Http
begin

text \<open>
  The Houston API client of \<open>houston/client.go\<close> and its mock: the authorization token kept
  between calls, the GraphQL queries, and the reduction of a \<open>sources\<close> response to the map of
  enabled integrations. The mutex of the client is held for the whole of
  \<open>GetAuthorizationToken\<close>, so that function is one atomic operation on the token.

  A \<open>time.Time\<close> is the number of nanoseconds since the zero time of Go, so \<open>zero_time\<close> is 0.
  The clock, the configuration values and the JSON decoders of the three responses are
  fields of \<open>houston_env\<close>; the transport is that of \<open>Http\<close>.
\<close>

record clickstream_entry =
  cs_name :: string
  cs_topic :: string
  cs_enabled :: bool

record gql_error =
  err_message :: string
  err_locations :: "(int \<times> int) list"
  err_path :: "string list"

record QuerySourcesResponse =
  qs_sources :: "clickstream_entry list list"
  qs_errors :: "gql_error list"

record VerifyTokenResponse =
  vt_success :: bool
  vt_message :: string
  vt_exp :: int
  vt_errors :: "gql_error list"

record CreateTokenResponse =
  ct_success :: bool
  ct_token :: string
  ct_message :: string
  ct_exp :: int
  ct_errors :: "gql_error list"

record houston_client =
  APIUrl :: string
  auth_token :: string
  exp_date :: int

type_synonym graphql_query = string

record 'w houston_env =
  http :: "('w, graphql_query) http_env"
  now :: "'w \<Rightarrow> int"
  cfg_string :: "string \<Rightarrow> string"
  dec_sources :: "bytes \<Rightarrow> QuerySourcesResponse result"
  dec_verify :: "bytes \<Rightarrow> VerifyTokenResponse result"
  dec_create :: "bytes \<Rightarrow> CreateTokenResponse result"

definition zero_time :: int where
  "zero_time = 0"


section \<open>Queries\<close>

abbreviation nl :: string where "nl \<equiv> [CHR 0x0A]"
abbreviation tab :: string where "tab \<equiv> [CHR 0x09]"
abbreviation dq :: string where "dq \<equiv> [CHR 0x22]"

definition querySources :: "string \<Rightarrow> string" where
  "querySources appId =
     nl @ tab @ ''query sources {'' @ nl
     @ tab @ ''  sources(id:'' @ dq @ appId @ dq @ '') {'' @ nl
     @ tab @ tab @ ''clickstream{'' @ nl
     @ tab @ ''      name'' @ nl
     @ tab @ tab @ ''  topic: code'' @ nl
     @ tab @ tab @ ''  enabled'' @ nl
     @ tab @ tab @ ''}'' @ nl
     @ tab @ ''  }'' @ nl
     @ tab @ ''}''"

definition createToken_query :: "string \<Rightarrow> string \<Rightarrow> string" where
  "createToken_query username password =
     nl @ tab @ ''mutation createToken {'' @ nl
     @ tab @ ''  createToken(username:'' @ dq @ username @ dq
     @ '', password:'' @ dq @ password @ dq @ '') {'' @ nl
     @ tab @ tab @ ''success'' @ nl
     @ tab @ tab @ ''message'' @ nl
     @ tab @ tab @ ''token'' @ nl
     @ tab @ ''    decoded{'' @ nl
     @ tab @ ''      exp'' @ nl
     @ tab @ ''    }'' @ nl
     @ tab @ ''  }'' @ nl
     @ tab @ ''}''"

definition verifyToken_query :: "string \<Rightarrow> string" where
  "verifyToken_query token =
     nl @ tab @ ''mutation VerifyUserToken {'' @ nl
     @ tab @ ''  verifyToken(token: '' @ dq @ token @ dq @ ''){'' @ nl
     @ tab @ ''    success'' @ nl
     @ tab @ ''    message'' @ nl
     @ tab @ ''    decoded{'' @ nl
     @ tab @ ''      exp'' @ nl
     @ tab @ ''    }'' @ nl
     @ tab @ ''  }'' @ nl
     @ tab @ ''}''"

definition houston_options :: "string \<Rightarrow> string \<Rightarrow> ('w, graphql_query) do_options" where
  "houston_options query authKey =
     \<lparr>Data = Some query, Context = None,
      Headers = [(''Accept'', ''application/json'')]
        @ (if length authKey \<noteq> 0 then [(''authorization'', authKey)] else []),
      ForceJSON = False\<rparr>"

definition queryHouston ::
    "'w houston_env \<Rightarrow> houston_client \<Rightarrow> 'w \<Rightarrow> string \<Rightarrow> string \<Rightarrow> 'w \<times> bytes result" where
  "queryHouston env c w query authKey =
     (case Do (http env) w ''POST'' (APIUrl c) (houston_options query authKey) of
        (w', Inl err) \<Rightarrow> (w', Inl err)
      | (w', Inr resp) \<Rightarrow> (w', resp_body resp))"


section \<open>The authorization token\<close>

definition NewHoustonClient :: "'w houston_env \<Rightarrow> string \<Rightarrow> houston_client" where
  "NewHoustonClient env apiURL =
     \<lparr>APIUrl = apiURL,
      auth_token = (if length (cfg_string env ''HOUSTON_API_KEY'') \<noteq> 0
                    then cfg_string env ''HOUSTON_API_KEY'' else ''''),
      exp_date = zero_time\<rparr>"

definition createToken ::
    "'w houston_env \<Rightarrow> houston_client \<Rightarrow> 'w \<Rightarrow> 'w \<times> CreateTokenResponse result" where
  "createToken env c w =
     (if length (cfg_string env ''HOUSTON_USERNAME'') = 0
         \<or> length (cfg_string env ''HOUSTON_PASSWORD'') = 0
      then (w, Inl (Error_String
              ''Houston username/password not provided, can't create new token''))
      else
        (let query = createToken_query (cfg_string env ''HOUSTON_USERNAME'')
                       (cfg_string env ''HOUSTON_PASSWORD'')
         in case queryHouston env c w query '''' of
              (w', Inl err) \<Rightarrow> (w', Inl (With_Message err ''Error creating token''))
            | (w', Inr body) \<Rightarrow>
                (case dec_create env body of
                   Inl err \<Rightarrow>
                     (w', Inl (With_Message err ''Error unmarshaling create token response''))
                 | Inr resp \<Rightarrow> (w', Inr resp))))"

definition verifyToken ::
    "'w houston_env \<Rightarrow> houston_client \<Rightarrow> 'w \<Rightarrow> 'w \<times> VerifyTokenResponse result" where
  "verifyToken env c w =
     (case queryHouston env c w (verifyToken_query (auth_token c)) '''' of
        (w', Inl err) \<Rightarrow> (w', Inl (With_Message err ''Error verifying token''))
      | (w', Inr body) \<Rightarrow>
          (case dec_verify env body of
             Inl err \<Rightarrow> (w', Inl (With_Message err ''Error unmarshaling verify response''))
           | Inr resp \<Rightarrow> (w', Inr resp)))"

text \<open>
  The last part of \<open>GetAuthorizationToken\<close>, reached with no token or with one that Houston did
  not verify.
\<close>

definition create_and_store ::
    "'w houston_env \<Rightarrow> houston_client \<Rightarrow> 'w \<Rightarrow> (houston_client \<times> 'w) \<times> string result" where
  "create_and_store env c w =
     (case createToken env c w of
        (w', Inl err) \<Rightarrow> ((c, w'), Inl (With_Message err ''Error getting authorization token''))
      | (w', Inr resp) \<Rightarrow>
          (let c' = c\<lparr>auth_token := ct_token resp, exp_date := ct_exp resp\<rparr>
           in ((c', w'), Inr (auth_token c'))))"

definition GetAuthorizationToken ::
    "'w houston_env \<Rightarrow> houston_client \<times> 'w \<Rightarrow> (houston_client \<times> 'w) \<times> string result" where
  "GetAuthorizationToken env h =
     (let (c, w) = h in
      if length (auth_token c) \<noteq> 0
      then
        (if exp_date c < now env w
         then ((c, w), Inr (auth_token c))
         else
           (case verifyToken env c w of
              (w', Inl err) \<Rightarrow>
                ((c, w'), Inl (With_Message err ''Error getting authorization token''))
            | (w', Inr resp) \<Rightarrow>
                if vt_success resp
                then ((c\<lparr>exp_date := vt_exp resp\<rparr>, w'), Inr (auth_token c))
                else create_and_store env c w'))
      else create_and_store env c w)"


section \<open>Enabled integrations\<close>

text \<open>
  The double loop over the sources and their clickstream entries. A missing entry reads as the
  empty string, whose length is 0.
\<close>

definition map_get :: "strmap \<Rightarrow> string \<Rightarrow> string" where
  "map_get m k = (case m k of None \<Rightarrow> '''' | Some v \<Rightarrow> v)"

definition add_entry :: "clickstream_entry \<Rightarrow> strmap \<Rightarrow> strmap" where
  "add_entry e m =
     (if cs_enabled e \<and> length (map_get m (cs_name e)) = 0
      then m(cs_name e \<mapsto> cs_topic e) else m)"

definition enabled_integrations :: "clickstream_entry list list \<Rightarrow> strmap" where
  "enabled_integrations sources =
     fold (\<lambda>src m. fold add_entry src m) sources Map.empty"

definition Client_GetIntegrations ::
    "'w houston_env \<Rightarrow> houston_client \<times> 'w \<Rightarrow> string \<Rightarrow>
     (houston_client \<times> 'w) \<times> strmap option result" where
  "Client_GetIntegrations env h appId =
     (let query = querySources appId
      in case GetAuthorizationToken env h of
           (h', Inl err) \<Rightarrow> (h', Inl (With_Message err ''Error getting auth key''))
         | ((c', w'), Inr token) \<Rightarrow>
             (case queryHouston env c' w' query token of
                (w'', Inl err) \<Rightarrow>
                  ((c', w''), Inl (With_Message err ''Error getting source integrations''))
              | (w'', Inr body) \<Rightarrow>
                  (case dec_sources env body of
                     Inl err \<Rightarrow>
                       ((c', w''), Inl (With_Message err ''Error decoding query sources response''))
                   | Inr resp \<Rightarrow>
                       ((c', w''), Inr (Some (enabled_integrations (qs_sources resp)))))))"

text \<open>The mock of \<open>houston/mock_client.go\<close>: a pointer to a fixed map.\<close>

definition Mock_GetIntegrations ::
    "strmap option \<Rightarrow> string \<Rightarrow> strmap option \<times> strmap option result" where
  "Mock_GetIntegrations ints appId = (ints, Inr ints)"

definition Mock_GetAuthorizationToken ::
    "strmap option \<Rightarrow> strmap option \<times> string result" where
  "Mock_GetAuthorizationToken ints = (ints, Inr '''')"

section \<open>What the reduction of a response computes\<close>

text \<open>
  The reference: an entry that is not enabled does not count; an enabled name is mapped to the
  first topic given for it that is not empty, and to the empty topic if there is none.
\<close>

definition enabled_topics :: "clickstream_entry list \<Rightarrow> string \<Rightarrow> string list" where
  "enabled_topics es n = map cs_topic (filter (\<lambda>e. cs_enabled e \<and> cs_name e = n) es)"

definition first_topic :: "string list \<Rightarrow> string option" where
  "first_topic ts =
     (if ts = [] then None
      else (case filter (\<lambda>t. t \<noteq> '''') ts of [] \<Rightarrow> Some '''' | t # _ \<Rightarrow> Some t))"

lemma enabled_integrations_concat:
  "enabled_integrations sources = fold add_entry (concat sources) Map.empty"
proof -
  have "fold (\<lambda>src. fold add_entry src) sources m = fold add_entry (concat sources) m" for m
    by (induction sources arbitrary: m) auto
  then show ?thesis by (simp add: enabled_integrations_def)
qed

text \<open>Seen at one name, the loop keeps the value it has unless that is missing or empty.\<close>

definition keep_first :: "string \<Rightarrow> string option \<Rightarrow> string option" where
  "keep_first t v = (if v = None \<or> v = Some [] then Some t else v)"

lemma add_entry_apply:
  "add_entry e m n =
     (if cs_enabled e \<and> cs_name e = n then keep_first (cs_topic e) (m n) else m n)"
  by (simp add: add_entry_def map_get_def keep_first_def split: option.splits)

lemma add_entries_apply:
  "fold add_entry es m n = fold keep_first (enabled_topics es n) (m n)"
  by (induction es arbitrary: m) (simp_all add: enabled_topics_def add_entry_apply)

lemma keep_first_settled: "t \<noteq> [] \<Longrightarrow> fold keep_first ts (Some t) = Some t"
  by (induction ts) (simp_all add: keep_first_def)

lemma fold_keep_first:
  "v = None \<or> v = Some [] \<Longrightarrow>
     fold keep_first ts v = (if ts = [] then v else first_topic ts)"
proof (induction ts arbitrary: v)
  case Nil
  then show ?case by simp
next
  case (Cons t ts)
  then have v: "keep_first t v = Some t" by (simp add: keep_first_def)
  show ?case
  proof (cases "t = []")
    case True
    then show ?thesis using v Cons.IH [of "Some []"] by (simp add: first_topic_def)
  next
    case False
    then show ?thesis using v by (simp add: first_topic_def keep_first_settled)
  qed
qed

lemma enabled_integrations_apply:
  "enabled_integrations sources n = first_topic (enabled_topics (concat sources) n)"
  by (simp add: enabled_integrations_concat add_entries_apply fold_keep_first)
    (simp add: first_topic_def)

lemma finite_enabled_integrations: "finite (dom (enabled_integrations sources))"
proof -
  have "finite (dom (fold add_entry es m))" if "finite (dom m)" for es m
    using that by (induction es arbitrary: m) (auto simp: add_entry_def)
  then show ?thesis by (simp add: enabled_integrations_concat)
qed


section \<open>Lemmas on the token\<close>

lemma token_reused:
  assumes "auth_token c \<noteq> ''''" "exp_date c < now env w"
  shows "GetAuthorizationToken env (c, w) = ((c, w), Inr (auth_token c))"
  using assms by (simp add: GetAuthorizationToken_def)

lemma token_verified:
  assumes "auth_token c \<noteq> ''''" "\<not> exp_date c < now env w"
    and "verifyToken env c w = (w', Inr resp)" "vt_success resp"
  shows "GetAuthorizationToken env (c, w) =
    ((c\<lparr>exp_date := vt_exp resp\<rparr>, w'), Inr (auth_token c))"
  using assms by (simp add: GetAuthorizationToken_def)

lemma token_rejected:
  assumes "auth_token c \<noteq> ''''" "\<not> exp_date c < now env w"
    and "verifyToken env c w = (w', Inr resp)" "\<not> vt_success resp"
  shows "GetAuthorizationToken env (c, w) = create_and_store env c w'"
  using assms by (simp add: GetAuthorizationToken_def)

lemma token_missing:
  "auth_token c = '''' \<Longrightarrow> GetAuthorizationToken env (c, w) = create_and_store env c w"
  by (simp add: GetAuthorizationToken_def)

lemmas token_unfold = GetAuthorizationToken_def create_and_store_def Let_def

text \<open>No call changes the address the client was made for.\<close>

lemma APIUrl_GetAuthorizationToken:
  "GetAuthorizationToken env (c, w) = ((c', w'), r) \<Longrightarrow> APIUrl c' = APIUrl c"
  by (auto simp: token_unfold split: if_splits prod.splits sum.splits)

text \<open>A client that reports an error keeps the token it had.\<close>

lemma token_kept_on_error:
  "GetAuthorizationToken env (c, w) = ((c', w'), Inl err) \<Longrightarrow> c' = c"
  by (auto simp: token_unfold split: if_splits prod.splits sum.splits)

text \<open>A token that is returned is the one now stored.\<close>

lemma token_returned_is_stored:
  "GetAuthorizationToken env (c, w) = ((c', w'), Inr t) \<Longrightarrow> auth_token c' = t"
  by (auto simp: token_unfold split: if_splits prod.splits sum.splits)

lemma GetIntegrations_pointer:
  "Client_GetIntegrations env h appId = (h', Inr p) \<Longrightarrow> \<exists>m. p = Some m \<and> finite (dom m)"
  by (auto simp: Client_GetIntegrations_def Let_def finite_enabled_integrations
      split: prod.splits sum.splits)


section \<open>The interface of the client\<close>

text \<open>
  \<open>HoustonClient\<close>, as its callers rely on it: a call that succeeds hands back a pointer to a map,
  never nil, as long as the invariant of the implementation holds, and keeps that invariant.
\<close>

locale houston_api =
  fixes houston_get :: "'h \<Rightarrow> string \<Rightarrow> 'h \<times> strmap option result"
    and houston_token :: "'h \<Rightarrow> 'h \<times> string result"
    and houston_inv :: "'h \<Rightarrow> bool"
  assumes houston_get_inv: "houston_inv h \<Longrightarrow> houston_get h a = (h', r) \<Longrightarrow> houston_inv h'"
    and houston_token_inv: "houston_inv h \<Longrightarrow> houston_token h = (h', t) \<Longrightarrow> houston_inv h'"
    and houston_get_pointer:
      "houston_inv h \<Longrightarrow> houston_get h a = (h', Inr p) \<Longrightarrow> \<exists>m. p = Some m \<and> finite (dom m)"
begin

lemma houston_get_cases:
  assumes "houston_inv h"
  obtains (error) h' err where "houston_get h a = (h', Inl err)" "houston_inv h'"
  | (success) h' m where "houston_get h a = (h', Inr (Some m))" "finite (dom m)" "houston_inv h'"
proof -
  obtain h' r where call: "houston_get h a = (h', r)" by fastforce
  with assms have inv: "houston_inv h'" by (rule houston_get_inv)
  show thesis
  proof (cases r)
    case (Inl err)
    with call inv error show thesis by blast
  next
    case (Inr p)
    with call assms inv houston_get_pointer [of h a h' p] success show thesis by blast
  qed
qed

end

definition houston_wf :: "houston_client \<times> 'w \<Rightarrow> bool" where
  "houston_wf h = True"

definition mock_wf :: "strmap option \<Rightarrow> bool" where
  "mock_wf ints \<longleftrightarrow> (case ints of None \<Rightarrow> False | Some m \<Rightarrow> finite (dom m))"

interpretation real_houston: houston_api
  "Client_GetIntegrations env" "GetAuthorizationToken env" houston_wf for env
  by unfold_locales (auto simp: houston_wf_def dest: GetIntegrations_pointer)

interpretation mock_houston: houston_api
  Mock_GetIntegrations Mock_GetAuthorizationToken mock_wf
  by unfold_locales
    (auto simp: mock_wf_def Mock_GetIntegrations_def Mock_GetAuthorizationToken_def
      split: option.splits)

section \<open>A Houston that answers every request\<close>

text \<open>The world is the log of the requests; the three decoders give fixed responses.\<close>

definition replying_env ::
    "int \<Rightarrow> (string \<Rightarrow> string) \<Rightarrow> VerifyTokenResponse \<Rightarrow> CreateTokenResponse \<Rightarrow>
     QuerySourcesResponse \<Rightarrow> http_request list houston_env" where
  "replying_env t cfg vr cr sr =
     \<lparr>http = \<lparr>marshal = (\<lambda>d. Inr (case d of None \<Rightarrow> ''null'' | Some q \<Rightarrow> q)),
              new_request = (\<lambda>m u. None),
              transport = (\<lambda>w r. (w @ [r], Inr \<lparr>StatusCode = 200, resp_body = Inr ''''\<rparr>))\<rparr>,
      now = (\<lambda>w. t), cfg_string = cfg, dec_sources = (\<lambda>b. Inr sr),
      dec_verify = (\<lambda>b. Inr vr), dec_create = (\<lambda>b. Inr cr)\<rparr>"

definition houston_request :: "houston_client \<Rightarrow> string \<Rightarrow> string \<Rightarrow> http_request" where
  "houston_request c query authKey =
     \<lparr>req_method = ''POST'', req_url = APIUrl c,
      req_header = request_header (houston_options query authKey :: (unit, graphql_query) do_options),
      req_body = Some query\<rparr>"

lemma request_header_houston:
  "request_header (houston_options query authKey) =
     (if authKey = '''' then [''Content-Type'' \<mapsto> ''application/json'', ''Accept'' \<mapsto> ''application/json'']
      else [''Content-Type'' \<mapsto> ''application/json'', ''Accept'' \<mapsto> ''application/json'',
            ''Authorization'' \<mapsto> authKey])"
  by (simp add: request_header_def houston_options_def header_set_def)

lemma replying_query:
  "queryHouston (replying_env t cfg vr cr sr) c w query authKey =
     (w @ [houston_request c query authKey], Inr '''')"
proof -
  have "Data (houston_options query authKey :: (http_request list, graphql_query) do_options) = Some query"
    "Context (houston_options query authKey :: (http_request list, graphql_query) do_options) = None"
    by (simp_all add: houston_options_def)
  then show ?thesis
    by (simp add: queryHouston_def Do_def replying_env_def request_body_def houston_request_def
        request_header_houston)
qed

lemma replying_verify:
  "verifyToken (replying_env t cfg vr cr sr) c w =
     (w @ [houston_request c (verifyToken_query (auth_token c)) ''''], Inr vr)"
  by (simp add: verifyToken_def replying_query) (simp add: replying_env_def)

definition token_calls :: "'w houston_env \<Rightarrow> nat \<Rightarrow> houston_client \<times> 'w \<Rightarrow> houston_client \<times> 'w" where
  "token_calls env n h = ((\<lambda>h. fst (GetAuthorizationToken env h)) ^^ n) h"

lemma token_calls_0 [simp]: "token_calls env 0 h = h"
  by (simp add: token_calls_def)

lemma token_calls_Suc:
  "token_calls env (Suc n) h = token_calls env n (fst (GetAuthorizationToken env h))"
  by (simp add: token_calls_def funpow_Suc_right del: funpow.simps)

lemma token_calls_reused:
  assumes "auth_token c \<noteq> ''''" "\<forall>w. exp_date c < now env w"
  shows "token_calls env n (c, w) = (c, w)"
  using assms by (induction n) (simp_all add: token_calls_Suc token_reused)

definition sample_verify :: VerifyTokenResponse where
  "sample_verify = \<lparr>vt_success = True, vt_message = '''', vt_exp = 9, vt_errors = []\<rparr>"

definition sample_create :: CreateTokenResponse where
  "sample_create =
     \<lparr>ct_success = False, ct_token = '''', ct_message = ''denied'', ct_exp = 0, ct_errors = []\<rparr>"

definition sample_sources :: QuerySourcesResponse where
  "sample_sources =
     \<lparr>qs_sources = [[\<lparr>cs_name = ''S3'', cs_topic = ''s3-topic'', cs_enabled = True\<rparr>]],
      qs_errors = []\<rparr>"

definition sample_env :: "http_request list houston_env" where
  "sample_env = replying_env 5 (\<lambda>k. ''key'') sample_verify sample_create sample_sources"

lemma sample_env_simps [simp]:
  "now sample_env w = 5" "cfg_string sample_env k = ''key''"
  by (simp_all add: sample_env_def replying_env_def)

definition sample_client :: "int \<Rightarrow> houston_client" where
  "sample_client t = \<lparr>APIUrl = ''http://houston'', auth_token = ''tok'', exp_date = t\<rparr>"


section \<open>Properties\<close>

text \<open>C26: A token whose expiry is past is handed out for ever: no number of calls contacts Houston
  again or changes the client.\<close>

theorem expired_token_reused:
  assumes "auth_token c \<noteq> ''''" "\<forall>w. exp_date c < now env w"
  shows "token_calls env n (c, w) = (c, w)
    \<and> snd (GetAuthorizationToken env (token_calls env n (c, w))) = Inr (auth_token c)"
  using token_calls_reused [OF assms] assms by (simp add: token_reused)

theorem expired_token_reused_witness:
  "token_calls sample_env 3 (sample_client 4, []) = (sample_client 4, [])
    \<and> snd (GetAuthorizationToken sample_env (token_calls sample_env 3 (sample_client 4, []))) =
        Inr (auth_token (sample_client 4))"
  by (rule expired_token_reused) (simp_all add: sample_client_def)

text \<open>A token that has not expired is verified on every single call: each call sends one
  verification request, \<open>n\<close> calls send \<open>n\<close>.\<close>

theorem valid_token_verified_each_time:
  assumes "auth_token c \<noteq> ''''" "t \<le> exp_date c" "vt_success vr" "t \<le> vt_exp vr"
  shows "\<exists>c'. token_calls (replying_env t cfg vr cr sr) n (c, w) =
      (c', w @ replicate n (houston_request c (verifyToken_query (auth_token c)) ''''))
    \<and> auth_token c' = auth_token c"
  using assms
proof (induction n arbitrary: c w)
  case 0
  then show ?case by simp
next
  case (Suc n)
  let ?c = "c\<lparr>exp_date := vt_exp vr\<rparr>"
  have "fst (GetAuthorizationToken (replying_env t cfg vr cr sr) (c, w)) =
      (?c, w @ [houston_request c (verifyToken_query (auth_token c)) ''''])"
    using Suc.prems by (subst token_verified) (simp_all add: replying_verify, simp add: replying_env_def)
  moreover have "houston_request ?c = houston_request c"
    by (intro ext) (simp add: houston_request_def)
  ultimately show ?case
    using Suc.IH [of ?c "w @ [houston_request c (verifyToken_query (auth_token c)) '''']"] Suc.prems
    by (simp add: token_calls_Suc)
qed

theorem valid_token_verified_each_time_witness:
  "\<exists>c'. token_calls sample_env 3 (sample_client 7, []) =
      (c', replicate 3 (houston_request (sample_client 7) (verifyToken_query ''tok'') ''''))
    \<and> auth_token c' = ''tok''"
  using valid_token_verified_each_time [of "sample_client 7" 5 sample_verify "\<lambda>k. ''key''"
      sample_create sample_sources 3 "[]"]
  by (simp add: sample_env_def sample_client_def sample_verify_def)

text \<open>A client made with an API key always answers with the key and never contacts Houston for
  it.\<close>

theorem api_key_never_verified:
  assumes "cfg_string env ''HOUSTON_API_KEY'' \<noteq> ''''" "\<forall>w. zero_time < now env w"
  shows "token_calls env n (NewHoustonClient env url, w) = (NewHoustonClient env url, w)
    \<and> snd (GetAuthorizationToken env (token_calls env n (NewHoustonClient env url, w))) =
        Inr (cfg_string env ''HOUSTON_API_KEY'')"
proof -
  let ?c = "NewHoustonClient env url"
  have "auth_token ?c = cfg_string env ''HOUSTON_API_KEY''" "\<forall>w. exp_date ?c < now env w"
    using assms by (simp_all add: NewHoustonClient_def)
  with assms(1) show ?thesis by (simp add: token_calls_reused token_reused)
qed

theorem api_key_never_verified_witness:
  "token_calls sample_env 2 (NewHoustonClient sample_env ''http://houston'', []) =
      (NewHoustonClient sample_env ''http://houston'', [])
    \<and> snd (GetAuthorizationToken sample_env
        (token_calls sample_env 2 (NewHoustonClient sample_env ''http://houston'', []))) =
        Inr (cfg_string sample_env ''HOUSTON_API_KEY'')"
  by (rule api_key_never_verified) (simp_all add: zero_time_def)

text \<open>C27: A login that Houston rejects is not noticed: \<open>success\<close> is not read, the empty token is
  stored and returned without an error, and the query for the sources goes out with no
  authorization.\<close>

theorem rejected_login_unnoticed:
  assumes "auth_token c = ''''" "cfg ''HOUSTON_USERNAME'' \<noteq> ''''" "cfg ''HOUSTON_PASSWORD'' \<noteq> ''''"
    and "\<not> ct_success cr" "ct_token cr = ''''"
  shows "\<exists>c' w'. Client_GetIntegrations (replying_env t cfg vr cr sr) (c, w) a =
      ((c', w @ w'), Inr (Some (enabled_integrations (qs_sources sr))))
    \<and> auth_token c' = '''' \<and> length w' = 2
    \<and> (\<forall>r \<in> set w'. req_header r ''Authorization'' = None)"
proof -
  let ?env = "replying_env t cfg vr cr sr"
  let ?q = "createToken_query (cfg ''HOUSTON_USERNAME'') (cfg ''HOUSTON_PASSWORD'')"
  let ?c = "c\<lparr>auth_token := ct_token cr, exp_date := ct_exp cr\<rparr>"
  have "createToken ?env c w = (w @ [houston_request c ?q ''''], Inr cr)"
    using assms(2,3) by (simp add: createToken_def replying_query) (simp add: replying_env_def)
  then have "GetAuthorizationToken ?env (c, w) = ((?c, w @ [houston_request c ?q '''']), Inr '''')"
    using assms(1,5) by (simp add: token_missing create_and_store_def)
  then have "Client_GetIntegrations ?env (c, w) a =
      ((?c, w @ [houston_request c ?q '''', houston_request ?c (querySources a) '''']),
       Inr (Some (enabled_integrations (qs_sources sr))))"
    by (simp add: Client_GetIntegrations_def replying_query) (simp add: replying_env_def)
  then show ?thesis
    using assms(5)
    by (intro exI [of _ ?c] exI [of _ "[houston_request c ?q '''', houston_request ?c (querySources a) '''']"])
      (simp add: houston_request_def request_header_houston)
qed

theorem rejected_login_unnoticed_witness:
  "\<exists>c' w'. Client_GetIntegrations sample_env ((sample_client 0)\<lparr>auth_token := ''''\<rparr>, []) ''a'' =
      ((c', w'), Inr (Some (enabled_integrations (qs_sources sample_sources))))
    \<and> auth_token c' = '''' \<and> length w' = 2
    \<and> (\<forall>r \<in> set w'. req_header r ''Authorization'' = None)"
  using rejected_login_unnoticed [of "(sample_client 0)\<lparr>auth_token := ''''\<rparr>" "\<lambda>k. ''key''"
      sample_create 5 sample_verify sample_sources "[]" "''a''"]
  by (simp add: sample_env_def sample_create_def)

text \<open>C28: The map made of a response of Houston: an entry that is not enabled does not count, and an
  enabled name gets the first topic given for it that is not empty, over all its sources in
  order.\<close>

theorem enabled_integrations_spec:
  "enabled_integrations sources n =
     (let ts = [cs_topic e. e \<leftarrow> concat sources, cs_enabled e \<and> cs_name e = n]
      in if ts = [] then None
         else (case dropWhile (\<lambda>t. t = '''') ts of [] \<Rightarrow> Some '''' | t # _ \<Rightarrow> Some t))"
proof -
  have "[cs_topic e. e \<leftarrow> es, cs_enabled e \<and> cs_name e = n] = enabled_topics es n" for es
    by (induction es) (simp_all add: enabled_topics_def)
  moreover have "(case dropWhile (\<lambda>t. t = '''') ts of [] \<Rightarrow> Some '''' | t # _ \<Rightarrow> Some t) =
      (case filter (\<lambda>t. t \<noteq> '''') ts of [] \<Rightarrow> Some '''' | t # _ \<Rightarrow> Some t)" for ts :: "string list"
    by (induction ts) simp_all
  ultimately show ?thesis
    by (simp add: enabled_integrations_apply first_topic_def Let_def)
qed

end
