(* ===== verification/Metrics.thy ===== *)
theory Metrics
  imports Go_Prelude
begin

text \<open>
  The Prometheus counters of \<open>pkg/prom/client.go\<close>. A counter vector has a name and a list of
  label names; \<open>With(labels)\<close> picks the child for the label values and panics when the labels
  given are not those of the vector (\<open>hashLabels\<close> of the vendored client, which compares the
  number of labels and looks every declared one up). A store maps a vector and its label values,
  in the declared order, to the count. Counts are natural numbers: the sources add lengths of
  byte slices as \<open>float64\<close>, exact below 2 to the 53.
\<close>

datatype metric =
    MessagesConsumed
  | MessagesProduced
  | MessagesProducedConfirmed
  | SSEClickstreamMessagesReceived
  | MessagesProducedFailed
  | MessagesRetried
  | BytesConsumed
  | BytesProduced
  | BytesRetried
  | MessagesUploadedToS3
  | BytesUploadedToS3
  | MessagesWithNoIntegration
  | IntegrationCacheMiss
  | IntegrationCacheUpdate

fun metric_name :: "metric \<Rightarrow> string" where
  "metric_name MessagesConsumed = ''event_router_messages_consumed''"
| "metric_name MessagesProduced = ''event_router_messages_produced''"
| "metric_name MessagesProducedConfirmed = ''event_router_messages_produced_confirmed''"
| "metric_name SSEClickstreamMessagesReceived =
     ''event_router_sse_clickstream_messages_received''"
| "metric_name MessagesProducedFailed = ''event_router_messages_produced_failed''"
| "metric_name MessagesRetried = ''event_router_messages_retried''"
| "metric_name BytesConsumed = ''event_router_bytes_consumed''"
| "metric_name BytesProduced = ''event_router_bytes_produced''"
| "metric_name BytesRetried = ''event_router_bytes_retried''"
| "metric_name MessagesUploadedToS3 = ''event_router_messages_uploaded_to_s3''"
| "metric_name BytesUploadedToS3 = ''event_router_bytes_uploaded_to_s3''"
| "metric_name MessagesWithNoIntegration = ''event_router_messages_no_integrations''"
| "metric_name IntegrationCacheMiss = ''event_router_integration_cache_miss''"
| "metric_name IntegrationCacheUpdate = ''event_router_integration_cache_update''"

fun metric_labels :: "metric \<Rightarrow> string list" where
  "metric_labels MessagesConsumed = [''appId'']"
| "metric_labels MessagesProduced = [''appId'', ''integration'']"
| "metric_labels MessagesProducedConfirmed = [''appId'', ''integration'']"
| "metric_labels SSEClickstreamMessagesReceived = []"
| "metric_labels MessagesProducedFailed = [''integration'', ''appId'']"
| "metric_labels MessagesRetried = [''appId'', ''integration'']"
| "metric_labels BytesConsumed = [''appId'']"
| "metric_labels BytesProduced = [''appId'', ''integration'']"
| "metric_labels BytesRetried = [''appId'', ''integration'']"
| "metric_labels MessagesUploadedToS3 = [''appId'', ''integration'']"
| "metric_labels BytesUploadedToS3 = [''appId'', ''integration'']"
| "metric_labels MessagesWithNoIntegration = [''appId'']"
| "metric_labels IntegrationCacheMiss = [''appId'']"
| "metric_labels IntegrationCacheUpdate = [''appId'']"

text \<open>What \<open>init\<close> passes to \<open>prometheus.MustRegister\<close>, in its order.\<close>

definition registered_metrics :: "metric list" where
  "registered_metrics =
     [MessagesConsumed, MessagesProduced, MessagesProducedConfirmed,
      SSEClickstreamMessagesReceived, MessagesProducedFailed, MessagesRetried,
      BytesConsumed, BytesProduced, BytesRetried, MessagesUploadedToS3,
      BytesUploadedToS3, MessagesWithNoIntegration, IntegrationCacheMiss,
      IntegrationCacheUpdate]"

lemma registered_metrics_complete: "m \<in> set registered_metrics"
  by (cases m) (simp_all add: registered_metrics_def)

lemma metric_name_inj: "inj metric_name"
proof (rule injI)
  fix m m' :: metric
  assume "metric_name m = metric_name m'"
  then show "m = m'" by (cases m; cases m'; simp)
qed

type_synonym metrics = "metric \<Rightarrow> string list \<Rightarrow> nat"

definition no_metrics :: metrics where
  "no_metrics = (\<lambda>_ _. 0)"

text \<open>
  The labels of a call are a map literal, given as the list of its entries. The result is the
  label values in the declared order.
\<close>

definition label_values :: "string list \<Rightarrow> (string \<times> string) list \<Rightarrow> string list outcome" where
  "label_values declared labels =
     (if length labels \<noteq> length declared
      then Panicked ''inconsistent label cardinality''
      else if \<forall>l \<in> set declared. map_of labels l \<noteq> None
      then Returned (map (\<lambda>l. the (map_of labels l)) declared)
      else Panicked ''label name missing in label map'')"

definition with_labels :: "metric \<Rightarrow> (string \<times> string) list \<Rightarrow> string list outcome" where
  "with_labels m labels = label_values (metric_labels m) labels"

definition prom_add :: "metric \<Rightarrow> (string \<times> string) list \<Rightarrow> nat \<Rightarrow> metrics \<Rightarrow> metrics outcome" where
  "prom_add m labels n ms =
     and_then (with_labels m labels)
       (\<lambda>values. Returned (ms(m := (ms m)(values := ms m values + n))))"

definition prom_inc :: "metric \<Rightarrow> (string \<times> string) list \<Rightarrow> metrics \<Rightarrow> metrics outcome" where
  "prom_inc m labels ms = prom_add m labels 1 ms"

text \<open>The count of one child after an update of another: the characteristic equation.\<close>

definition bump :: "metric \<Rightarrow> string list \<Rightarrow> nat \<Rightarrow> metrics \<Rightarrow> metrics" where
  "bump m values n ms = ms(m := (ms m)(values := ms m values + n))"

lemma bump_apply:
  "bump m vs n ms m' vs' = ms m' vs' + (if m = m' \<and> vs = vs' then n else 0)"
  by (simp add: bump_def)

lemma bump_same [simp]: "bump m vs n ms m vs = ms m vs + n"
  by (simp add: bump_apply)

lemma bump_other_metric [simp]: "m' \<noteq> m \<Longrightarrow> bump m vs n ms m' = ms m'"
  by (simp add: bump_def)

text \<open>
  The label sets the sources use, one equation per shape; each evaluates to a child, so none of
  these calls panics.
\<close>

lemma prom_app [outcome_simps]:
  assumes "metric_labels m = [''appId'']"
  shows "prom_add m [(''appId'', a)] n ms = Returned (bump m [a] n ms)"
    and "prom_inc m [(''appId'', a)] ms = Returned (bump m [a] 1 ms)"
  using assms by (simp_all add: prom_add_def prom_inc_def with_labels_def label_values_def bump_def)

lemma prom_app_integration [outcome_simps]:
  assumes "metric_labels m = [''appId'', ''integration'']"
  shows "prom_add m [(''appId'', a), (''integration'', i)] n ms = Returned (bump m [a, i] n ms)"
    and "prom_inc m [(''appId'', a), (''integration'', i)] ms = Returned (bump m [a, i] 1 ms)"
  using assms by (simp_all add: prom_add_def prom_inc_def with_labels_def label_values_def bump_def)

lemma prom_integration_app [outcome_simps]:
  assumes "metric_labels m = [''integration'', ''appId'']"
  shows "prom_inc m [(''integration'', i), (''appId'', a)] ms = Returned (bump m [i, a] 1 ms)"
  using assms by (simp add: prom_add_def prom_inc_def with_labels_def label_values_def bump_def)

lemma prom_plain [outcome_simps]:
  assumes "metric_labels m = []"
  shows "prom_inc m [] ms = Returned (bump m [] 1 ms)"
  using assms by (simp add: prom_add_def prom_inc_def with_labels_def label_values_def bump_def)

end
