(* ===== verification/Timer_Loop.thy ===== *)
theory Timer_Loop
  imports Go_Prelude
begin

text \<open>
  The goroutines of the form \<open>for { select { <-shutdown: stop; return | <-timer.C: tick } }\<close>:
  \<open>StartTTL\<close> of the integrations client and \<open>start\<close> of the dead letter queue. Both make their
  timer with \<open>time.NewTimer\<close>, which sends on its channel once, and neither calls \<open>Reset\<close>.

  \<open>on_tick\<close> and \<open>on_stop\<close> are what the two branches do to the state \<open>'s\<close> they work on,
  \<open>elsewhere\<close> what the other goroutines of the program may do to it meanwhile. Where both
  channels are ready, \<open>select\<close> takes either.
\<close>

record 's timer_loop =
  armed :: bool
  shutdown_closed :: bool
  loop_running :: bool
  ticks :: nat
  body :: 's

definition new_timer_loop :: "'s \<Rightarrow> 's timer_loop" where
  "new_timer_loop s =
     \<lparr>armed = True, shutdown_closed = False, loop_running = True, ticks = 0, body = s\<rparr>"

inductive loop_step ::
    "('s \<Rightarrow> 's \<Rightarrow> bool) \<Rightarrow> ('s \<Rightarrow> 's \<Rightarrow> bool) \<Rightarrow> ('s \<Rightarrow> 's \<Rightarrow> bool) \<Rightarrow>
     's timer_loop \<Rightarrow> 's timer_loop \<Rightarrow> bool"
  for on_tick on_stop elsewhere where
  timer_fires: "loop_running l \<Longrightarrow> armed l \<Longrightarrow> on_tick (body l) b \<Longrightarrow>
    loop_step on_tick on_stop elsewhere l (l\<lparr>armed := False, ticks := Suc (ticks l), body := b\<rparr>)"
| channel_closed: "\<not> shutdown_closed l \<Longrightarrow>
    loop_step on_tick on_stop elsewhere l (l\<lparr>shutdown_closed := True\<rparr>)"
| loop_stops: "loop_running l \<Longrightarrow> shutdown_closed l \<Longrightarrow> on_stop (body l) b \<Longrightarrow>
    loop_step on_tick on_stop elsewhere l (l\<lparr>loop_running := False, body := b\<rparr>)"
| others: "elsewhere (body l) b \<Longrightarrow>
    loop_step on_tick on_stop elsewhere l (l\<lparr>body := b\<rparr>)"

inductive loop_reach ::
    "('s \<Rightarrow> 's \<Rightarrow> bool) \<Rightarrow> ('s \<Rightarrow> 's \<Rightarrow> bool) \<Rightarrow> ('s \<Rightarrow> 's \<Rightarrow> bool) \<Rightarrow>
     's timer_loop \<Rightarrow> 's timer_loop \<Rightarrow> bool"
  for on_tick on_stop elsewhere l\<^sub>0 where
  reach_start: "loop_reach on_tick on_stop elsewhere l\<^sub>0 l\<^sub>0"
| reach_step: "loop_reach on_tick on_stop elsewhere l\<^sub>0 l \<Longrightarrow>
    loop_step on_tick on_stop elsewhere l l' \<Longrightarrow> loop_reach on_tick on_stop elsewhere l\<^sub>0 l'"

inductive_cases loop_stepE: "loop_step on_tick on_stop elsewhere l l'"

text \<open>The timer is armed exactly as long as it has not fired.\<close>

definition one_shot :: "'s timer_loop \<Rightarrow> bool" where
  "one_shot l \<longleftrightarrow> ticks l = (if armed l then 0 else 1)"

lemma one_shot_step:
  "loop_step on_tick on_stop elsewhere l l' \<Longrightarrow> one_shot l \<Longrightarrow> one_shot l'"
  by (erule loop_stepE) (auto simp: one_shot_def)

lemma one_shot_reach:
  "loop_reach on_tick on_stop elsewhere (new_timer_loop s) l \<Longrightarrow> one_shot l"
proof (induction rule: loop_reach.induct)
  case reach_start
  show ?case by (simp add: one_shot_def new_timer_loop_def)
next
  case (reach_step l l')
  then show ?case by (blast intro: one_shot_step)
qed

lemma loop_ticks_le_1:
  "loop_reach on_tick on_stop elsewhere (new_timer_loop s) l \<Longrightarrow> ticks l \<le> 1"
  using one_shot_reach [of on_tick on_stop elsewhere s l] by (simp add: one_shot_def)

text \<open>Once it has fired it stays disarmed, so a tick is the last one.\<close>

lemma disarmed_reach:
  assumes "loop_reach on_tick on_stop elsewhere l\<^sub>0 l" "\<not> armed l\<^sub>0"
  shows "\<not> armed l \<and> ticks l = ticks l\<^sub>0"
  using assms by (induction rule: loop_reach.induct) (auto elim: loop_stepE)

text \<open>An invariant of the state that each branch and the other goroutines keep.\<close>

lemma loop_reach_invariant:
  assumes "loop_reach on_tick on_stop elsewhere l\<^sub>0 l" and "I (body l\<^sub>0)"
    and "\<And>b b'. I b \<Longrightarrow> on_tick b b' \<Longrightarrow> I b'"
    and "\<And>b b'. I b \<Longrightarrow> on_stop b b' \<Longrightarrow> I b'"
    and "\<And>b b'. I b \<Longrightarrow> elsewhere b b' \<Longrightarrow> I b'"
  shows "I (body l)"
  using assms(1)
proof (induction rule: loop_reach.induct)
  case reach_start
  show ?case by (rule assms(2))
next
  case (reach_step l l')
  from reach_step.hyps(2) show ?case
  proof (cases rule: loop_step.cases)
    case (timer_fires b)
    with assms(3) [OF reach_step.IH] show ?thesis by simp
  next
    case channel_closed
    with reach_step.IH show ?thesis by simp
  next
    case (loop_stops b)
    with assms(4) [OF reach_step.IH] show ?thesis by simp
  next
    case (others b)
    with assms(5) [OF reach_step.IH] show ?thesis by simp
  qed
qed

text \<open>A loop that has stopped does nothing more by itself.\<close>

lemma stopped_reach:
  assumes "loop_reach on_tick on_stop elsewhere l\<^sub>0 l" "\<not> loop_running l\<^sub>0"
  shows "\<not> loop_running l"
  using assms by (induction rule: loop_reach.induct) (auto elim: loop_stepE)


section \<open>Durations\<close>

text \<open>
  \<open>time.Minute * time.Duration(n)\<close>: a product of \<open>int64\<close> nanoseconds, which wraps around.
\<close>

type_synonym int64 = "64 word"

definition minutes :: "int64 \<Rightarrow> int64" where
  "minutes n = 60000000000 * n"

lemma sint_minutes:
  assumes "\<bar>sint n\<bar> \<le> 153722867"
  shows "sint (minutes n) = 60000000000 * sint n"
proof -
  have "sint (minutes n) = signed_take_bit 63 (60000000000 * sint n)"
    by (simp add: minutes_def sint_word_ariths)
  also have "\<dots> = 60000000000 * sint n"
    using assms by (intro signed_take_bit_int_eq_self) auto
  finally show ?thesis .
qed

end
