(* ===== verification/Integrations.thy ===== *)
theory Integrations
  imports Houston Metrics Timer_Loop
begin

text \<open>
  The cache of enabled integrations of \<open>integrations/integrations.go\<close>. The package keeps two
  maps in global variables: the cache, from an app ID to a pointer to the map of its
  integrations, and \<open>syncMap\<close>, from an app ID to its lock. The maps pointed to are never
  written after Houston's client made them, so a pointer is the map itself or nil.

  Here each operation runs alone, so every lock is free when an operation starts and only the
  keys of \<open>syncMap\<close> matter; taking the lock of a key that has none is the nil dereference of
  the source, a panic. The interleaving of the operations is the theory \<open>Cache_Locks\<close>.
\<close>

record 'h integrations =
  houston :: 'h
  cache :: "string \<rightharpoonup> strmap option"
  sync_map :: "string set"
  counters :: metrics

definition NewMap :: "string \<rightharpoonup> strmap option" where
  "NewMap = Map.empty"

text \<open>The start of the program: an empty cache and an empty \<open>syncMap\<close>.\<close>

definition NewClient :: "'h \<Rightarrow> 'h integrations" where
  "NewClient h = \<lparr>houston = h, cache = NewMap, sync_map = {}, counters = no_metrics\<rparr>"

definition Map_Get :: "string \<Rightarrow> 'h integrations \<Rightarrow> 'h integrations \<times> strmap option" where
  "Map_Get key s =
     (let s' = s\<lparr>sync_map := insert key (sync_map s)\<rparr>
      in (s', case cache s' key of None \<Rightarrow> None | Some ints \<Rightarrow> ints))"

definition Map_Put :: "string \<Rightarrow> strmap option \<Rightarrow> 'h integrations \<Rightarrow> 'h integrations" where
  "Map_Put key value s = s\<lparr>cache := (cache s)(key \<mapsto> value)\<rparr>"

text \<open>
  \<open>Keys\<close> fills a slice of the length of the map in the order of the range; \<open>keys[i] = key\<close> is in
  range as long as no other goroutine adds a key.
\<close>

fun fill_keys :: "string list \<Rightarrow> nat \<Rightarrow> string list \<Rightarrow> string list outcome" where
  "fill_keys keys i [] = Returned keys"
| "fill_keys keys i (k # ks) =
     (if i < length keys then fill_keys (keys[i := k]) (i + 1) ks
      else Panicked ''index out of range'')"

definition Map_Keys :: "string list \<Rightarrow> (string \<rightharpoonup> strmap option) \<Rightarrow> string list outcome" where
  "Map_Keys order m = fill_keys (replicate (card (dom m)) '''') 0 order"

definition count_app :: "metric \<Rightarrow> string \<Rightarrow> 'h integrations \<Rightarrow> 'h integrations outcome" where
  "count_app m appId s =
     and_then (prom_inc m [(''appId'', appId)] (counters s))
       (\<lambda>ms. Returned (s\<lparr>counters := ms\<rparr>))"

definition UpdateIntegrationsForApp ::
    "('h \<Rightarrow> string \<Rightarrow> 'h \<times> strmap option result) \<Rightarrow> 'h integrations \<Rightarrow> string \<Rightarrow>
     ('h integrations \<times> go_error option) outcome" where
  "UpdateIntegrationsForApp houston_get s appId =
     and_then (count_app IntegrationCacheUpdate appId s) (\<lambda>s.
       let (h, r) = houston_get (houston s) appId;
           s = s\<lparr>houston := h\<rparr>
       in case r of
            Inl err \<Rightarrow> Returned (s, Some (With_Message err ''Error updating integrations''))
          | Inr ints \<Rightarrow>
              (let (s, _) = Map_Get appId s
               in if appId \<notin> sync_map s then Panicked ''nil pointer dereference''
                  else Returned (Map_Put appId ints s, None)))"

definition GetIntegrations ::
    "('h \<Rightarrow> string \<Rightarrow> 'h \<times> strmap option result) \<Rightarrow> 'h integrations \<Rightarrow> string \<Rightarrow>
     ('h integrations \<times> strmap option result) outcome" where
  "GetIntegrations houston_get s appId =
     (let (s, integrations) = Map_Get appId s
      in if integrations = None
         then
           and_then (count_app IntegrationCacheMiss appId s) (\<lambda>s.
           and_then (UpdateIntegrationsForApp houston_get s appId) (\<lambda>(s, err).
             case err of
               Some e \<Rightarrow> Returned (s, Inl (With_Message e ''Error getting integration''))
             | None \<Rightarrow> Returned (s, Inr integrations)))
         else Returned (s, Inr integrations))"

definition getIntegrationsFromHouston ::
    "('h \<Rightarrow> string \<Rightarrow> 'h \<times> strmap option result) \<Rightarrow> 'h integrations \<Rightarrow> string \<Rightarrow>
     'h integrations \<times> strmap option result" where
  "getIntegrationsFromHouston houston_get s appId =
     (let (h, r) = houston_get (houston s) appId
      in (s\<lparr>houston := h\<rparr>, r))"

definition GetAllIntegrations :: "'h integrations \<Rightarrow> string \<rightharpoonup> strmap option" where
  "GetAllIntegrations s = cache s"

definition resetCache :: "'h integrations \<Rightarrow> 'h integrations" where
  "resetCache s = s\<lparr>cache := NewMap, sync_map := {}\<rparr>"

text \<open>
  \<open>dec_message\<close> is \<open>json.Unmarshal\<close> into an \<open>SSEMessage\<close>, giving its app ID. The error of the
  update is dropped.
\<close>

definition SSEEventListener ::
    "(bytes \<Rightarrow> string result) \<Rightarrow> ('h \<Rightarrow> string \<Rightarrow> 'h \<times> strmap option result) \<Rightarrow>
     'h integrations \<Rightarrow> bytes \<Rightarrow> 'h integrations outcome" where
  "SSEEventListener dec_message houston_get s data =
     (case dec_message data of
        Inl err \<Rightarrow> Returned s
      | Inr appId \<Rightarrow>
          and_then (prom_inc SSEClickstreamMessagesReceived [] (counters s)) (\<lambda>ms.
          and_then (UpdateIntegrationsForApp houston_get (s\<lparr>counters := ms\<rparr>) appId) (\<lambda>(s, err).
            Returned s)))"

text \<open>The mock client of the package.\<close>

definition MockClient_GetIntegrations :: "unit \<Rightarrow> string \<Rightarrow> (unit \<times> strmap option result) outcome" where
  "MockClient_GetIntegrations u appId = Returned (u, Inr None)"

definition MockClient_UpdateIntegrationsForApp ::
    "unit \<Rightarrow> string \<Rightarrow> (unit \<times> go_error option) outcome" where
  "MockClient_UpdateIntegrationsForApp u appId = Returned (u, None)"

definition MockClient_SSEEventListener :: "unit \<Rightarrow> bytes \<Rightarrow> unit outcome" where
  "MockClient_SSEEventListener u data = Returned u"

section \<open>What each operation does\<close>

lemma Map_Get_eq:
  "Map_Get a s =
     (s\<lparr>sync_map := insert a (sync_map s)\<rparr>, case cache s a of None \<Rightarrow> None | Some ints \<Rightarrow> ints)"
  by (simp add: Map_Get_def)

lemma count_app_eq:
  "metric_labels m = [''appId''] \<Longrightarrow>
     count_app m a s = Returned (s\<lparr>counters := bump m [a] 1 (counters s)\<rparr>)"
  by (simp add: count_app_def outcome_simps)

lemma update_success:
  assumes "houston_get (houston s) a = (h, Inr p)"
  shows "UpdateIntegrationsForApp houston_get s a =
    Returned (s\<lparr>counters := bump IntegrationCacheUpdate [a] 1 (counters s), houston := h,
                sync_map := insert a (sync_map s), cache := (cache s)(a \<mapsto> p)\<rparr>, None)"
  using assms by (simp add: UpdateIntegrationsForApp_def count_app_eq Map_Get_eq Map_Put_def)

lemma update_error:
  assumes "houston_get (houston s) a = (h, Inl err)"
  shows "UpdateIntegrationsForApp houston_get s a =
    Returned (s\<lparr>counters := bump IntegrationCacheUpdate [a] 1 (counters s), houston := h\<rparr>,
              Some (With_Message err ''Error updating integrations''))"
  using assms by (simp add: UpdateIntegrationsForApp_def count_app_eq)

lemma get_hit:
  assumes "cache s a = Some (Some m)"
  shows "GetIntegrations houston_get s a =
    Returned (s\<lparr>sync_map := insert a (sync_map s)\<rparr>, Inr (Some m))"
  using assms by (simp add: GetIntegrations_def Map_Get_eq)

text \<open>No entry and an entry that is a nil pointer are both a miss.\<close>

definition cache_miss :: "'h integrations \<Rightarrow> string \<Rightarrow> bool" where
  "cache_miss s a \<longleftrightarrow> cache s a = None \<or> cache s a = Some None"

lemma cache_miss_cases:
  obtains (miss) "cache_miss s a" | (hit) m where "cache s a = Some (Some m)"
  unfolding cache_miss_def by (cases "cache s a") (auto simp: not_None_eq)

lemma get_miss_success:
  assumes "cache_miss s a" "houston_get (houston s) a = (h, Inr p)"
  shows "GetIntegrations houston_get s a =
    Returned (s\<lparr>counters := bump IntegrationCacheUpdate [a] 1
                  (bump IntegrationCacheMiss [a] 1 (counters s)),
                houston := h, sync_map := insert a (sync_map s), cache := (cache s)(a \<mapsto> p)\<rparr>,
              Inr None)"
  using assms by (auto simp: GetIntegrations_def Map_Get_eq cache_miss_def count_app_eq update_success)

lemma get_miss_error:
  assumes "cache_miss s a" "houston_get (houston s) a = (h, Inl err)"
  shows "GetIntegrations houston_get s a =
    Returned (s\<lparr>counters := bump IntegrationCacheUpdate [a] 1
                  (bump IntegrationCacheMiss [a] 1 (counters s)),
                houston := h, sync_map := insert a (sync_map s)\<rparr>,
              Inl (With_Message (With_Message err ''Error updating integrations'')
                     ''Error getting integration''))"
  using assms by (auto simp: GetIntegrations_def Map_Get_eq cache_miss_def count_app_eq update_error)

lemma listener_bad_event:
  "dec_message data = Inl err \<Longrightarrow> SSEEventListener dec_message houston_get s data = Returned s"
  by (simp add: SSEEventListener_def)

lemma listener_event:
  assumes "dec_message data = Inr a"
    and "UpdateIntegrationsForApp houston_get
           (s\<lparr>counters := bump SSEClickstreamMessagesReceived [] 1 (counters s)\<rparr>) a
         = Returned (s', r)"
  shows "SSEEventListener dec_message houston_get s data = Returned s'"
  using assms by (simp add: SSEEventListener_def outcome_simps)

lemmas integrations_operations =
  update_success update_error get_hit get_miss_success get_miss_error


section \<open>The keys of the cache\<close>

lemma fill_keys_append:
  assumes "length keys = i + length ks"
  shows "fill_keys keys i ks = Returned (take i keys @ ks)"
  using assms
proof (induction ks arbitrary: keys i)
  case Nil
  then show ?case by simp
next
  case (Cons k ks)
  then have "fill_keys (keys[i := k]) (i + 1) ks = Returned (take (i + 1) (keys[i := k]) @ ks)"
    by (intro Cons.IH) simp
  moreover have "take (i + 1) (keys[i := k]) = take i keys @ [k]"
    using Cons.prems by (simp add: take_Suc_conv_app_nth)
  ultimately show ?case using Cons.prems by simp
qed

lemma Map_Keys_enumerates: "enumerates order m \<Longrightarrow> Map_Keys order m = Returned order"
  by (simp add: Map_Keys_def fill_keys_append enumerates_length)


section \<open>The interface of the client\<close>

text \<open>
  \<open>Integrations\<close>, as the producer and the SSE client rely on it: no operation panics, and a map
  that is handed back can be ranged over.
\<close>

locale integrations_api =
  fixes ints_get :: "'s \<Rightarrow> string \<Rightarrow> ('s \<times> strmap option result) outcome"
    and ints_update :: "'s \<Rightarrow> string \<Rightarrow> ('s \<times> go_error option) outcome"
    and ints_event :: "'s \<Rightarrow> bytes \<Rightarrow> 's outcome"
    and ints_inv :: "'s \<Rightarrow> bool"
  assumes ints_get_total: "ints_inv s \<Longrightarrow> \<exists>s' r. ints_get s a = Returned (s', r) \<and> ints_inv s'"
    and ints_get_finite:
      "ints_inv s \<Longrightarrow> ints_get s a = Returned (s', Inr (Some m)) \<Longrightarrow> finite (dom m)"
    and ints_update_total:
      "ints_inv s \<Longrightarrow> \<exists>s' r. ints_update s a = Returned (s', r) \<and> ints_inv s'"
    and ints_event_total: "ints_inv s \<Longrightarrow> \<exists>s'. ints_event s d = Returned s' \<and> ints_inv s'"
begin

lemma ints_get_cases:
  assumes "ints_inv s"
  obtains (error) s' err where "ints_get s a = Returned (s', Inl err)" "ints_inv s'"
  | (nil) s' where "ints_get s a = Returned (s', Inr None)" "ints_inv s'"
  | (found) s' m where "ints_get s a = Returned (s', Inr (Some m))" "ints_inv s'" "finite (dom m)"
proof -
  from ints_get_total [OF assms] obtain s' r
    where call: "ints_get s a = Returned (s', r)" and inv: "ints_inv s'" by blast
  consider err where "r = Inl err" | "r = Inr None" | m where "r = Inr (Some m)"
    by (cases r) (auto simp: option.exhaust)
  then show thesis
  proof cases
    case 1
    with call inv error show thesis by blast
  next
    case 2
    with call inv nil show thesis by blast
  next
    case 3
    with call inv ints_get_finite [OF assms] found show thesis by blast
  qed
qed

end

text \<open>
  The well-formed states: every cached pointer leads to a map, and every cached app has its
  lock in \<open>syncMap\<close>.
\<close>

definition integrations_wf :: "('h \<Rightarrow> bool) \<Rightarrow> 'h integrations \<Rightarrow> bool" where
  "integrations_wf houston_inv s \<longleftrightarrow>
     houston_inv (houston s)
     \<and> (\<forall>a p. cache s a = Some p \<longrightarrow> (\<exists>m. p = Some m \<and> finite (dom m)))
     \<and> dom (cache s) \<subseteq> sync_map s"

lemma integrations_wf_NewClient: "houston_inv h \<Longrightarrow> integrations_wf houston_inv (NewClient h)"
  by (simp add: integrations_wf_def NewClient_def NewMap_def)

lemma integrations_wf_resetCache:
  "integrations_wf houston_inv s \<Longrightarrow> integrations_wf houston_inv (resetCache s)"
  by (simp add: integrations_wf_def resetCache_def NewMap_def)

lemma integrations_wf_counters [simp]:
  "integrations_wf houston_inv (s\<lparr>counters := ms\<rparr>) = integrations_wf houston_inv s"
  by (simp add: integrations_wf_def)

lemma integrations_wf_lock:
  "integrations_wf houston_inv s \<Longrightarrow>
     integrations_wf houston_inv (s\<lparr>sync_map := insert a (sync_map s)\<rparr>)"
  by (auto simp: integrations_wf_def)

context houston_api
begin

lemma wf_update_ex:
  assumes "integrations_wf houston_inv s"
  shows "\<exists>s' r. UpdateIntegrationsForApp houston_get s a = Returned (s', r)
    \<and> integrations_wf houston_inv s'"
proof -
  from assms have "houston_inv (houston s)" by (simp add: integrations_wf_def)
  then show ?thesis
  proof (cases rule: houston_get_cases [of _ a])
    case (error h err)
    with assms show ?thesis by (simp add: update_error) (simp add: integrations_wf_def)
  next
    case (success h m)
    with assms show ?thesis
      by (simp add: update_success) (auto simp: integrations_wf_def)
  qed
qed

lemma wf_get_ex:
  assumes "integrations_wf houston_inv s"
  shows "\<exists>s' r. GetIntegrations houston_get s a = Returned (s', r)
    \<and> integrations_wf houston_inv s' \<and> (\<forall>m. r = Inr (Some m) \<longrightarrow> finite (dom m))"
proof (cases rule: cache_miss_cases [of s a])
  case miss
  from assms have "houston_inv (houston s)" by (simp add: integrations_wf_def)
  then show ?thesis
  proof (cases rule: houston_get_cases [of _ a])
    case (error h err)
    with assms miss show ?thesis
      by (simp add: get_miss_error) (auto simp: integrations_wf_def)
  next
    case (success h m)
    with assms miss show ?thesis
      by (simp add: get_miss_success) (auto simp: integrations_wf_def)
  qed
next
  case (hit m)
  with assms show ?thesis
    by (simp add: get_hit integrations_wf_lock) (auto simp: integrations_wf_def)
qed

lemma wf_event_ex:
  assumes "integrations_wf houston_inv s"
  shows "\<exists>s'. SSEEventListener dec_message houston_get s d = Returned s'
    \<and> integrations_wf houston_inv s'"
proof (cases "dec_message d")
  case (Inl err)
  with assms show ?thesis by (simp add: listener_bad_event)
next
  case (Inr a)
  let ?s = "s\<lparr>counters := bump SSEClickstreamMessagesReceived [] 1 (counters s)\<rparr>"
  obtain s' r where "UpdateIntegrationsForApp houston_get ?s a = Returned (s', r)"
    and "integrations_wf houston_inv s'"
    using wf_update_ex [of ?s a] assms by auto
  with Inr show ?thesis by (auto dest: listener_event)
qed

end

text \<open>The client keeps its contract over any Houston client that keeps its own.\<close>

sublocale houston_api \<subseteq> client: integrations_api
  "GetIntegrations houston_get" "UpdateIntegrationsForApp houston_get"
  "SSEEventListener dec_message houston_get" "integrations_wf houston_inv" for dec_message
proof unfold_locales
  fix s :: "'h integrations" and a :: string and d :: bytes and s' m
  assume wf: "integrations_wf houston_inv s"
  show "\<exists>s' r. GetIntegrations houston_get s a = Returned (s', r) \<and> integrations_wf houston_inv s'"
    using wf_get_ex [OF wf] by blast
  show "GetIntegrations houston_get s a = Returned (s', Inr (Some m)) \<Longrightarrow> finite (dom m)"
    using wf_get_ex [OF wf, of a] by auto
  show "\<exists>s' r. UpdateIntegrationsForApp houston_get s a = Returned (s', r)
      \<and> integrations_wf houston_inv s'"
    by (rule wf_update_ex [OF wf])
  show "\<exists>s'. SSEEventListener dec_message houston_get s d = Returned s'
      \<and> integrations_wf houston_inv s'"
    by (rule wf_event_ex [OF wf])
qed

interpretation mock_client: integrations_api
  MockClient_GetIntegrations MockClient_UpdateIntegrationsForApp MockClient_SSEEventListener
  "\<lambda>u. True"
  by unfold_locales
    (simp_all add: MockClient_GetIntegrations_def MockClient_UpdateIntegrationsForApp_def
      MockClient_SSEEventListener_def)

section \<open>Sequences of operations and the time to live\<close>

datatype cache_op = Op_Get string | Op_Update string | Op_Event bytes | Op_Reset

fun run_op ::
    "(bytes \<Rightarrow> string result) \<Rightarrow> ('h \<Rightarrow> string \<Rightarrow> 'h \<times> strmap option result) \<Rightarrow> cache_op \<Rightarrow>
     'h integrations \<Rightarrow> 'h integrations outcome" where
  "run_op dec_message houston_get (Op_Get a) s =
     and_then (GetIntegrations houston_get s a) (\<lambda>(s, r). Returned s)"
| "run_op dec_message houston_get (Op_Update a) s =
     and_then (UpdateIntegrationsForApp houston_get s a) (\<lambda>(s, err). Returned s)"
| "run_op dec_message houston_get (Op_Event d) s = SSEEventListener dec_message houston_get s d"
| "run_op dec_message houston_get Op_Reset s = Returned (resetCache s)"

fun run_ops ::
    "(bytes \<Rightarrow> string result) \<Rightarrow> ('h \<Rightarrow> string \<Rightarrow> 'h \<times> strmap option result) \<Rightarrow> cache_op list \<Rightarrow>
     'h integrations \<Rightarrow> 'h integrations outcome" where
  "run_ops dec_message houston_get [] s = Returned s"
| "run_ops dec_message houston_get (op # ops) s =
     and_then (run_op dec_message houston_get op s) (\<lambda>s. run_ops dec_message houston_get ops s)"

text \<open>
  \<open>StartTTL\<close>: a timer loop whose tick is \<open>resetCache\<close> and whose other branch only returns. The
  rest of the program meanwhile runs operations of the client.
\<close>

definition ttl_timer :: "int64 \<Rightarrow> int64" where
  "ttl_timer ttl = minutes ttl"

definition ttl_tick :: "'h integrations \<Rightarrow> 'h integrations \<Rightarrow> bool" where
  "ttl_tick s s' \<longleftrightarrow> s' = resetCache s"

definition ttl_stop :: "'h integrations \<Rightarrow> 'h integrations \<Rightarrow> bool" where
  "ttl_stop s s' \<longleftrightarrow> s' = s"

definition StartTTL ::
    "('h integrations \<Rightarrow> 'h integrations \<Rightarrow> bool) \<Rightarrow> 'h integrations timer_loop \<Rightarrow>
     'h integrations timer_loop \<Rightarrow> bool" where
  "StartTTL elsewhere = loop_reach ttl_tick ttl_stop elsewhere"

definition lookups ::
    "('h \<Rightarrow> string \<Rightarrow> 'h \<times> strmap option result) \<Rightarrow> 'h integrations \<Rightarrow> 'h integrations \<Rightarrow> bool" where
  "lookups houston_get s s' \<longleftrightarrow> (\<exists>a r. GetIntegrations houston_get s a = Returned (s', r))"

lemma get_keeps_hit:
  assumes "GetIntegrations houston_get s b = Returned (s', r)" "cache s a = Some (Some m)"
  shows "cache s' a = Some (Some m)"
proof (cases rule: cache_miss_cases [of s b])
  case miss
  obtain h q where h: "houston_get (houston s) b = (h, q)" by fastforce
  from miss assms(2) have "b \<noteq> a" by (auto simp: cache_miss_def)
  with miss h assms show ?thesis
    by (cases q) (auto simp: get_miss_error get_miss_success)
next
  case (hit m')
  with assms show ?thesis by (auto simp: get_hit)
qed

lemma ttl_stale:
  assumes "StartTTL (lookups houston_get) l l'" "\<not> armed l" "cache (body l) a = Some (Some m)"
  shows "cache (body l') a = Some (Some m)"
proof -
  have "\<not> armed l' \<and> cache (body l') a = Some (Some m)"
    using assms(1) unfolding StartTTL_def
  proof (induction rule: loop_reach.induct)
    case reach_start
    with assms show ?case by simp
  next
    case (reach_step l1 l2)
    from reach_step.hyps(2) show ?case
      using reach_step.IH
      by (cases rule: loop_step.cases)
        (auto simp: ttl_stop_def lookups_def dest: get_keeps_hit)
  qed
  then show ?thesis by simp
qed

context houston_api
begin

lemma run_op_wf:
  assumes "integrations_wf houston_inv s"
  shows "\<exists>s'. run_op dec_message houston_get op s = Returned s' \<and> integrations_wf houston_inv s'"
proof (cases op)
  case (Op_Get a)
  with wf_get_ex [OF assms, of a] show ?thesis by auto
next
  case (Op_Update a)
  with wf_update_ex [OF assms, of a] show ?thesis by auto
next
  case (Op_Event d)
  with wf_event_ex [OF assms, of dec_message d] show ?thesis by auto
next
  case Op_Reset
  with assms show ?thesis by (simp add: integrations_wf_resetCache)
qed

lemma run_ops_wf:
  assumes "integrations_wf houston_inv s"
  shows "\<exists>s'. run_ops dec_message houston_get ops s = Returned s' \<and> integrations_wf houston_inv s'"
  using assms
proof (induction ops arbitrary: s)
  case Nil
  then show ?case by simp
next
  case (Cons op ops)
  obtain s1 where "run_op dec_message houston_get op s = Returned s1" "integrations_wf houston_inv s1"
    using run_op_wf [OF Cons.prems] by blast
  with Cons.IH show ?case by simp
qed

end


section \<open>Properties\<close>

definition down :: "unit \<Rightarrow> string \<Rightarrow> unit \<times> strmap option result" where
  "down u a = (u, Inl (Error_String ''down''))"

definition up :: "unit \<Rightarrow> string \<Rightarrow> unit \<times> strmap option result" where
  "up u a = (u, Inr (Some [''S3'' \<mapsto> ''s3-topic'']))"

text \<open>C23: From the start of the program no sequence of lookups, updates, SSE events and resets
  panics or leaves the cache in a state that is not well formed: every cached pointer leads to a
  map and every cached app has its lock.\<close>

theorem cache_operations_safe:
  "\<exists>s. run_ops dec_message (Client_GetIntegrations env) ops (NewClient h) = Returned s
    \<and> integrations_wf houston_wf s"
  by (rule real_houston.run_ops_wf) (simp add: integrations_wf_NewClient houston_wf_def)

text \<open>The first lookup of an app that is not cached fetches its integrations, caches them and
  returns nil without an error; only the next lookup returns them, without asking Houston.\<close>

theorem first_lookup_returns_nil:
  assumes "cache_miss s a" "houston_get (houston s) a = (h, Inr (Some m))"
  shows "\<exists>s'. GetIntegrations houston_get s a = Returned (s', Inr None) \<and> houston s' = h
    \<and> counters s' IntegrationCacheMiss [a] = counters s IntegrationCacheMiss [a] + 1
    \<and> GetIntegrations houston_get s' a = Returned (s', Inr (Some m))"
  using assms by (simp add: get_miss_success get_hit)

theorem first_lookup_returns_nil_witness:
  "\<exists>s'. GetIntegrations up (NewClient ()) ''a'' = Returned (s', Inr None) \<and> houston s' = ()
    \<and> counters s' IntegrationCacheMiss [''a''] = counters (NewClient ()) IntegrationCacheMiss [''a''] + 1
    \<and> GetIntegrations up s' ''a'' = Returned (s', Inr (Some [''S3'' \<mapsto> ''s3-topic'']))"
  by (rule first_lookup_returns_nil) (simp_all add: cache_miss_def NewClient_def NewMap_def up_def)

text \<open>When Houston fails, the lookup reports the error with both of its contexts, and nothing is
  cached: the app is a miss again.\<close>

theorem failed_lookup_caches_nothing:
  assumes "cache_miss s a" "houston_get (houston s) a = (h, Inl err)"
  shows "\<exists>s'. GetIntegrations houston_get s a = Returned (s', Inl (With_Message
      (With_Message err ''Error updating integrations'') ''Error getting integration''))
    \<and> cache s' = cache s \<and> cache_miss s' a"
  using assms by (simp add: get_miss_error cache_miss_def)

theorem failed_lookup_caches_nothing_witness:
  "\<exists>s'. GetIntegrations down (NewClient ()) ''a'' = Returned (s', Inl (With_Message
      (With_Message (Error_String ''down'') ''Error updating integrations'')
      ''Error getting integration''))
    \<and> cache s' = cache (NewClient ()) \<and> cache_miss s' ''a''"
  by (rule failed_lookup_caches_nothing)
    (simp_all add: cache_miss_def NewClient_def NewMap_def down_def)

text \<open>C24: The cache is reset at most once in the life of the client: the timer is never set again.
  What is cached after that reset stays cached for good, however long the lookups go on.\<close>

theorem cache_reset_at_most_once:
  assumes "StartTTL (lookups houston_get) (new_timer_loop s) l"
  shows "ticks l \<le> 1
    \<and> (ticks l = 1 \<longrightarrow> StartTTL (lookups houston_get) l l' \<longrightarrow> cache (body l) a = Some (Some m) \<longrightarrow>
        ticks l' = 1 \<and> cache (body l') a = Some (Some m))"
proof -
  have shot: "one_shot l"
    using assms one_shot_reach by (simp add: StartTTL_def)
  have "ticks l' = 1 \<and> cache (body l') a = Some (Some m)"
    if "ticks l = 1" "StartTTL (lookups houston_get) l l'" "cache (body l) a = Some (Some m)"
  proof -
    have "ticks l = (if armed l then 0 else 1)" using shot unfolding one_shot_def .
    then have "\<not> armed l" using that(1) by (cases "armed l") simp_all
    moreover from this have "ticks l' = ticks l"
      using disarmed_reach [OF that(2) [unfolded StartTTL_def]] by blast
    ultimately show ?thesis using that(1) ttl_stale [OF that(2) _ that(3)] by simp
  qed
  moreover have "ticks l \<le> 1"
    using assms unfolding StartTTL_def by (rule loop_ticks_le_1)
  ultimately show ?thesis by blast
qed

lemma ttl_run:
  assumes "GetIntegrations up (NewClient ()) ''a'' = Returned (s', r)"
  shows "StartTTL (lookups up) (new_timer_loop (NewClient ()))
    ((new_timer_loop s')\<lparr>armed := False, ticks := 1\<rparr>)"
proof -
  let ?l = "new_timer_loop (NewClient ())"
  let ?l1 = "?l\<lparr>armed := False, ticks := Suc (ticks ?l), body := NewClient ()\<rparr>"
  have "loop_step ttl_tick ttl_stop (lookups up) ?l ?l1"
    by (rule timer_fires)
      (simp_all add: new_timer_loop_def ttl_tick_def resetCache_def NewClient_def)
  moreover have "loop_step ttl_tick ttl_stop (lookups up) ?l1 (?l1\<lparr>body := s'\<rparr>)"
    using assms by (intro others) (auto simp: lookups_def)
  ultimately have "loop_reach ttl_tick ttl_stop (lookups up) ?l (?l1\<lparr>body := s'\<rparr>)"
    by (meson loop_reach.intros)
  then show ?thesis by (simp add: StartTTL_def new_timer_loop_def)
qed

theorem cache_reset_at_most_once_witness:
  "\<exists>l. StartTTL (lookups up) (new_timer_loop (NewClient ())) l \<and> ticks l = 1
    \<and> (\<forall>l'. StartTTL (lookups up) l l' \<longrightarrow>
         ticks l' = 1 \<and> cache (body l') ''a'' = Some (Some [''S3'' \<mapsto> ''s3-topic'']))"
proof -
  have "cache_miss (NewClient ()) ''a''" "up (houston (NewClient ())) ''a'' =
      ((), Inr (Some [''S3'' \<mapsto> ''s3-topic'']))"
    by (simp_all add: cache_miss_def NewClient_def NewMap_def up_def)
  from get_miss_success [of "NewClient ()" "''a''" up, OF this]
  obtain s' where call: "GetIntegrations up (NewClient ()) ''a'' = Returned (s', Inr None)"
    and hit: "cache s' ''a'' = Some (Some [''S3'' \<mapsto> ''s3-topic''])" by auto
  let ?l = "(new_timer_loop s')\<lparr>armed := False, ticks := 1\<rparr>"
  have "cache (body ?l) ''a'' = Some (Some [''S3'' \<mapsto> ''s3-topic''])"
    using hit by (simp add: new_timer_loop_def)
  with cache_reset_at_most_once [OF ttl_run [OF call]] ttl_run [OF call] show ?thesis
    by (intro exI [of _ ?l]) auto
qed

text \<open>C25: Errors that Houston reports in the body of its answer are not looked at: an answer with
  errors and no sources is cached as an app that has no integrations, and later lookups do not
  ask again.\<close>

theorem reported_errors_cached_as_empty:
  assumes "houston s = (c, w)" "auth_token c \<noteq> ''''" "exp_date c < t" "qs_sources sr = []"
  shows "\<exists>s'. UpdateIntegrationsForApp (Client_GetIntegrations (replying_env t cfg vr cr sr)) s a =
      Returned (s', None)
    \<and> (\<exists>s''. GetIntegrations (Client_GetIntegrations (replying_env t cfg vr cr sr)) s' a =
        Returned (s'', Inr (Some Map.empty)) \<and> houston s'' = houston s')"
proof -
  let ?env = "replying_env t cfg vr cr sr"
  have "exp_date c < now ?env w" using assms(3) by (simp add: replying_env_def)
  then have "Client_GetIntegrations ?env (c, w) a =
      ((c, w @ [houston_request c (querySources a) (auth_token c)]),
       Inr (Some (enabled_integrations [])))"
    using assms(2,4) token_reused [of c ?env w]
    by (simp add: Client_GetIntegrations_def replying_query) (simp add: replying_env_def)
  moreover have "enabled_integrations [] = Map.empty"
    by (simp add: enabled_integrations_def)
  ultimately show ?thesis
    using assms(1) by (simp add: update_success get_hit)
qed

theorem reported_errors_cached_as_empty_witness:
  "\<exists>s'. UpdateIntegrationsForApp (Client_GetIntegrations (replying_env 5 (\<lambda>k. '''') sample_verify
      sample_create \<lparr>qs_sources = [], qs_errors = [\<lparr>err_message = ''denied'', err_locations = [],
        err_path = []\<rparr>]\<rparr>)) (NewClient (sample_client 4, [])) ''a'' = Returned (s', None)
    \<and> (\<exists>s''. GetIntegrations (Client_GetIntegrations (replying_env 5 (\<lambda>k. '''') sample_verify
      sample_create \<lparr>qs_sources = [], qs_errors = [\<lparr>err_message = ''denied'', err_locations = [],
        err_path = []\<rparr>]\<rparr>)) s' ''a'' = Returned (s'', Inr (Some Map.empty))
      \<and> houston s'' = houston s')"
  by (rule reported_errors_cached_as_empty [where c = "sample_client 4" and w = "[]"])
    (simp_all add: NewClient_def sample_client_def)

end
