(* ===== verification/S3.thy ===== *)
theory S3
  imports Go_Prelude
begin

text \<open>
  The S3 client of \<open>s3/client.go\<close> and its mock. The uploader of the AWS SDK is a parameter: from
  the state of the world, a bucket, a key and a body it gives the new state and an error or
  nil. A reader over a byte slice yields the bytes of the slice.
\<close>

type_synonym 'w uploader = "'w \<Rightarrow> string \<Rightarrow> string \<Rightarrow> bytes \<Rightarrow> 'w \<times> go_error option"

definition s3_NewClient :: "'u result \<Rightarrow> 'u result" where
  "s3_NewClient session =
     (case session of
        Inl err \<Rightarrow> Inl (With_Message err ''Error getting AWS Session'')
      | Inr uploader \<Rightarrow> Inr uploader)"

definition SendToS3 :: "'w uploader \<Rightarrow> 'w uploader" where
  "SendToS3 upload w bucket key content =
     (case upload w bucket key content of
        (w', Some err) \<Rightarrow> (w', Some (With_Message err ''Error uploading to S3''))
      | (w', None) \<Rightarrow> (w', None))"

definition Mock_SendToS3 :: "'w uploader" where
  "Mock_SendToS3 w bucket key content = (w, None)"

end
