(* ===== verification/Deadletter.thy ===== *)
theory Deadletter
  imports Metrics Timer_Loop S3
begin

text \<open>
  The dead letter queue of \<open>deadletterqueue/client.go\<close>: a map from a key \<open>appID/Integration\<close> to
  the messages kept for it, flushed to S3 when a key holds \<open>queueSize\<close> messages, when the timer
  fires, and when the program shuts down. \<open>AddToQueue\<close> and \<open>Flush\<close> hold the global lock from
  start to end, so each is one atomic operation on the state.

  \<open>send\<close> is the S3 client, \<open>now\<close> the Unix time in seconds as the state of the world gives it.
\<close>

record QueueObject =
  qo_Data :: bytes
  qo_Key :: string

record DeadletterConfig =
  dc_FlushTimeout :: int64
  dc_QueueSize :: int
  dc_S3Bucket :: string

record 'w dlq =
  queueSize :: int
  queue :: "string \<rightharpoonup> bytes list"
  s3Bucket :: string
  world :: 'w
  dl_counters :: metrics

definition dlq_NewClient :: "DeadletterConfig \<Rightarrow> 'w \<Rightarrow> 'w dlq" where
  "dlq_NewClient cfg w =
     \<lparr>queueSize = dc_QueueSize cfg, queue = Map.empty, s3Bucket = dc_S3Bucket cfg,
      world = w, dl_counters = no_metrics\<rparr>"

text \<open>The duration the timer of a new client is set to.\<close>

definition dlq_timer :: "DeadletterConfig \<Rightarrow> int64" where
  "dlq_timer cfg = minutes (dc_FlushTimeout cfg)"

definition queued :: "'w dlq \<Rightarrow> string \<Rightarrow> bytes list" where
  "queued c k = (case queue c k of None \<Rightarrow> [] | Some vs \<Rightarrow> vs)"

definition Length :: "'w dlq \<Rightarrow> string \<Rightarrow> nat" where
  "Length c k = length (queued c k)"


section \<open>Flushing one key\<close>

text \<open>
  The loop of \<open>flush\<close> writes every message and a newline to a \<open>bytes.Buffer\<close> made over the
  empty slice \<open>data\<close>. The buffer keeps what is written in its own slice; \<open>data\<close> itself stays
  the slice of length 0 it was.
\<close>

fun write_messages :: "bytes list \<Rightarrow> bytes \<times> nat \<times> nat \<Rightarrow> bytes \<times> nat \<times> nat" where
  "write_messages [] (buffer, cnt, sz) = (buffer, cnt, sz)"
| "write_messages (v # vs) (buffer, cnt, sz) =
     write_messages vs (buffer @ v @ [CHR 0x0A], cnt + 1, sz + length v + 1)"

definition object_key :: "('w \<Rightarrow> int) \<Rightarrow> string \<Rightarrow> 'w dlq \<Rightarrow> string" where
  "object_key now key c = key @ ''/'' @ format_int (now (world c))"

definition flush ::
    "('w \<Rightarrow> int) \<Rightarrow> 'w uploader \<Rightarrow> string \<Rightarrow> 'w dlq \<Rightarrow> ('w dlq \<times> go_error option) outcome" where
  "flush now send key c =
     (let data = [];
          (buffer, cnt, sz) = write_messages (queued c key) (data, 0, 0);
          key = object_key now key c
      in case send (world c) (s3Bucket c) key data of
           (w, Some err) \<Rightarrow> Returned (c\<lparr>world := w\<rparr>, Some (With_Message err (''error flushing '' @ key)))
         | (w, None) \<Rightarrow>
             (case split_on (CHR ''/'') key of
                app # integration # _ \<Rightarrow>
                  and_then (prom_add MessagesUploadedToS3
                      [(''appId'', app), (''integration'', integration)] cnt (dl_counters c)) (\<lambda>ms.
                  and_then (prom_add BytesUploadedToS3
                      [(''appId'', app), (''integration'', integration)] sz ms) (\<lambda>ms.
                    Returned (c\<lparr>world := w, dl_counters := ms, queue := (queue c)(key \<mapsto> [])\<rparr>, None)))
              | _ \<Rightarrow> Panicked ''index out of range''))"


section \<open>The operations of the client\<close>

definition AddToQueue ::
    "('w \<Rightarrow> int) \<Rightarrow> 'w uploader \<Rightarrow> QueueObject \<Rightarrow> 'w dlq \<Rightarrow> ('w dlq \<times> go_error option) outcome" where
  "AddToQueue now send qo c =
     (if length (qo_Key qo) = 0
      then Returned (c, Some (Error_String ''Dead Letter Queue key cannot be empty''))
      else if length (qo_Data qo) = 0 then Returned (c, None)
      else if \<not> contains_byte (qo_Key qo) (CHR ''/'')
      then Returned (c, Some (Error_String
             (''invalid key, must be in the format 'appID/Integration'' @ [CHR 0x27])))
      else
        (let c = c\<lparr>queue := (queue c)(qo_Key qo \<mapsto> queued c (qo_Key qo) @ [qo_Data qo])\<rparr>
         in if int (length (queued c (qo_Key qo))) \<ge> queueSize c
            then and_then (flush now send (qo_Key qo) c) (\<lambda>(c, err).
                   Returned (c, wrap err
                     ''error flushing dead letter queue after hitting queue size''))
            else Returned (c, None)))"

text \<open>
  \<open>Flush\<close> ranges over the map while \<open>flush\<close> adds entries to it. The language lets the loop visit
  such an entry or not, each at most once, and requires the entries that were there at the
  start. \<open>visits\<close> is the list of the keys visited; \<open>flush_range\<close> says which lists are allowed.
\<close>

fun flush_visits ::
    "('w \<Rightarrow> int) \<Rightarrow> 'w uploader \<Rightarrow> string list \<Rightarrow> 'w dlq \<Rightarrow> string list \<Rightarrow>
     ('w dlq \<times> string list) outcome" where
  "flush_visits now send [] c errMessages = Returned (c, errMessages)"
| "flush_visits now send (key # keys) c errMessages =
     and_then (flush now send key c) (\<lambda>(c, err).
       flush_visits now send keys c
         (case err of None \<Rightarrow> errMessages | Some e \<Rightarrow> errMessages @ [error_text e]))"

fun present_when_visited :: "('w \<Rightarrow> int) \<Rightarrow> 'w uploader \<Rightarrow> string list \<Rightarrow> 'w dlq \<Rightarrow> bool" where
  "present_when_visited now send [] c = True"
| "present_when_visited now send (key # keys) c =
     (queue c key \<noteq> None
      \<and> (case flush now send key c of
           Returned (c, err) \<Rightarrow> present_when_visited now send keys c
         | Panicked m \<Rightarrow> True))"

definition flush_range :: "('w \<Rightarrow> int) \<Rightarrow> 'w uploader \<Rightarrow> string list \<Rightarrow> 'w dlq \<Rightarrow> bool" where
  "flush_range now send visits c \<longleftrightarrow>
     distinct visits \<and> dom (queue c) \<subseteq> set visits \<and> present_when_visited now send visits c"

definition Flush ::
    "('w \<Rightarrow> int) \<Rightarrow> 'w uploader \<Rightarrow> string list \<Rightarrow> 'w dlq \<Rightarrow> ('w dlq \<times> go_error option) outcome" where
  "Flush now send visits c =
     and_then (flush_visits now send visits c []) (\<lambda>(c, errMessages).
       if length errMessages \<noteq> 0
       then Returned (c, Some (Error_String (join '', '' errMessages)))
       else Returned (c, None))"

text \<open>\<open>Close\<close> waits for the calls of \<open>AddToQueue\<close> under way, then flushes; the error is logged.\<close>

definition dlq_Close ::
    "('w \<Rightarrow> int) \<Rightarrow> 'w uploader \<Rightarrow> string list \<Rightarrow> 'w dlq \<Rightarrow> 'w dlq outcome" where
  "dlq_Close now send visits c =
     and_then (Flush now send visits c) (\<lambda>(c, err). Returned c)"


section \<open>The goroutine of the client\<close>

text \<open>
  \<open>start\<close> is a timer loop: \<open>Flush\<close> when the timer fires, \<open>Close\<close> when the shutdown channel is
  closed. Meanwhile the producer calls \<open>AddToQueue\<close>.
\<close>

definition flush_branch :: "('w \<Rightarrow> int) \<Rightarrow> 'w uploader \<Rightarrow> 'w dlq \<Rightarrow> 'w dlq \<Rightarrow> bool" where
  "flush_branch now send c c' \<longleftrightarrow>
     (\<exists>visits err. flush_range now send visits c \<and> Flush now send visits c = Returned (c', err))"

definition close_branch :: "('w \<Rightarrow> int) \<Rightarrow> 'w uploader \<Rightarrow> 'w dlq \<Rightarrow> 'w dlq \<Rightarrow> bool" where
  "close_branch now send c c' \<longleftrightarrow>
     (\<exists>visits. flush_range now send visits c \<and> dlq_Close now send visits c = Returned c')"

definition add_call :: "('w \<Rightarrow> int) \<Rightarrow> 'w uploader \<Rightarrow> 'w dlq \<Rightarrow> 'w dlq \<Rightarrow> bool" where
  "add_call now send c c' \<longleftrightarrow> (\<exists>qo err. AddToQueue now send qo c = Returned (c', err))"

definition start_step ::
    "('w \<Rightarrow> int) \<Rightarrow> 'w uploader \<Rightarrow> 'w dlq timer_loop \<Rightarrow> 'w dlq timer_loop \<Rightarrow> bool" where
  "start_step now send =
     loop_step (flush_branch now send) (close_branch now send) (add_call now send)"

definition start_reach ::
    "('w \<Rightarrow> int) \<Rightarrow> 'w uploader \<Rightarrow> 'w dlq \<Rightarrow> 'w dlq timer_loop \<Rightarrow> bool" where
  "start_reach now send c =
     loop_reach (flush_branch now send) (close_branch now send) (add_call now send)
       (new_timer_loop c)"

section \<open>What a flush does\<close>

text \<open>Every message counts itself and its newline.\<close>

definition flush_size :: "bytes list \<Rightarrow> nat" where
  "flush_size vs = sum_list (map (\<lambda>v. length v + 1) vs)"

lemma write_messages_eq:
  "write_messages vs (b, n, s) =
     (b @ concat (map (\<lambda>v. v @ [CHR 0x0A]) vs), n + length vs, s + flush_size vs)"
  by (induction vs arbitrary: b n s) (simp_all add: flush_size_def)

text \<open>The values of the two labels: what stands before and after the first slash of the key.\<close>

definition object_labels :: "string \<Rightarrow> string list" where
  "object_labels key = take 2 (split_on (CHR ''/'') key)"

lemma object_key_split:
  "\<exists>app integration rest. split_on (CHR ''/'') (object_key now k c) = app # integration # rest"
  by (rule split_on_two) (simp add: object_key_def)

lemma flush_success:
  assumes "send (world c) (s3Bucket c) (object_key now k c) [] = (w, None)"
  shows "flush now send k c =
    Returned (c\<lparr>world := w,
      dl_counters := bump BytesUploadedToS3 (object_labels (object_key now k c))
          (flush_size (queued c k))
        (bump MessagesUploadedToS3 (object_labels (object_key now k c))
          (length (queued c k)) (dl_counters c)),
      queue := (queue c)(object_key now k c \<mapsto> [])\<rparr>, None)"
proof -
  obtain app integration rest
    where "split_on (CHR ''/'') (object_key now k c) = app # integration # rest"
    using object_key_split by blast
  with assms show ?thesis
    by (simp add: flush_def write_messages_eq outcome_simps object_labels_def)
qed

lemma flush_error:
  assumes "send (world c) (s3Bucket c) (object_key now k c) [] = (w, Some err)"
  shows "flush now send k c =
    Returned (c\<lparr>world := w\<rparr>, Some (With_Message err (''error flushing '' @ object_key now k c)))"
  using assms by (simp add: flush_def write_messages_eq)

lemma flush_cases:
  obtains (uploaded) w where "send (world c) (s3Bucket c) (object_key now k c) [] = (w, None)"
  | (failed) w err where "send (world c) (s3Bucket c) (object_key now k c) [] = (w, Some err)"
proof (cases "send (world c) (s3Bucket c) (object_key now k c) []")
  case (Pair w r)
  then show thesis using uploaded failed by (cases r) auto
qed

lemma flush_returns: "\<exists>c' err. flush now send k c = Returned (c', err)"
  by (cases rule: flush_cases [of send c now k]) (simp_all add: flush_success flush_error)

lemma flush_queue:
  assumes "flush now send k c = Returned (c', err)"
  shows "queue c' = (if err = None then (queue c)(object_key now k c \<mapsto> []) else queue c)"
  using assms
  by (cases rule: flush_cases [of send c now k]) (auto simp: flush_success flush_error)

lemma flush_frame:
  assumes "flush now send k c = Returned (c', err)"
  shows "queueSize c' = queueSize c" "s3Bucket c' = s3Bucket c"
  using assms
  by (cases rule: flush_cases [of send c now k]; auto simp: flush_success flush_error)+

lemma flush_world:
  assumes "flush now send k c = Returned (c', err)"
  shows "world c' = fst (send (world c) (s3Bucket c) (object_key now k c) [])"
  using assms
  by (cases rule: flush_cases [of send c now k]) (auto simp: flush_success flush_error)

text \<open>A key of the form \<open>key/seconds\<close>, as the objects of S3 are named.\<close>

definition timestamped :: "string \<Rightarrow> bool" where
  "timestamped k \<longleftrightarrow> (\<exists>key t. k = key @ ''/'' @ format_int t)"

lemma timestamped_object_key [simp]: "timestamped (object_key now k c)"
  by (auto simp: timestamped_def object_key_def)

lemma object_key_neq: "object_key now k c \<noteq> k"
  by (simp add: object_key_def)

lemma flush_keeps:
  assumes "flush now send k c = Returned (c', err)" "k' \<noteq> object_key now k c"
  shows "queue c' k' = queue c k'"
  using flush_queue [OF assms(1)] assms(2) by simp

lemma flush_keeps_untimestamped:
  assumes "flush now send k c = Returned (c', err)" "\<not> timestamped k'"
  shows "queue c' k' = queue c k'"
  using assms by (intro flush_keeps) auto


section \<open>What adding does\<close>

definition accepted :: "QueueObject \<Rightarrow> bool" where
  "accepted qo \<longleftrightarrow> qo_Key qo \<noteq> [] \<and> qo_Data qo \<noteq> [] \<and> contains_byte (qo_Key qo) (CHR ''/'')"

definition enqueue :: "QueueObject \<Rightarrow> 'w dlq \<Rightarrow> 'w dlq" where
  "enqueue qo c = c\<lparr>queue := (queue c)(qo_Key qo \<mapsto> queued c (qo_Key qo) @ [qo_Data qo])\<rparr>"

lemma queued_enqueue [simp]:
  "queued (enqueue qo c) k = (if k = qo_Key qo then queued c k @ [qo_Data qo] else queued c k)"
  by (simp add: enqueue_def queued_def)

lemma enqueue_frame [simp]:
  "queueSize (enqueue qo c) = queueSize c" "world (enqueue qo c) = world c"
  "s3Bucket (enqueue qo c) = s3Bucket c"
  by (simp_all add: enqueue_def)

lemma AddToQueue_accepted:
  assumes "accepted qo"
  shows "AddToQueue now send qo c =
    (if int (length (queued c (qo_Key qo))) + 1 \<ge> queueSize c
     then and_then (flush now send (qo_Key qo) (enqueue qo c)) (\<lambda>(c, err).
            Returned (c, wrap err ''error flushing dead letter queue after hitting queue size''))
     else Returned (enqueue qo c, None))"
proof -
  have len: "int (length (queued (enqueue qo c) (qo_Key qo))) =
      int (length (queued c (qo_Key qo))) + 1"
    by simp
  show ?thesis
    using assms len
    by (simp add: AddToQueue_def accepted_def Let_def enqueue_def [symmetric]
        del: queued_enqueue)
qed

lemma AddToQueue_not_accepted:
  "\<not> accepted qo \<Longrightarrow> \<exists>err. AddToQueue now send qo c = Returned (c, err)"
  by (auto simp: AddToQueue_def accepted_def)

lemma AddToQueue_returns: "\<exists>c' err. AddToQueue now send qo c = Returned (c', err)"
proof (cases "accepted qo")
  case True
  obtain c' err where "flush now send (qo_Key qo) (enqueue qo c) = Returned (c', err)"
    using flush_returns by blast
  with True show ?thesis by (simp add: AddToQueue_accepted)
next
  case False
  from AddToQueue_not_accepted [OF this] show ?thesis by blast
qed

lemma AddToQueue_split:
  assumes "AddToQueue now send qo c = Returned (c', err)" "accepted qo"
  obtains (kept) "c' = enqueue qo c" "err = None"
      "int (length (queued c (qo_Key qo))) + 1 < queueSize c"
  | (flushed) err' where "flush now send (qo_Key qo) (enqueue qo c) = Returned (c', err')"
      "int (length (queued c (qo_Key qo))) + 1 \<ge> queueSize c"
      "err = wrap err' ''error flushing dead letter queue after hitting queue size''"
  using assms
  by (auto simp: AddToQueue_accepted outcome_simps split: if_splits)

lemma AddToQueue_queued:
  assumes "AddToQueue now send qo c = Returned (c', err)" "accepted qo"
  shows "queued c' (qo_Key qo) = queued c (qo_Key qo) @ [qo_Data qo]"
  using assms
proof (cases rule: AddToQueue_split)
  case kept
  then show ?thesis by simp
next
  case (flushed err')
  have "queue c' (qo_Key qo) = queue (enqueue qo c) (qo_Key qo)"
    by (rule flush_keeps [OF flushed(1)]) (rule object_key_neq [symmetric])
  then show ?thesis by (simp add: queued_def [of c'] queued_def [of "enqueue qo c", symmetric])
qed

lemma AddToQueue_queued_other:
  assumes "AddToQueue now send qo c = Returned (c', err)" "k \<noteq> qo_Key qo" "\<not> timestamped k"
  shows "queued c' k = queued c k"
proof (cases "accepted qo")
  case True
  from assms(1) True show ?thesis
  proof (cases rule: AddToQueue_split)
    case kept
    with assms(2) show ?thesis by simp
  next
    case (flushed err')
    have "queue c' k = queue (enqueue qo c) k"
      by (rule flush_keeps_untimestamped [OF flushed(1) assms(3)])
    with assms(2) show ?thesis by (simp add: enqueue_def queued_def)
  qed
next
  case False
  with assms(1) show ?thesis using AddToQueue_not_accepted [OF False, of now send c] by auto
qed

text \<open>So nothing is ever taken out of the queue of a key: a call can only extend it.\<close>

lemma AddToQueue_extends:
  assumes "AddToQueue now send qo c = Returned (c', err)" "\<not> timestamped k"
  shows "\<exists>ys. queued c' k = queued c k @ ys"
proof (cases "k = qo_Key qo \<and> accepted qo")
  case True
  with assms(1) show ?thesis by (auto dest: AddToQueue_queued)
next
  case False
  show ?thesis
  proof (cases "accepted qo")
    case True
    with False assms show ?thesis by (auto dest: AddToQueue_queued_other)
  next
    case False
    with assms(1) show ?thesis using AddToQueue_not_accepted [OF False, of now send c] by auto
  qed
qed

end
