(* ===== verification/Deadletter_Flush.thy ===== *)
theory Deadletter_Flush
  imports Deadletter
begin

text \<open>
  The loop of \<open>Flush\<close> over a map that it extends, the goroutine of the client, and the contract
  the producer relies on.
\<close>

section \<open>The range loop\<close>

lemma flush_visits_returns: "\<exists>c' es'. flush_visits now send ks c es = Returned (c', es')"
proof (induction ks arbitrary: c es)
  case Nil
  then show ?case by simp
next
  case (Cons k ks)
  obtain c' err where "flush now send k c = Returned (c', err)"
    using flush_returns by blast
  with Cons.IH show ?case by simp
qed

lemma Flush_returns: "\<exists>c' err. Flush now send ks c = Returned (c', err)"
  using flush_visits_returns [of now send ks c "[]"] by (auto simp: Flush_def)

lemma flush_visits_Cons:
  assumes "flush_visits now send (k # ks) c es = Returned (c', es')"
  obtains c1 err where "flush now send k c = Returned (c1, err)"
    "flush_visits now send ks c1
       (case err of None \<Rightarrow> es | Some e \<Rightarrow> es @ [error_text e]) = Returned (c', es')"
  using assms by (auto simp: outcome_simps)

lemma flush_visits_append:
  "flush_visits now send (ks @ ls) c es =
     and_then (flush_visits now send ks c es) (\<lambda>(c, es). flush_visits now send ls c es)"
proof (induction ks arbitrary: c es)
  case Nil
  then show ?case by simp
next
  case (Cons k ks)
  then show ?case
    by (cases "flush now send k c") (auto split: prod.splits)
qed

lemma flush_visits_keeps:
  assumes "flush_visits now send ks c es = Returned (c', es')" "\<not> timestamped k"
  shows "queue c' k = queue c k"
  using assms(1)
proof (induction ks arbitrary: c es)
  case Nil
  then show ?case by simp
next
  case (Cons x ks)
  from Cons.prems obtain c1 err where step: "flush now send x c = Returned (c1, err)"
    and rest: "flush_visits now send ks c1
       (case err of None \<Rightarrow> es | Some e \<Rightarrow> es @ [error_text e]) = Returned (c', es')"
    by (rule flush_visits_Cons)
  from Cons.IH [OF rest] flush_keeps_untimestamped [OF step assms(2)] show ?case by simp
qed

lemma Flush_keeps:
  assumes "Flush now send ks c = Returned (c', err)" "\<not> timestamped k"
  shows "queue c' k = queue c k"
  using assms by (auto simp: Flush_def outcome_simps flush_visits_keeps split: if_splits)

lemma flush_grows:
  "flush now send k c = Returned (c', err) \<Longrightarrow> dom (queue c) \<subseteq> dom (queue c')"
  by (auto dest!: flush_queue split: if_splits)

lemma present_initial:
  "set ks \<subseteq> dom (queue c) \<Longrightarrow> present_when_visited now send ks c"
proof (induction ks arbitrary: c)
  case Nil
  then show ?case by simp
next
  case (Cons k ks)
  obtain c' err where step: "flush now send k c = Returned (c', err)"
    using flush_returns by blast
  have "set ks \<subseteq> dom (queue c')"
    using Cons.prems flush_grows [OF step] by (meson set_subset_Cons subset_trans)
  then have "present_when_visited now send ks c'" by (rule Cons.IH)
  with step Cons.prems show ?case by auto
qed

text \<open>The keys that were there at the start, in any order, are a run of the loop.\<close>

lemma flush_range_enumerates: "enumerates ks (queue c) \<Longrightarrow> flush_range now send ks c"
  by (simp add: flush_range_def enumerates_def present_initial)

lemma present_append:
  assumes "present_when_visited now send ks c"
    and "flush_visits now send ks c es = Returned (c', es')" and "queue c' k \<noteq> None"
  shows "present_when_visited now send (ks @ [k]) c"
  using assms
proof (induction ks arbitrary: c es)
  case Nil
  obtain d err where "flush now send k c = Returned (d, err)"
    using flush_returns by blast
  with Nil show ?case by simp
next
  case (Cons x ks)
  from Cons.prems(2) obtain c1 err where step: "flush now send x c = Returned (c1, err)"
    and rest: "flush_visits now send ks c1
       (case err of None \<Rightarrow> es | Some e \<Rightarrow> es @ [error_text e]) = Returned (c', es')"
    by (rule flush_visits_Cons)
  with Cons show ?case by simp
qed


section \<open>When every upload succeeds\<close>

definition stamp :: "int \<Rightarrow> string \<Rightarrow> string" where
  "stamp t k = k @ ''/'' @ format_int t"

lemma inj_stamp: "inj (stamp t)"
  by (rule injI) (simp add: stamp_def)

lemma timestamped_stamp: "timestamped (stamp t k)"
  by (auto simp: timestamped_def stamp_def)

lemma length_stamp: "length k < length (stamp t k)"
  by (simp add: stamp_def)

definition always_sends :: "'w uploader \<Rightarrow> bool" where
  "always_sends send \<longleftrightarrow> (\<forall>w b k d. snd (send w b k d) = None)"

definition fixed_clock :: "('w \<Rightarrow> int) \<Rightarrow> int \<Rightarrow> bool" where
  "fixed_clock now t \<longleftrightarrow> (\<forall>w. now w = t)"

lemma flush_sent:
  assumes "always_sends send" "fixed_clock now t"
  shows "\<exists>c'. flush now send k c = Returned (c', None)
    \<and> queue c' = (queue c)(stamp t k \<mapsto> [])"
proof -
  obtain w where "send (world c) (s3Bucket c) (object_key now k c) [] = (w, None)"
    using assms(1) by (metis always_sends_def surjective_pairing)
  moreover have "object_key now k c = stamp t k"
    by (simp add: object_key_def stamp_def assms(2) [unfolded fixed_clock_def])
  ultimately show ?thesis by (simp add: flush_success)
qed

lemma flush_visits_sent:
  assumes "always_sends send" "fixed_clock now t"
  shows "\<exists>c'. flush_visits now send ks c es = Returned (c', es)
    \<and> dom (queue c') = dom (queue c) \<union> stamp t ` set ks"
proof (induction ks arbitrary: c)
  case Nil
  then show ?case by simp
next
  case (Cons k ks)
  obtain c1 where step: "flush now send k c = Returned (c1, None)"
    and q: "queue c1 = (queue c)(stamp t k \<mapsto> [])"
    using flush_sent [OF assms] by blast
  obtain c' where "flush_visits now send ks c1 es = Returned (c', es)"
    and "dom (queue c') = dom (queue c1) \<union> stamp t ` set ks"
    using Cons.IH by blast
  with step q show ?case by auto
qed

lemma Flush_sent:
  assumes "always_sends send" "fixed_clock now t"
  shows "\<exists>c'. Flush now send ks c = Returned (c', None)
    \<and> dom (queue c') = dom (queue c) \<union> stamp t ` set ks"
  using flush_visits_sent [OF assms, of ks c "[]"] by (auto simp: Flush_def)

lemma stamped_dom_card:
  assumes "finite D" "\<And>k. k \<in> D \<Longrightarrow> \<not> timestamped k"
  shows "card (D \<union> stamp t ` D) = 2 * card D"
proof -
  have "D \<inter> stamp t ` D = {}"
    using assms(2) timestamped_stamp by blast
  then have "card (D \<union> stamp t ` D) = card D + card (stamp t ` D)"
    using assms(1) by (intro card_Un_disjoint) auto
  also have "card (stamp t ` D) = card D"
    by (rule card_image) (rule inj_on_subset [OF inj_stamp subset_UNIV])
  finally show ?thesis by simp
qed

text \<open>
  A run of the loop can always be extended by one more key: the longest key visited so far has
  put a longer one into the map.
\<close>

lemma flush_range_extend:
  assumes sends: "always_sends send" and clock: "fixed_clock now t"
    and run: "flush_range now send ks c" and "ks \<noteq> []"
  shows "\<exists>k. flush_range now send (ks @ [k]) c"
proof -
  have "Max (length ` set ks) \<in> length ` set ks"
    using \<open>ks \<noteq> []\<close> by (intro Max_in) auto
  then obtain x where x: "x \<in> set ks" "length x = Max (length ` set ks)" by auto
  have "length y \<le> length x" if "y \<in> set ks" for y
    using that x(2) by simp
  then have fresh: "stamp t x \<notin> set ks"
    using length_stamp [of x t] by (meson not_le)
  obtain c' where end_state: "flush_visits now send ks c [] = Returned (c', [])"
    and dom: "dom (queue c') = dom (queue c) \<union> stamp t ` set ks"
    using flush_visits_sent [OF sends clock] by blast
  have "queue c' (stamp t x) \<noteq> None"
    using dom x(1) by blast
  then have "present_when_visited now send (ks @ [stamp t x]) c"
    using run end_state by (intro present_append) (auto simp: flush_range_def)
  with run fresh have "flush_range now send (ks @ [stamp t x]) c"
    by (auto simp: flush_range_def)
  then show ?thesis by blast
qed

lemma flush_range_unbounded:
  assumes sends: "always_sends send" and clock: "fixed_clock now t"
    and "finite (dom (queue c))" "queue c \<noteq> Map.empty"
  shows "\<exists>ks. flush_range now send ks c \<and> length ks = card (dom (queue c)) + n"
proof (induction n)
  case 0
  obtain ks where "enumerates ks (queue c)"
    using enumerates_ex [OF assms(3)] by blast
  then show ?case
    by (intro exI [of _ ks]) (simp add: flush_range_enumerates enumerates_length)
next
  case (Suc n)
  then obtain ks where ks: "flush_range now send ks c" "length ks = card (dom (queue c)) + n"
    by blast
  have "ks \<noteq> []"
    using ks(1) assms(4) by (auto simp: flush_range_def)
  then obtain k where "flush_range now send (ks @ [k]) c"
    using flush_range_extend [OF sends clock ks(1)] by blast
  with ks(2) show ?case by (intro exI [of _ "ks @ [k]"]) simp
qed


section \<open>The life of the client\<close>

text \<open>
  An S3 that records the objects it stores, and refuses an upload when \<open>fails\<close> says so, whatever
  that may depend on.
\<close>

type_synonym bucket_log = "(string \<times> string \<times> bytes) list"

definition logging_upload ::
    "(bucket_log \<Rightarrow> string \<Rightarrow> string \<Rightarrow> bytes \<Rightarrow> go_error option) \<Rightarrow> bucket_log uploader" where
  "logging_upload fails log bucket key content =
     (case fails log bucket key content of
        None \<Rightarrow> (log @ [(bucket, key, content)], None)
      | Some err \<Rightarrow> (log, Some err))"

definition empty_bodies :: "bucket_log dlq \<Rightarrow> bool" where
  "empty_bodies c \<longleftrightarrow> (\<forall>(b, k, d) \<in> set (world c). d = [])"

lemma flush_empty_bodies:
  assumes "flush now (SendToS3 (logging_upload fails)) k c = Returned (c', err)" "empty_bodies c"
  shows "empty_bodies c'"
  using flush_world [OF assms(1)] assms(2)
  by (auto simp: SendToS3_def logging_upload_def empty_bodies_def split: option.splits)

lemma flush_visits_empty_bodies:
  assumes "flush_visits now (SendToS3 (logging_upload fails)) ks c es = Returned (c', es')"
    and "empty_bodies c"
  shows "empty_bodies c'"
  using assms
proof (induction ks arbitrary: c es)
  case Nil
  then show ?case by simp
next
  case (Cons k ks)
  from Cons.prems(1) show ?case
    by (rule flush_visits_Cons) (metis Cons.IH Cons.prems(2) flush_empty_bodies)
qed

lemma Flush_empty_bodies:
  assumes "Flush now (SendToS3 (logging_upload fails)) ks c = Returned (c', err)" "empty_bodies c"
  shows "empty_bodies c'"
  using assms by (auto simp: Flush_def outcome_simps flush_visits_empty_bodies split: if_splits)

lemma enqueue_empty_bodies [simp]: "empty_bodies (enqueue qo c) = empty_bodies c"
  by (simp add: empty_bodies_def)

lemma AddToQueue_empty_bodies:
  assumes "AddToQueue now (SendToS3 (logging_upload fails)) qo c = Returned (c', err)"
    and "empty_bodies c"
  shows "empty_bodies c'"
proof (cases "accepted qo")
  case True
  from assms(1) True show ?thesis
    by (cases rule: AddToQueue_split) (use assms(2) flush_empty_bodies in auto)
next
  case False
  then obtain err' where "AddToQueue now (SendToS3 (logging_upload fails)) qo c = Returned (c, err')"
    using AddToQueue_not_accepted by blast
  with assms show ?thesis by simp
qed

lemmas branch_defs = flush_branch_def close_branch_def add_call_def dlq_Close_def outcome_simps

lemma start_empty_bodies:
  assumes "start_reach now (SendToS3 (logging_upload fails)) c l" "empty_bodies c"
  shows "empty_bodies (body l)"
  using assms(1) unfolding start_reach_def
proof (rule loop_reach_invariant)
  show "empty_bodies (body (new_timer_loop c))"
    using assms(2) by (simp add: new_timer_loop_def)
qed (auto simp: branch_defs Flush_empty_bodies AddToQueue_empty_bodies)

text \<open>What is queued for a key only ever grows, whatever was flushed.\<close>

definition extends :: "string \<Rightarrow> bytes list \<Rightarrow> 'w dlq \<Rightarrow> bool" where
  "extends k xs c \<longleftrightarrow> (\<exists>ys. queued c k = xs @ ys)"

lemma extends_refl: "extends k (queued c k) c"
  by (simp add: extends_def)

lemma extends_Flush:
  assumes "extends k xs c" "\<not> timestamped k" "Flush now send ks c = Returned (c', err)"
  shows "extends k xs c'"
  using Flush_keeps [OF assms(3,2)] assms(1) by (simp add: extends_def queued_def)

lemma extends_AddToQueue:
  assumes "extends k xs c" "\<not> timestamped k" "AddToQueue now send qo c = Returned (c', err)"
  shows "extends k xs c'"
  using AddToQueue_extends [OF assms(3,2)] assms(1) by (auto simp: extends_def)

lemma start_extends:
  assumes "start_reach now send c l" "\<not> timestamped k"
  shows "extends k (queued c k) (body l)"
  using assms(1) unfolding start_reach_def
proof (rule loop_reach_invariant)
  show "extends k (queued c k) (body (new_timer_loop c))"
    by (simp add: new_timer_loop_def extends_refl)
qed (auto simp: branch_defs intro: extends_Flush [OF _ assms(2)] extends_AddToQueue [OF _ assms(2)])


section \<open>The contract of the queue\<close>

text \<open>
  \<open>AddToQueue\<close> as the producer relies on it: it returns, it ignores what is not accepted, and what
  is accepted is the last message queued for its key.
\<close>

locale dead_letter_queue =
  fixes dl_add :: "'d \<Rightarrow> QueueObject \<Rightarrow> ('d \<times> go_error option) outcome"
    and dl_queued :: "'d \<Rightarrow> string \<Rightarrow> bytes list"
  assumes dl_add_total: "\<exists>d' err. dl_add d qo = Returned (d', err)"
    and dl_add_accepted: "accepted qo \<Longrightarrow> dl_add d qo = Returned (d', err) \<Longrightarrow>
      dl_queued d' (qo_Key qo) = dl_queued d (qo_Key qo) @ [qo_Data qo]"
    and dl_add_ignored: "\<not> accepted qo \<Longrightarrow> dl_add d qo = Returned (d', err) \<Longrightarrow> d' = d"

fun run_adds ::
    "('d \<Rightarrow> QueueObject \<Rightarrow> ('d \<times> go_error option) outcome) \<Rightarrow> QueueObject list \<Rightarrow> 'd \<Rightarrow> 'd outcome" where
  "run_adds add [] d = Returned d"
| "run_adds add (qo # qos) d = and_then (add d qo) (\<lambda>(d, err). run_adds add qos d)"

context dead_letter_queue
begin

lemma run_adds_returns: "\<exists>d'. run_adds dl_add qos d = Returned d'"
proof (induction qos arbitrary: d)
  case Nil
  then show ?case by simp
next
  case (Cons qo qos)
  obtain d' err where "dl_add d qo = Returned (d', err)"
    using dl_add_total by blast
  with Cons show ?case by simp
qed

lemma run_adds_key:
  assumes "run_adds dl_add qos d = Returned d'" "\<forall>qo \<in> set qos. qo_Key qo = k"
  shows "dl_queued d' k = dl_queued d k @ map qo_Data (filter accepted qos)"
  using assms
proof (induction qos arbitrary: d)
  case Nil
  then show ?case by simp
next
  case (Cons qo qos)
  from Cons.prems obtain d1 err where add: "dl_add d qo = Returned (d1, err)"
    and rest: "run_adds dl_add qos d1 = Returned d'"
    by (auto simp: outcome_simps)
  have "dl_queued d' k = dl_queued d1 k @ map qo_Data (filter accepted qos)"
    using Cons.IH [OF rest] Cons.prems(2) by simp
  moreover have "dl_queued d1 k = dl_queued d k @ map qo_Data (filter accepted [qo])"
    using dl_add_accepted [OF _ add] dl_add_ignored [OF _ add] Cons.prems(2) by auto
  ultimately show ?case by simp
qed

end

interpretation deadletters: dead_letter_queue "\<lambda>d qo. AddToQueue now send qo d" queued for now send
proof unfold_locales
  fix d d' :: "'a dlq" and qo err
  show "\<exists>d' err. AddToQueue now send qo d = Returned (d', err)"
    by (rule AddToQueue_returns)
  show "accepted qo \<Longrightarrow> AddToQueue now send qo d = Returned (d', err) \<Longrightarrow>
      queued d' (qo_Key qo) = queued d (qo_Key qo) @ [qo_Data qo]"
    by (rule AddToQueue_queued)
  show "\<not> accepted qo \<Longrightarrow> AddToQueue now send qo d = Returned (d', err) \<Longrightarrow> d' = d"
    using AddToQueue_not_accepted [of qo now send d] by auto
qed

section \<open>Properties\<close>

definition never_fails :: "bucket_log \<Rightarrow> string \<Rightarrow> string \<Rightarrow> bytes \<Rightarrow> go_error option" where
  "never_fails log bucket key content = None"

definition queue_config :: "int \<Rightarrow> DeadletterConfig" where
  "queue_config sz = \<lparr>dc_FlushTimeout = 10, dc_QueueSize = sz, dc_S3Bucket = ''bucket''\<rparr>"

definition log_send :: "bucket_log uploader" where
  "log_send = SendToS3 (logging_upload never_fails)"

definition log_clock :: "bucket_log \<Rightarrow> int" where
  "log_clock log = 7"

lemma log_send_eq: "log_send w b k d = (w @ [(b, k, d)], None)"
  by (simp add: log_send_def SendToS3_def logging_upload_def never_fails_def)

lemma log_send_always: "always_sends log_send"
  by (simp add: always_sends_def log_send_eq)

lemma log_clock_fixed: "fixed_clock log_clock 7"
  by (simp add: fixed_clock_def log_clock_def)

abbreviation log_add :: "bucket_log dlq \<Rightarrow> QueueObject \<Rightarrow> (bucket_log dlq \<times> go_error option) outcome" where
  "log_add \<equiv> \<lambda>c qo. AddToQueue log_clock log_send qo c"

lemma add_uploads:
  assumes "log_add c qo = Returned (c', err)" "accepted qo"
  shows "length (world c') = length (world c)
    + (if queueSize c \<le> int (length (queued c (qo_Key qo))) + 1 then 1 else 0)"
    and "queueSize c' = queueSize c"
proof -
  show "length (world c') = length (world c)
    + (if queueSize c \<le> int (length (queued c (qo_Key qo))) + 1 then 1 else 0)"
    using assms by (cases rule: AddToQueue_split) (auto dest!: flush_world simp: log_send_eq)
  show "queueSize c' = queueSize c"
    using assms by (cases rule: AddToQueue_split) (auto dest!: flush_frame(1))
qed

lemma run_adds_uploads:
  assumes "run_adds log_add (map (\<lambda>v. \<lparr>qo_Data = v, qo_Key = k\<rparr>) vs) c = Returned c'"
    and "contains_byte k (CHR ''/'')" "\<forall>v \<in> set vs. v \<noteq> []" "queueSize c = int sz" "0 < sz"
  shows "length (world c') = length (world c) + (length vs - (sz - 1 - length (queued c k)))"
  using assms
proof (induction vs arbitrary: c)
  case Nil
  then show ?case by simp
next
  case (Cons v vs)
  let ?qo = "\<lparr>qo_Data = v, qo_Key = k\<rparr>"
  from Cons.prems(1) obtain c1 err where add: "log_add c ?qo = Returned (c1, err)"
    and rest: "run_adds log_add (map (\<lambda>v. \<lparr>qo_Data = v, qo_Key = k\<rparr>) vs) c1 = Returned c'"
    by (auto simp: outcome_simps)
  have acc: "accepted ?qo"
    using Cons.prems(2,3) by (auto simp: accepted_def contains_byte_def)
  have "length (queued c1 k) = Suc (length (queued c k))"
    using AddToQueue_queued [OF add acc] by simp
  then show ?case
    using Cons.IH [OF rest] Cons.prems add_uploads [OF add acc] by auto
qed

text \<open>C20: Every object the dead letter queue stores in S3 is empty, through any run of additions,
  timer flushes and the final close, whatever uploads fail: what is uploaded is not the buffer the
  messages were written to.\<close>

theorem stored_objects_are_empty:
  assumes "start_reach clock (SendToS3 (logging_upload fails)) (dlq_NewClient cfg []) l"
  shows "\<forall>(b, k, content) \<in> set (world (body l)). content = []"
proof -
  have "empty_bodies (dlq_NewClient cfg [])"
    by (simp add: empty_bodies_def dlq_NewClient_def)
  from start_empty_bodies [OF assms this] show ?thesis by (simp add: empty_bodies_def)
qed

lemma start_reach_add:
  assumes "AddToQueue clock send qo c = Returned (c', err)"
  shows "start_reach clock send c ((new_timer_loop c)\<lparr>body := c'\<rparr>)"
  unfolding start_reach_def
  by (rule reach_step [OF reach_start], rule others)
    (use assms in \<open>auto simp: add_call_def new_timer_loop_def\<close>)

definition after_add :: "bucket_log dlq" where
  "after_add =
     \<lparr>queueSize = 1, queue = [''a/b'' \<mapsto> [''m''], ''a/b/7'' \<mapsto> []], s3Bucket = ''bucket'',
       world = [(''bucket'', ''a/b/7'', [])],
       dl_counters = bump BytesUploadedToS3 [''a'', ''b''] 2
         (bump MessagesUploadedToS3 [''a'', ''b''] 1 no_metrics)\<rparr>"

lemma sample_add:
  "log_add (dlq_NewClient (queue_config 1) []) \<lparr>qo_Data = ''m'', qo_Key = ''a/b''\<rparr> =
     Returned (after_add, None)"
proof -
  let ?c = "enqueue \<lparr>qo_Data = ''m'', qo_Key = ''a/b''\<rparr> (dlq_NewClient (queue_config 1) [])"
  have key: "object_key log_clock ''a/b'' ?c = ''a/b/7''"
    by (simp add: object_key_def log_clock_def format_int_def format_nat.simps)
  have "flush log_clock log_send ''a/b'' ?c =
     Returned (after_add, None)"
    by (subst flush_success [where w = "[(''bucket'', ''a/b/7'', [])]"])
      (simp_all add: key log_send_eq, simp_all add: enqueue_def dlq_NewClient_def queue_config_def
        queued_def object_labels_def flush_size_def after_add_def numeral_2_eq_2)
  moreover have "accepted \<lparr>qo_Data = ''m'', qo_Key = ''a/b''\<rparr>"
    by (simp add: accepted_def contains_byte_def)
  ultimately show ?thesis
    by (simp add: AddToQueue_accepted) (simp add: dlq_NewClient_def queue_config_def)
qed

definition after_add_loop :: "bucket_log dlq timer_loop" where
  "after_add_loop = (new_timer_loop (dlq_NewClient (queue_config 1) []))\<lparr>body := after_add\<rparr>"

lemma after_add_reach: "start_reach log_clock log_send (dlq_NewClient (queue_config 1) []) after_add_loop"
  unfolding after_add_loop_def by (rule start_reach_add [OF sample_add])

lemma after_add_world: "world (body after_add_loop) = [(''bucket'', ''a/b/7'', [])]"
  by (simp add: after_add_loop_def after_add_def)

lemma after_add_queued: "queued (body after_add_loop) ''a/b'' = [''m'']"
  by (simp add: after_add_loop_def after_add_def queued_def)

theorem stored_objects_are_empty_witness:
  "\<exists>l. start_reach log_clock (SendToS3 (logging_upload never_fails))
      (dlq_NewClient (queue_config 1) []) l
    \<and> world (body l) = [(''bucket'', ''a/b/7'', [])]
    \<and> (\<forall>(b, k, content) \<in> set (world (body l)). content = [])"
  using stored_objects_are_empty [OF after_add_reach [unfolded log_send_def]]
    after_add_reach [unfolded log_send_def] after_add_world by blast

text \<open>C21: What is queued for a key is never taken out, unless the key itself ends with a slash and a number,
  as the keys do that a flush makes: in any run of the client the messages of any other key stay at the
  front of its queue, flushed or not, and the timer flushes at most once.\<close>

theorem queue_never_drained:
  assumes "start_reach clock send c l" "\<not> timestamped k"
  shows "ticks l \<le> 1 \<and> (\<exists>vs. queued (body l) k = queued c k @ vs)"
  using start_extends [OF assms] loop_ticks_le_1 assms(1)
  by (auto simp: extends_def start_reach_def)

lemma not_timestamped_a_b: "\<not> timestamped ''a/b''"
proof
  assume "timestamped ''a/b''"
  then obtain key t where eq: "''a/b'' = key @ ''/'' @ format_int t"
    by (auto simp: timestamped_def)
  have "CHR ''b'' \<in> set (format_int t)"
    using eq by (cases "format_int t" rule: rev_cases) auto
  then show False
    using format_nat_digits [of "nat t"] format_nat_digits [of "nat (- t)"]
    by (auto simp: format_int_def split: if_splits)
qed

theorem queue_never_drained_witness:
  "\<exists>l. start_reach log_clock log_send (dlq_NewClient (queue_config 1) []) l
    \<and> ticks l \<le> 1 \<and> queued (body l) ''a/b'' = [''m'']
    \<and> (\<exists>vs. queued (body l) ''a/b'' = queued (dlq_NewClient (queue_config 1) ([] :: bucket_log)) ''a/b'' @ vs)"
  using queue_never_drained [OF after_add_reach not_timestamped_a_b] after_add_reach after_add_queued
  by blast

text \<open>The size of the queue of one key is no bound: \<open>n\<close> accepted messages leave \<open>n\<close> messages
  queued, and from the one that reaches the size on every single addition uploads an object.\<close>

theorem additions_to_one_key:
  assumes "contains_byte k (CHR ''/'')" "\<forall>v \<in> set vs. v \<noteq> []"
    and "dc_QueueSize cfg = int sz" "0 < sz"
  shows "\<exists>c. run_adds log_add (map (\<lambda>v. \<lparr>qo_Data = v, qo_Key = k\<rparr>) vs) (dlq_NewClient cfg []) =
      Returned c
    \<and> queued c k = vs \<and> length (world c) = length vs - (sz - 1)"
proof -
  let ?qos = "map (\<lambda>v. \<lparr>qo_Data = v, qo_Key = k\<rparr>) vs"
  let ?c = "dlq_NewClient cfg ([] :: bucket_log)"
  obtain c where run: "run_adds log_add ?qos ?c = Returned c"
    using deadletters.run_adds_returns by blast
  have new: "queued ?c k = []" "world ?c = []" "queueSize ?c = int sz"
    using assms(3) by (simp_all add: dlq_NewClient_def queued_def)
  have "accepted \<lparr>qo_Data = v, qo_Key = k\<rparr>" if "v \<in> set vs" for v
    using that assms(1,2) by (auto simp: accepted_def contains_byte_def)
  then have "filter accepted ?qos = ?qos" by (auto simp: filter_id_conv)
  moreover have "map qo_Data ?qos = vs" by (induction vs) simp_all
  ultimately have "queued c k = vs"
    using deadletters.run_adds_key [OF run, of k] new(1) by simp
  moreover have "length (world c) = length vs - (sz - 1)"
    using run_adds_uploads [OF run assms(1,2) new(3) assms(4)] new by simp
  ultimately show ?thesis using run by blast
qed

theorem additions_to_one_key_witness:
  "\<exists>c. run_adds log_add (map (\<lambda>v. \<lparr>qo_Data = v, qo_Key = ''a/b''\<rparr>) [''1'', ''2'', ''3''])
      (dlq_NewClient (queue_config 2) []) = Returned c
    \<and> queued c ''a/b'' = [''1'', ''2'', ''3''] \<and> length (world c) = length [''1'', ''2'', ''3''] - (2 - 1)"
  by (rule additions_to_one_key) (simp_all add: contains_byte_def queue_config_def)

text \<open>A flush that succeeds doubles the number of keys of the queue: for each key it leaves the
  messages where they were and adds an empty entry under the name of the object.\<close>

theorem Flush_doubles_keys:
  assumes "always_sends send" "fixed_clock clock t" "enumerates ks (queue c)"
    and "\<forall>k \<in> dom (queue c). \<not> timestamped k"
  shows "\<exists>c'. Flush clock send ks c = Returned (c', None) \<and> flush_range clock send ks c
    \<and> card (dom (queue c')) = 2 * card (dom (queue c))
    \<and> (\<forall>k \<in> dom (queue c). queue c' k = queue c k)"
proof -
  obtain c' where call: "Flush clock send ks c = Returned (c', None)"
    and dom: "dom (queue c') = dom (queue c) \<union> stamp t ` set ks"
    using Flush_sent [OF assms(1,2)] by blast
  have "card (dom (queue c')) = 2 * card (dom (queue c))"
    unfolding dom using assms(3,4) stamped_dom_card [of "dom (queue c)" t]
    by (simp add: enumerates_finite) (simp add: enumerates_def)
  with call Flush_keeps [OF call] assms(4) flush_range_enumerates [OF assms(3)] show ?thesis
    by auto
qed

definition one_key :: "bucket_log dlq" where
  "one_key = (dlq_NewClient (queue_config 9) [])\<lparr>queue := [''a/b'' \<mapsto> [''m'']]\<rparr>"

theorem Flush_doubles_keys_witness:
  "\<exists>c'. Flush log_clock log_send [''a/b''] one_key = Returned (c', None)
    \<and> flush_range log_clock log_send [''a/b''] one_key
    \<and> card (dom (queue c')) = 2 * card (dom (queue one_key))
    \<and> (\<forall>k \<in> dom (queue one_key). queue c' k = queue one_key k)"
  by (rule Flush_doubles_keys [OF log_send_always log_clock_fixed])
    (simp_all add: one_key_def enumerates_def not_timestamped_a_b)

text \<open>C22: The loop of one \<open>Flush\<close> has no bound: the language lets it visit the entries it adds
  itself, and however many it has visited there is another.\<close>

theorem Flush_loop_unbounded:
  assumes "always_sends send" "fixed_clock clock t" "finite (dom (queue c))" "queue c \<noteq> Map.empty"
  shows "\<exists>visits. flush_range clock send visits c \<and> length visits = card (dom (queue c)) + n
    \<and> (\<exists>c'. Flush clock send visits c = Returned (c', None))"
  using flush_range_unbounded [OF assms] Flush_sent [OF assms(1,2)] by blast

theorem Flush_loop_unbounded_witness:
  "\<exists>visits. flush_range log_clock log_send visits one_key
    \<and> length visits = card (dom (queue one_key)) + 5
    \<and> (\<exists>c'. Flush log_clock log_send visits one_key = Returned (c', None))"
  by (rule Flush_loop_unbounded [OF log_send_always log_clock_fixed]) (simp_all add: one_key_def)

text \<open>An upload that succeeds is counted with the labels of its key and the number of messages
  and bytes that were queued, although the object it stored is empty; one that fails changes
  nothing but the world.\<close>

theorem flush_counts_what_was_queued:
  assumes "CHR ''/'' \<notin> set app" "CHR ''/'' \<notin> set integration"
    and "send (world c) (s3Bucket c) (object_key clock k c) [] = (w, err)"
    and "k = app @ ''/'' @ integration"
  shows "\<exists>c' err'. flush clock send k c = Returned (c', err') \<and> world c' = w
    \<and> (err' = None \<longleftrightarrow> err = None)
    \<and> dl_counters c' MessagesUploadedToS3 [app, integration] =
        dl_counters c MessagesUploadedToS3 [app, integration]
        + (if err = None then length (queued c k) else 0)
    \<and> dl_counters c' BytesUploadedToS3 [app, integration] =
        dl_counters c BytesUploadedToS3 [app, integration]
        + (if err = None then sum_list (map length (queued c k)) + length (queued c k) else 0)"
proof (cases err)
  case None
  have "object_labels (object_key clock k c) = [app, integration]"
    using assms(1,2,4) by (simp add: object_labels_def object_key_def split_on_append)
  moreover have "flush_size vs = sum_list (map length vs) + length vs" for vs
    by (induction vs) (simp_all add: flush_size_def)
  ultimately show ?thesis
    using assms(3) None by (simp add: flush_success)
next
  case (Some e)
  then show ?thesis using assms(3) by (simp add: flush_error)
qed

theorem flush_counts_what_was_queued_witness:
  "\<exists>c' err'. flush log_clock log_send (''a'' @ ''/'' @ ''b'') one_key = Returned (c', err')
    \<and> world c' = [(''bucket'', object_key log_clock (''a'' @ ''/'' @ ''b'') one_key, [])]
    \<and> (err' = None \<longleftrightarrow> (None :: go_error option) = None)
    \<and> dl_counters c' MessagesUploadedToS3 [''a'', ''b''] =
        dl_counters one_key MessagesUploadedToS3 [''a'', ''b'']
        + (if (None :: go_error option) = None then length (queued one_key (''a'' @ ''/'' @ ''b'')) else 0)
    \<and> dl_counters c' BytesUploadedToS3 [''a'', ''b''] =
        dl_counters one_key BytesUploadedToS3 [''a'', ''b'']
        + (if (None :: go_error option) = None
           then sum_list (map length (queued one_key (''a'' @ ''/'' @ ''b'')))
             + length (queued one_key (''a'' @ ''/'' @ ''b'')) else 0)"
  by (rule flush_counts_what_was_queued)
    (simp_all add: log_send_eq, simp_all add: one_key_def dlq_NewClient_def queue_config_def)

end
