(* ===== verification/Cassandra.thy ===== *)
theory Cassandra
  imports Go_Prelude
begin

text \<open>
  The Cassandra client of \<open>cassandra/client.go\<close>, with which the mock command records the
  messages it has sent. The driver (gocql) is the parameter \<open>driver\<close>: opening a session on a
  cluster, executing a statement with its bound values, closing a session, each on the state
  \<open>'w\<close> of the outside world. A session is known by a number.
\<close>

datatype cql_value = Cql_Int int | Cql_Text string

record cluster_config =
  cl_Servers :: "string list"
  cl_Keyspace :: string
  cl_Consistency :: nat

record cassandra_configs =
  Servers :: "string list"
  Keyspace :: string
  ReplicationFactor :: int
  MessageTableName :: string
  Consistency :: nat
  RunID :: int

type_synonym session = nat

record 'w cql_driver =
  create_session :: "'w \<Rightarrow> cluster_config \<Rightarrow> 'w \<times> session result"
  exec :: "'w \<Rightarrow> session \<Rightarrow> string \<Rightarrow> cql_value list \<Rightarrow> 'w \<times> go_error option"
  close_session :: "'w \<Rightarrow> session \<Rightarrow> 'w"

record cassandra_client =
  cass_session :: session
  cass_configs :: cassandra_configs

definition keyspaceQuery :: "string \<Rightarrow> int \<Rightarrow> string" where
  "keyspaceQuery keyspace replicationFactor =
     ''CREATE KEYSPACE IF NOT EXISTS '' @ keyspace @ '' WITH replication =''
     @ '' {'' @ [CHR 0x27] @ ''class'' @ [CHR 0x27] @ '':'' @ [CHR 0x27] @ ''SimpleStrategy''
     @ [CHR 0x27] @ '','' @ [CHR 0x27] @ ''replication_factor'' @ [CHR 0x27] @ '': ''
     @ format_int replicationFactor @ ''}''"

definition createTableQuery :: "cassandra_configs \<Rightarrow> string" where
  "createTableQuery cfg =
     ''CREATE TABLE IF NOT EXISTS '' @ Keyspace cfg @ ''.'' @ MessageTableName cfg @ '' ('' @ [CHR 0x0A]
     @ [CHR 0x09] @ ''runID int,'' @ [CHR 0x0A]
     @ [CHR 0x09] @ ''taskID text,'' @ [CHR 0x0A]
     @ [CHR 0x09] @ ''messageID int,'' @ [CHR 0x0A]
     @ [CHR 0x09] @ ''PRIMARY KEY (runID, messageID, taskID))''"

definition insertQuery :: "cassandra_configs \<Rightarrow> string" where
  "insertQuery cfg =
     ''INSERT INTO '' @ MessageTableName cfg @ ''(runID, taskID, messageID)'' @ ''VALUES (?, ?, ?)''"

definition initKeyspace ::
    "'w cql_driver \<Rightarrow> 'w \<Rightarrow> session \<Rightarrow> string \<Rightarrow> int \<Rightarrow> 'w \<times> go_error option" where
  "initKeyspace driver w session keyspace replicationFactor =
     (let (w, err) = exec driver w session (keyspaceQuery keyspace replicationFactor) []
      in (w, wrap err ''error attempting to create cassandra keyspace''))"

definition initMessagesTable ::
    "'w cql_driver \<Rightarrow> 'w \<Rightarrow> cassandra_client \<Rightarrow> 'w \<times> go_error option" where
  "initMessagesTable driver w c =
     (let (w, err) = exec driver w (cass_session c) (createTableQuery (cass_configs c)) []
      in (w, wrap err ''error creating messages table''))"

definition cassandra_NewClient ::
    "'w cql_driver \<Rightarrow> 'w \<Rightarrow> cassandra_configs \<Rightarrow> 'w \<times> cassandra_client result" where
  "cassandra_NewClient driver w cfg =
     (case create_session driver w
        \<lparr>cl_Servers = Servers cfg, cl_Keyspace = ''system'', cl_Consistency = Consistency cfg\<rparr> of
        (w, Inl err) \<Rightarrow> (w, Inl (With_Message err ''Error creating cassandra cluster session''))
      | (w, Inr systemSession) \<Rightarrow>
          (case initKeyspace driver w systemSession (Keyspace cfg) (ReplicationFactor cfg) of
             (w, Some err) \<Rightarrow> (w, Inl (With_Message err ''Error initializing cluster session''))
           | (w, None) \<Rightarrow>
               (let w = close_session driver w systemSession
                in case create_session driver w
                     \<lparr>cl_Servers = Servers cfg, cl_Keyspace = Keyspace cfg,
                      cl_Consistency = Consistency cfg\<rparr> of
                     (w, Inl err) \<Rightarrow>
                       (w, Inl (With_Message err ''Error creating cassandra cluster session''))
                   | (w, Inr session) \<Rightarrow>
                       (let client = \<lparr>cass_session = session, cass_configs = cfg\<rparr>
                        in case initMessagesTable driver w client of
                             (w, Some err) \<Rightarrow>
                               (w, Inl (With_Message err ''Error initializing message table''))
                           | (w, None) \<Rightarrow> (w, Inr client)))))"

definition InsertMessage ::
    "'w cql_driver \<Rightarrow> 'w \<Rightarrow> cassandra_client \<Rightarrow> string \<Rightarrow> string \<Rightarrow> 'w \<times> go_error option" where
  "InsertMessage driver w c messageID taskID =
     (let (w, err) = exec driver w (cass_session c) (insertQuery (cass_configs c))
            [Cql_Int (RunID (cass_configs c)), Cql_Text taskID, Cql_Text messageID]
      in (w, wrap err ''Error inserting data''))"

definition cassandra_Close :: "'w cql_driver \<Rightarrow> 'w \<Rightarrow> cassandra_client \<Rightarrow> 'w" where
  "cassandra_Close driver w c = close_session driver w (cass_session c)"


section \<open>Sessions that stay open\<close>

text \<open>
  A driver that records which sessions are open: every new session gets the next number.
  \<open>refuse\<close> decides which statements fail.
\<close>

record session_log =
  next_session :: nat
  open_sessions :: "nat list"

definition recording_driver :: "(string \<Rightarrow> go_error option) \<Rightarrow> session_log cql_driver" where
  "recording_driver refuse =
     \<lparr>create_session = (\<lambda>w cl.
        (w\<lparr>next_session := Suc (next_session w),
           open_sessions := open_sessions w @ [next_session w]\<rparr>, Inr (next_session w))),
      exec = (\<lambda>w s q vs. (w, refuse q)),
      close_session = (\<lambda>w s. w\<lparr>open_sessions := filter (\<lambda>x. x \<noteq> s) (open_sessions w)\<rparr>)\<rparr>"

text \<open>The sessions a call of \<open>NewClient\<close> leaves open, from a start with none.\<close>

definition sessions_left :: "(string \<Rightarrow> go_error option) \<Rightarrow> cassandra_configs \<Rightarrow> nat list" where
  "sessions_left refuse cfg =
     open_sessions (fst (cassandra_NewClient (recording_driver refuse)
       \<lparr>next_session = 0, open_sessions = []\<rparr> cfg))"

definition returned :: "(string \<Rightarrow> go_error option) \<Rightarrow> cassandra_configs \<Rightarrow> bool" where
  "returned refuse cfg \<longleftrightarrow>
     (\<exists>c. snd (cassandra_NewClient (recording_driver refuse)
        \<lparr>next_session = 0, open_sessions = []\<rparr> cfg) = Inr c)"


section \<open>Properties\<close>

text \<open>Of the sessions \<open>NewClient\<close> opens, one is left open whatever fails: the system session when
  the keyspace cannot be made, the session of the client otherwise, also when the table cannot be
  made and no client is returned.\<close>

theorem NewClient_sessions_left:
  "sessions_left refuse cfg =
     (if refuse (keyspaceQuery (Keyspace cfg) (ReplicationFactor cfg)) \<noteq> None then [0] else [1])
   \<and> (returned refuse cfg \<longleftrightarrow> refuse (keyspaceQuery (Keyspace cfg) (ReplicationFactor cfg)) = None
        \<and> refuse (createTableQuery cfg) = None)"
  by (cases "refuse (keyspaceQuery (Keyspace cfg) (ReplicationFactor cfg))";
      cases "refuse (createTableQuery cfg)")
    (simp_all add: sessions_left_def returned_def cassandra_NewClient_def recording_driver_def
      initKeyspace_def initMessagesTable_def)

end
