(* ===== verification/Producer.thy ===== *)
theory Producer
  imports Integrations Deadletter_Flush Cassandra
begin

text \<open>
  The producer of \<open>kafka/clickstream/clickstream_producer.go\<close>: it decodes a message, asks for the
  integrations of its app and sends the message once per integration to the produce channel
  of the Kafka client, whose own goroutine (\<open>channelProducer\<close>) reads the channel and hands each
  message to librdkafka.

  A message on the channel holds a pointer to its topic. The topic of a routed message is the
  address of the loop variable \<open>integration\<close>: one variable for all iterations of the loop, as in
  every version of Go before 1.22, so what the pointer leads to changes with the next
  iteration. \<open>loop_vars\<close> is the store of these variables, one per call that reaches the loop,
  the address being the position. \<open>schedule\<close> says how many messages the goroutine of the
  channel takes after each send, before the loop goes on; every interleaving of the two is one
  such list. The channel holds 1000 messages; a send on a full channel waits until the other
  goroutine has taken one.
\<close>

datatype topic_ref = Retry_Topic | Loop_Var nat

record kafka_message =
  km_topic :: topic_ref
  km_key :: bytes
  km_value :: bytes

record message =
  AppId :: string
  MessageID :: string
  msg_integrations :: "string \<rightharpoonup> bool"

text \<open>The settings of a producer; its clients and its shutdown channel are parts of the state.\<close>

record producer_config =
  pc_BootstrapServers :: string
  pc_GroupID :: string
  pc_MessageTimeout :: int
  pc_FlushTimeout :: int
  pc_Cassandra :: "cassandra_client option"
  pc_CassandraEnabled :: bool
  pc_RetryTopic :: string
  pc_RetryS3Bucket :: string
  pc_S3PathPrefix :: string
  pc_MasterTopic :: string

text \<open>The configuration that \<open>NewProducer\<close> gives to the client library, and the size of the channel in it.\<close>

datatype conf_value = Conf_Text string | Conf_Int int | Conf_Bool bool | Conf_Map "(string \<times> conf_value) list"

definition channel_size :: nat where
  "channel_size = 1000"

definition producer_conf :: "producer_config \<Rightarrow> bool \<Rightarrow> (string \<times> conf_value) list" where
  "producer_conf cfg debug =
     [(''bootstrap.servers'', Conf_Text (pc_BootstrapServers cfg)),
      (''message.timeout.ms'', Conf_Int (pc_MessageTimeout cfg)),
      (''request.required.acks'', Conf_Int (-1)), (''go.produce.channel.size'', Conf_Int (int channel_size))]
     @ (if debug then [(''debug'', Conf_Text ''protocol,topic,msg'')] else [])"

record ('s, 'd, 'w) producer =
  ints :: 's
  deadletter :: "'d option"
  cass_world :: 'w
  loop_vars :: "string list"
  channel :: "kafka_message list"
  channel_closed :: bool
  handed :: "(string \<times> bytes \<times> bytes) list"
  refused :: "kafka_message list"
  schedule :: "nat list"
  prod_counters :: metrics

section \<open>The goroutine of the channel\<close>

definition deref :: "producer_config \<Rightarrow> ('s, 'd, 'w) producer \<Rightarrow> topic_ref \<Rightarrow> string" where
  "deref cfg p r = (case r of Retry_Topic \<Rightarrow> pc_RetryTopic cfg | Loop_Var a \<Rightarrow> loop_vars p ! a)"

text \<open>
  One turn of \<open>channelProducer\<close>: it reads the topic through the pointer when it takes the message;
  an empty topic is refused and the message comes back as a failed delivery.
\<close>

definition take_one :: "producer_config \<Rightarrow> ('s, 'd, 'w) producer \<Rightarrow> ('s, 'd, 'w) producer" where
  "take_one cfg p =
     (case channel p of
        [] \<Rightarrow> p
      | m # ms \<Rightarrow>
          (let topic = deref cfg p (km_topic m)
           in if length topic = 0
              then p\<lparr>channel := ms, refused := refused p @ [m]\<rparr>
              else p\<lparr>channel := ms, handed := handed p @ [(topic, km_key m, km_value m)]\<rparr>))"

definition take_many :: "producer_config \<Rightarrow> nat \<Rightarrow> ('s, 'd, 'w) producer \<Rightarrow> ('s, 'd, 'w) producer" where
  "take_many cfg n p = (take_one cfg ^^ n) p"

text \<open>
  A send, and what the other goroutine does until the sender goes on: the next entry of the
  schedule, and at least one message when the channel was full.
\<close>

definition send_channel ::
    "producer_config \<Rightarrow> kafka_message \<Rightarrow> ('s, 'd, 'w) producer \<Rightarrow> ('s, 'd, 'w) producer outcome" where
  "send_channel cfg m p =
     (if channel_closed p then Panicked ''send on closed channel''
      else
        (let n = (case schedule p of [] \<Rightarrow> 0 | n # _ \<Rightarrow> n);
             p = p\<lparr>channel := channel p @ [m], schedule := tl (schedule p)\<rparr>;
             n = (if length (channel p) > channel_size then max 1 n else n)
         in Returned (take_many cfg n p)))"


section \<open>Routing a message\<close>

text \<open>
  \<open>if ok, intEnabled := dat.Integrations[name]; ok && !intEnabled\<close>: of the two results of the map
  index, the first is the value (false where the key is missing), the second whether the key
  is there.
\<close>

definition switched_off :: "message \<Rightarrow> string \<Rightarrow> bool" where
  "switched_off dat name =
     (let (ok, intEnabled) =
        (case msg_integrations dat name of None \<Rightarrow> (False, False) | Some v \<Rightarrow> (v, True))
      in ok \<and> \<not> intEnabled)"

definition count_routed ::
    "string \<Rightarrow> string \<Rightarrow> bytes \<Rightarrow> ('s, 'd, 'w) producer \<Rightarrow> ('s, 'd, 'w) producer outcome" where
  "count_routed appId integration message p =
     and_then (prom_inc MessagesProduced
        [(''appId'', appId), (''integration'', integration)] (prod_counters p)) (\<lambda>ms.
     and_then (prom_add BytesProduced
        [(''appId'', appId), (''integration'', integration)] (length message) ms) (\<lambda>ms.
       Returned (p\<lparr>prod_counters := ms\<rparr>)))"

text \<open>The row for Cassandra; an error is logged only. A nil client is dereferenced.\<close>

definition record_sent ::
    "producer_config \<Rightarrow> 'w cql_driver \<Rightarrow> message \<Rightarrow> string \<Rightarrow> ('s, 'd, 'w) producer \<Rightarrow>
     ('s, 'd, 'w) producer outcome" where
  "record_sent cfg driver dat integration p =
     (if pc_CassandraEnabled cfg
      then (case pc_Cassandra cfg of
              None \<Rightarrow> Panicked ''nil pointer dereference''
            | Some c \<Rightarrow>
                (let (w, err) = InsertMessage driver (cass_world p) c (MessageID dat)
                       (integration @ ''-sent'')
                 in Returned (p\<lparr>cass_world := w\<rparr>)))
      else Returned p)"

fun route ::
    "producer_config \<Rightarrow> 'w cql_driver \<Rightarrow> message \<Rightarrow> bytes \<Rightarrow> bytes \<Rightarrow> nat \<Rightarrow> (string \<times> string) list \<Rightarrow>
     ('s, 'd, 'w) producer \<Rightarrow> ('s, 'd, 'w) producer outcome" where
  "route cfg driver dat message key addr [] p = Returned p"
| "route cfg driver dat message key addr ((name, integration) # rest) p =
     (let p = p\<lparr>loop_vars := (loop_vars p)[addr := integration]\<rparr>
      in if switched_off dat name then route cfg driver dat message key addr rest p
         else
           and_then (send_channel cfg
             \<lparr>km_topic = Loop_Var addr, km_key = key, km_value = message\<rparr> p) (\<lambda>p.
           and_then (count_routed (AppId dat) integration message p) (\<lambda>p.
           and_then (record_sent cfg driver dat integration p) (\<lambda>p.
             route cfg driver dat message key addr rest p))))"

text \<open>The entries of a map in a given order of its keys.\<close>

definition entries :: "string list \<Rightarrow> strmap \<Rightarrow> (string \<times> string) list" where
  "entries ks m = map (\<lambda>k. (k, map_get m k)) ks"

text \<open>
  \<open>HandleMessage\<close>. \<open>decode\<close> is \<open>UnmarshalJSON\<close>, \<open>ints_get\<close> the integrations client, \<open>order n m\<close> the
  order in which the loop of the call with address \<open>n\<close> ranges over the map \<open>m\<close>.
\<close>

definition HandleMessage ::
    "producer_config \<Rightarrow> 'w cql_driver \<Rightarrow> (bytes \<Rightarrow> message result) \<Rightarrow>
     ('s \<Rightarrow> string \<Rightarrow> ('s \<times> strmap option result) outcome) \<Rightarrow> (nat \<Rightarrow> strmap \<Rightarrow> string list) \<Rightarrow>
     ('s, 'd, 'w) producer \<Rightarrow> bytes \<Rightarrow> bytes \<Rightarrow> (('s, 'd, 'w) producer \<times> go_error option) outcome" where
  "HandleMessage cfg driver decode ints_get order p message key =
     (case decode message of
        Inl err \<Rightarrow> Returned (p, Some (With_Message err ''Error unmarshaling json''))
      | Inr dat \<Rightarrow>
          and_then (prom_add BytesConsumed [(''appId'', AppId dat)] (length message)
            (prod_counters p)) (\<lambda>ms.
          and_then (prom_inc MessagesConsumed [(''appId'', AppId dat)] ms) (\<lambda>ms.
          and_then (ints_get (ints p) (AppId dat)) (\<lambda>(i, r).
            let p = p\<lparr>prod_counters := ms, ints := i\<rparr>
            in case r of
                 Inl err \<Rightarrow>
                   and_then (send_channel cfg
                     \<lparr>km_topic = Retry_Topic, km_key = key, km_value = message\<rparr> p) (\<lambda>p.
                   Returned (p, Some (With_Message err
                     (''Error getting integrations for appID '' @ AppId dat))))
               | Inr integrations \<Rightarrow>
                   if (case integrations of None \<Rightarrow> True | Some m \<Rightarrow> dom m = {})
                   then
                     and_then (prom_inc MessagesWithNoIntegration [(''appId'', AppId dat)]
                       (prod_counters p)) (\<lambda>ms. Returned (p\<lparr>prod_counters := ms\<rparr>, None))
                   else
                     (let m = the integrations; addr = length (loop_vars p);
                          p = p\<lparr>loop_vars := loop_vars p @ ['''']\<rparr>
                      in and_then (route cfg driver dat message key addr
                           (entries (order addr m) m) p) (\<lambda>p. Returned (p, None)))))))"

end
