(* ===== verification/Producer_Routing.thy ===== *)
theory Producer_Routing
  imports Producer
begin

text \<open>
  What the routing loop of the producer does under every schedule of the channel's goroutine:
  which messages reach librdkafka, with which topic, and that none is lost or made twice.
\<close>

section \<open>The goroutine of the channel\<close>

lemma take_one_frame [simp]:
  "loop_vars (take_one cfg p) = loop_vars p"
  "channel_closed (take_one cfg p) = channel_closed p"
  "schedule (take_one cfg p) = schedule p"
  "ints (take_one cfg p) = ints p"
  "deadletter (take_one cfg p) = deadletter p"
  "cass_world (take_one cfg p) = cass_world p"
  "prod_counters (take_one cfg p) = prod_counters p"
  by (simp_all add: take_one_def Let_def split: list.splits)

lemma take_many_0 [simp]: "take_many cfg 0 p = p"
  by (simp add: take_many_def)

lemma take_many_Suc: "take_many cfg (Suc n) p = take_many cfg n (take_one cfg p)"
  by (simp add: take_many_def funpow_swap1)

lemma take_many_frame [simp]:
  "loop_vars (take_many cfg n p) = loop_vars p"
  "channel_closed (take_many cfg n p) = channel_closed p"
  "schedule (take_many cfg n p) = schedule p"
  "ints (take_many cfg n p) = ints p"
  "deadletter (take_many cfg n p) = deadletter p"
  "cass_world (take_many cfg n p) = cass_world p"
  "prod_counters (take_many cfg n p) = prod_counters p"
  by (induction n arbitrary: p) (simp_all add: take_many_Suc)

lemma deref_take_one [simp]: "deref cfg (take_one cfg' p) r = deref cfg p r"
  by (simp add: deref_def split: topic_ref.splits)

text \<open>What a message becomes when it is taken: refused with an empty topic, else handed on.\<close>

definition hand_on :: "producer_config \<Rightarrow> ('s, 'd, 'w) producer \<Rightarrow> kafka_message list \<Rightarrow>
    (string \<times> bytes \<times> bytes) list" where
  "hand_on cfg p ms =
     map (\<lambda>m. (deref cfg p (km_topic m), km_key m, km_value m))
       (filter (\<lambda>m. deref cfg p (km_topic m) \<noteq> []) ms)"

definition turn_down :: "producer_config \<Rightarrow> ('s, 'd, 'w) producer \<Rightarrow> kafka_message list \<Rightarrow>
    kafka_message list" where
  "turn_down cfg p ms = filter (\<lambda>m. deref cfg p (km_topic m) = []) ms"

lemma take_many_channel: "channel (take_many cfg n p) = drop n (channel p)"
proof (induction n arbitrary: p)
  case 0
  then show ?case by simp
next
  case (Suc n)
  then show ?case
    by (simp add: take_many_Suc take_one_def Let_def split: list.splits)
qed

lemma take_many_handed:
  "handed (take_many cfg n p) = handed p @ hand_on cfg p (take n (channel p))"
proof (induction n arbitrary: p)
  case 0
  then show ?case by (simp add: hand_on_def)
next
  case (Suc n)
  have "hand_on cfg (take_one cfg p) ms = hand_on cfg p ms" for ms
    by (simp add: hand_on_def)
  then show ?case
    by (cases "channel p") (simp_all add: take_many_Suc Suc hand_on_def take_one_def Let_def)
qed

lemma take_many_refused:
  "refused (take_many cfg n p) = refused p @ turn_down cfg p (take n (channel p))"
proof (induction n arbitrary: p)
  case 0
  then show ?case by (simp add: turn_down_def)
next
  case (Suc n)
  have "turn_down cfg (take_one cfg p) ms = turn_down cfg p ms" for ms
    by (simp add: turn_down_def)
  then show ?case
    by (cases "channel p") (simp_all add: take_many_Suc Suc turn_down_def take_one_def Let_def)
qed

lemmas take_many_simps = take_many_channel take_many_handed take_many_refused


section \<open>The loop as a fold\<close>

definition cassandra_ready :: "producer_config \<Rightarrow> bool" where
  "cassandra_ready cfg \<longleftrightarrow> (pc_CassandraEnabled cfg \<longrightarrow> pc_Cassandra cfg \<noteq> None)"

definition sent :: "producer_config \<Rightarrow> kafka_message \<Rightarrow> ('s, 'd, 'w) producer \<Rightarrow> ('s, 'd, 'w) producer" where
  "sent cfg m p =
     (let n = (case schedule p of [] \<Rightarrow> 0 | n # _ \<Rightarrow> n);
          p = p\<lparr>channel := channel p @ [m], schedule := tl (schedule p)\<rparr>;
          n = (if length (channel p) > channel_size then max 1 n else n)
      in take_many cfg n p)"

lemma send_channel_sent: "\<not> channel_closed p \<Longrightarrow> send_channel cfg m p = Returned (sent cfg m p)"
  by (simp add: send_channel_def sent_def Let_def)

text \<open>The number of messages taken around a send.\<close>

definition turns :: "('s, 'd, 'w) producer \<Rightarrow> nat" where
  "turns p =
     (let n = (case schedule p of [] \<Rightarrow> 0 | n # _ \<Rightarrow> n)
      in if Suc (length (channel p)) > channel_size then max 1 n else n)"

lemma sent_simps [simp]:
  "loop_vars (sent cfg m p) = loop_vars p"
  "channel_closed (sent cfg m p) = channel_closed p"
  "schedule (sent cfg m p) = tl (schedule p)"
  "ints (sent cfg m p) = ints p"
  "deadletter (sent cfg m p) = deadletter p"
  "cass_world (sent cfg m p) = cass_world p"
  "prod_counters (sent cfg m p) = prod_counters p"
  by (simp_all add: sent_def Let_def)

lemma deref_channel [simp]:
  "deref cfg (p\<lparr>channel := c, schedule := s\<rparr>) r = deref cfg p r"
  by (simp add: deref_def split: topic_ref.splits)

lemma sent_channel:
  "channel (sent cfg m p) = drop (turns p) (channel p @ [m])"
  "handed (sent cfg m p) = handed p @ hand_on cfg p (take (turns p) (channel p @ [m]))"
  "refused (sent cfg m p) = refused p @ turn_down cfg p (take (turns p) (channel p @ [m]))"
  by (simp_all add: sent_def turns_def Let_def take_many_simps hand_on_def turn_down_def)

definition counted ::
    "string \<Rightarrow> string \<Rightarrow> bytes \<Rightarrow> ('s, 'd, 'w) producer \<Rightarrow> ('s, 'd, 'w) producer" where
  "counted appId integration message p =
     p\<lparr>prod_counters := bump BytesProduced [appId, integration] (length message)
         (bump MessagesProduced [appId, integration] 1 (prod_counters p))\<rparr>"

lemma count_routed_eq: "count_routed a i message p = Returned (counted a i message p)"
  by (simp add: count_routed_def counted_def outcome_simps)

definition recorded ::
    "producer_config \<Rightarrow> 'w cql_driver \<Rightarrow> message \<Rightarrow> string \<Rightarrow> ('s, 'd, 'w) producer \<Rightarrow>
     ('s, 'd, 'w) producer" where
  "recorded cfg driver dat integration p =
     (if pc_CassandraEnabled cfg
      then p\<lparr>cass_world := fst (InsertMessage driver (cass_world p) (the (pc_Cassandra cfg))
             (MessageID dat) (integration @ ''-sent''))\<rparr>
      else p)"

lemma record_sent_eq:
  "cassandra_ready cfg \<Longrightarrow>
     record_sent cfg driver dat i p = Returned (recorded cfg driver dat i p)"
  by (auto simp: record_sent_def recorded_def cassandra_ready_def split: prod.splits)

text \<open>The swapped results of the map index make the test of the loop false for every message.\<close>

lemma switched_off_False [simp]: "switched_off dat name = False"
  by (simp add: switched_off_def split: option.splits)

definition iteration ::
    "producer_config \<Rightarrow> 'w cql_driver \<Rightarrow> message \<Rightarrow> bytes \<Rightarrow> bytes \<Rightarrow> nat \<Rightarrow> string \<times> string \<Rightarrow>
     ('s, 'd, 'w) producer \<Rightarrow> ('s, 'd, 'w) producer" where
  "iteration cfg driver dat message key addr e p =
     recorded cfg driver dat (snd e)
       (counted (AppId dat) (snd e) message
         (sent cfg \<lparr>km_topic = Loop_Var addr, km_key = key, km_value = message\<rparr>
           (p\<lparr>loop_vars := (loop_vars p)[addr := snd e]\<rparr>)))"

lemma counted_simps [simp]:
  "loop_vars (counted a i m p) = loop_vars p"
  "channel_closed (counted a i m p) = channel_closed p"
  "schedule (counted a i m p) = schedule p"
  "ints (counted a i m p) = ints p"
  "channel (counted a i m p) = channel p"
  "handed (counted a i m p) = handed p"
  "refused (counted a i m p) = refused p"
  "deadletter (counted a i m p) = deadletter p"
  by (simp_all add: counted_def)

lemma recorded_simps [simp]:
  "loop_vars (recorded cfg driver dat i p) = loop_vars p"
  "channel_closed (recorded cfg driver dat i p) = channel_closed p"
  "schedule (recorded cfg driver dat i p) = schedule p"
  "ints (recorded cfg driver dat i p) = ints p"
  "channel (recorded cfg driver dat i p) = channel p"
  "handed (recorded cfg driver dat i p) = handed p"
  "refused (recorded cfg driver dat i p) = refused p"
  "deadletter (recorded cfg driver dat i p) = deadletter p"
  "prod_counters (recorded cfg driver dat i p) = prod_counters p"
  by (simp_all add: recorded_def)

lemma iteration_simps [simp]:
  "loop_vars (iteration cfg driver dat message key addr e p) = (loop_vars p)[addr := snd e]"
  "channel_closed (iteration cfg driver dat message key addr e p) = channel_closed p"
  "schedule (iteration cfg driver dat message key addr e p) = tl (schedule p)"
  "ints (iteration cfg driver dat message key addr e p) = ints p"
  "deadletter (iteration cfg driver dat message key addr e p) = deadletter p"
  by (simp_all add: iteration_def)

lemma route_Cons:
  assumes "cassandra_ready cfg" "\<not> channel_closed p"
  shows "route cfg driver dat message key addr (e # es) p =
    route cfg driver dat message key addr es (iteration cfg driver dat message key addr e p)"
  using assms
  by (cases e) (simp add: Let_def send_channel_sent count_routed_eq record_sent_eq iteration_def)

lemma route_fold:
  assumes "cassandra_ready cfg" "\<not> channel_closed p"
  shows "route cfg driver dat message key addr es p =
    Returned (fold (iteration cfg driver dat message key addr) es p)"
  using assms(2)
proof (induction es arbitrary: p)
  case Nil
  then show ?case by simp
next
  case (Cons e es)
  then show ?case by (simp add: route_Cons assms(1) del: route.simps)
qed

lemma fold_iteration_closed [simp]:
  "channel_closed (fold (iteration cfg driver dat message key addr) es p) = channel_closed p"
  by (induction es arbitrary: p) simp_all

lemma fold_iteration_ints [simp]:
  "ints (fold (iteration cfg driver dat message key addr) es p) = ints p"
  by (induction es arbitrary: p) simp_all

lemma fold_iteration_length_vars [simp]:
  "length (loop_vars (fold (iteration cfg driver dat message key addr) es p)) = length (loop_vars p)"
  by (induction es arbitrary: p) simp_all

text \<open>How often a topic occurs among the integrations.\<close>

lemma count_topics:
  assumes "enumerates ks m"
  shows "count_list (map (map_get m) ks) t = card {k \<in> dom m. m k = Some t}"
proof -
  have ks: "distinct ks" "set ks = dom m" using assms by (simp_all add: enumerates_def)
  have "count_list (map (map_get m) ks) t = card {k \<in> set ks. map_get m k = t}"
    using ks(1) by (simp add: count_list_eq_length_filter filter_map comp_def distinct_length_filter Int_def
        eq_commute [of t] conj_commute)
  also have "{k \<in> set ks. map_get m k = t} = {k \<in> dom m. m k = Some t}"
    using ks(2) by (auto simp: map_get_def)
  finally show ?thesis .
qed

text \<open>Every iteration is counted as sent, under the app and the topic.\<close>

lemma fold_iteration_produced:
  "prod_counters (fold (iteration cfg driver dat message key addr) es p) MessagesProduced [AppId dat, t] =
     prod_counters p MessagesProduced [AppId dat, t] + count_list (map snd es) t"
  by (induction es arbitrary: p) (simp_all add: iteration_def counted_def bump_apply)

text \<open>After the loop the variable holds the topic of the last iteration.\<close>

lemma fold_iteration_vars:
  "loop_vars (fold (iteration cfg driver dat message key addr) es p) =
     (if es = [] then loop_vars p else (loop_vars p)[addr := snd (last es)])"
  by (induction es arbitrary: p) (simp_all add: list_update_overwrite)

section \<open>No message is lost, none is made twice\<close>

text \<open>The key and value of every message on its way or gone, with multiplicity.\<close>

definition in_flight :: "('s, 'd, 'w) producer \<Rightarrow> (bytes \<times> bytes) multiset" where
  "in_flight p =
     mset (map snd (handed p)) + mset (map (\<lambda>m. (km_key m, km_value m)) (refused p))
     + mset (map (\<lambda>m. (km_key m, km_value m)) (channel p))"

lemma hand_on_turn_down:
  "mset (map snd (hand_on cfg p ms)) + mset (map (\<lambda>m. (km_key m, km_value m)) (turn_down cfg p ms)) =
     mset (map (\<lambda>m. (km_key m, km_value m)) ms)"
  by (induction ms) (auto simp: hand_on_def turn_down_def)

lemma mset_map_take_drop: "mset (map f (take n xs)) + mset (map f (drop n xs)) = mset (map f xs)"
  by (metis append_take_drop_id map_append mset_append)

lemma in_flight_take_many: "in_flight (take_many cfg n p) = in_flight p"
proof -
  have "in_flight (take_many cfg n p) =
      mset (map snd (handed p)) + mset (map (\<lambda>m. (km_key m, km_value m)) (refused p))
      + (mset (map snd (hand_on cfg p (take n (channel p))))
         + mset (map (\<lambda>m. (km_key m, km_value m)) (turn_down cfg p (take n (channel p)))))
      + mset (map (\<lambda>m. (km_key m, km_value m)) (drop n (channel p)))"
    by (simp add: in_flight_def take_many_simps)
  also have "\<dots> = in_flight p"
    unfolding hand_on_turn_down in_flight_def add.assoc mset_map_take_drop ..
  finally show ?thesis .
qed

lemma in_flight_sent: "in_flight (sent cfg m p) = in_flight p + {#(km_key m, km_value m)#}"
  by (simp add: sent_def Let_def in_flight_take_many) (simp add: in_flight_def)

lemma in_flight_iteration:
  "in_flight (iteration cfg driver dat message key addr e p) = in_flight p + {#(key, message)#}"
proof -
  have "in_flight (iteration cfg driver dat message key addr e p) =
      in_flight (sent cfg \<lparr>km_topic = Loop_Var addr, km_key = key, km_value = message\<rparr>
        (p\<lparr>loop_vars := (loop_vars p)[addr := snd e]\<rparr>))"
    by (simp add: iteration_def in_flight_def)
  also have "\<dots> = in_flight p + {#(key, message)#}"
    by (simp add: in_flight_sent) (simp add: in_flight_def)
  finally show ?thesis .
qed

lemma in_flight_route:
  "in_flight (fold (iteration cfg driver dat message key addr) es p) =
     in_flight p + replicate_mset (length es) (key, message)"
  by (induction es arbitrary: p) (simp_all add: in_flight_iteration)


section \<open>Which topic a message goes to\<close>

text \<open>
  The loop seen from outside: \<open>k\<close> messages of this call wait on the channel; each iteration adds
  one and the channel's goroutine takes some, all of which go to the topic of that iteration,
  because that is what the variable holds. The result is the topics in the order of the
  messages taken, and how many messages still wait.
\<close>

definition turns_of :: "nat \<Rightarrow> nat list \<Rightarrow> nat" where
  "turns_of k sched =
     (let n = (case sched of [] \<Rightarrow> 0 | n # _ \<Rightarrow> n)
      in if Suc k > channel_size then max 1 n else n)"

fun deliveries :: "nat \<Rightarrow> nat list \<Rightarrow> string list \<Rightarrow> string list \<times> nat" where
  "deliveries k sched [] = ([], k)"
| "deliveries k sched (t # ts) =
     (let j = min (turns_of k sched) (Suc k);
          (ds, left) = deliveries (Suc k - j) (tl sched) ts
      in (replicate j t @ ds, left))"

text \<open>Once the goroutine has caught up, the rest have gone to the last topic.\<close>

definition final_topics :: "nat list \<Rightarrow> string list \<Rightarrow> string list" where
  "final_topics sched ts = (let (ds, left) = deliveries 0 sched ts in ds @ replicate left (last ts))"

definition settle :: "producer_config \<Rightarrow> ('s, 'd, 'w) producer \<Rightarrow> ('s, 'd, 'w) producer" where
  "settle cfg p = take_many cfg (length (channel p)) p"

definition routed :: "bytes \<Rightarrow> bytes \<Rightarrow> string list \<Rightarrow> (string \<times> bytes \<times> bytes) list" where
  "routed key message ts = map (\<lambda>t. (t, key, message)) (filter (\<lambda>t. t \<noteq> []) ts)"

lemma routed_append [simp]:
  "routed key message (ts @ us) = routed key message ts @ routed key message us"
  by (simp add: routed_def)

lemma hand_on_replicate:
  assumes "addr < length (loop_vars p)"
  shows "hand_on cfg p (replicate n \<lparr>km_topic = Loop_Var addr, km_key = key, km_value = message\<rparr>) =
    routed key message (replicate n (loop_vars p ! addr))"
  by (induction n) (simp_all add: hand_on_def routed_def deref_def)

lemma turns_turns_of: "turns p = turns_of (length (channel p)) (schedule p)"
  by (simp add: turns_def turns_of_def)

lemma iteration_queues:
  assumes "addr < length (loop_vars p)"
    and "channel p = replicate k \<lparr>km_topic = Loop_Var addr, km_key = key, km_value = message\<rparr>"
  shows "channel (iteration cfg driver dat message key addr e p) =
      replicate (Suc k - min (turns_of k (schedule p)) (Suc k))
        \<lparr>km_topic = Loop_Var addr, km_key = key, km_value = message\<rparr>"
    and "handed (iteration cfg driver dat message key addr e p) =
      handed p @ routed key message (replicate (min (turns_of k (schedule p)) (Suc k)) (snd e))"
proof -
  let ?m = "\<lparr>km_topic = Loop_Var addr, km_key = key, km_value = message\<rparr>"
  let ?p = "p\<lparr>loop_vars := (loop_vars p)[addr := snd e]\<rparr>"
  have ch: "channel p @ [?m] = replicate (Suc k) ?m"
    using assms(2) by (simp add: replicate_append_same)
  have turns: "turns ?p = turns_of k (schedule p)"
    using assms(2) by (simp add: turns_turns_of)
  show "channel (iteration cfg driver dat message key addr e p) =
      replicate (Suc k - min (turns_of k (schedule p)) (Suc k)) ?m"
    using ch turns by (simp add: iteration_def sent_channel min_def del: replicate_Suc)
  have "handed (iteration cfg driver dat message key addr e p) =
      handed p @ hand_on cfg ?p (replicate (min (turns_of k (schedule p)) (Suc k)) ?m)"
    using ch turns by (simp add: iteration_def sent_channel del: replicate_Suc)
  also have "hand_on cfg ?p (replicate (min (turns_of k (schedule p)) (Suc k)) ?m) =
      routed key message (replicate (min (turns_of k (schedule p)) (Suc k)) (snd e))"
    using assms(1) by (subst hand_on_replicate) simp_all
  finally show "handed (iteration cfg driver dat message key addr e p) =
      handed p @ routed key message (replicate (min (turns_of k (schedule p)) (Suc k)) (snd e))" .
qed

lemma route_queues:
  assumes "addr < length (loop_vars p)"
    and "channel p = replicate k \<lparr>km_topic = Loop_Var addr, km_key = key, km_value = message\<rparr>"
    and "deliveries k (schedule p) (map snd es) = (ds, left)"
  shows "channel (fold (iteration cfg driver dat message key addr) es p) =
      replicate left \<lparr>km_topic = Loop_Var addr, km_key = key, km_value = message\<rparr>
    \<and> handed (fold (iteration cfg driver dat message key addr) es p) =
      handed p @ routed key message ds"
  using assms
proof (induction es arbitrary: p k ds)
  case Nil
  then show ?case by (simp add: routed_def)
next
  case (Cons e es)
  let ?j = "min (turns_of k (schedule p)) (Suc k)"
  let ?q = "iteration cfg driver dat message key addr e p"
  obtain ds' where rest: "deliveries (Suc k - ?j) (schedule ?q) (map snd es) = (ds', left)"
    and ds: "ds = replicate ?j (snd e) @ ds'"
    using Cons.prems(3) by (auto simp: Let_def split: prod.splits)
  have "channel (fold (iteration cfg driver dat message key addr) es ?q) =
      replicate left \<lparr>km_topic = Loop_Var addr, km_key = key, km_value = message\<rparr>
    \<and> handed (fold (iteration cfg driver dat message key addr) es ?q) =
      handed ?q @ routed key message ds'"
    by (rule Cons.IH [OF _ _ rest])
      (use Cons.prems iteration_queues(1) [OF Cons.prems(1,2)] in auto)
  then show ?case
    using ds iteration_queues(2) [OF Cons.prems(1,2)] by simp
qed

lemma settled_route:
  assumes "addr < length (loop_vars p)" "channel p = []" "es \<noteq> []"
  shows "handed (settle cfg (fold (iteration cfg driver dat message key addr) es p)) =
    handed p @ routed key message (final_topics (schedule p) (map snd es))"
proof -
  let ?q = "fold (iteration cfg driver dat message key addr) es p"
  obtain ds left where del: "deliveries 0 (schedule p) (map snd es) = (ds, left)"
    by fastforce
  from route_queues [of addr p 0, OF assms(1) _ del] assms(2)
  have ch: "channel ?q = replicate left \<lparr>km_topic = Loop_Var addr, km_key = key, km_value = message\<rparr>"
    and ha: "handed ?q = handed p @ routed key message ds" by auto
  have "hand_on cfg ?q (channel ?q) = routed key message (replicate left (loop_vars ?q ! addr))"
    unfolding ch using assms(1) by (intro hand_on_replicate) simp
  moreover have "loop_vars ?q ! addr = last (map snd es)"
    using assms by (simp add: fold_iteration_vars last_map)
  ultimately show ?thesis
    using ha del by (simp add: settle_def take_many_handed final_topics_def)
qed

section \<open>The topics under particular schedules\<close>

lemma deliveries_length:
  "deliveries k sched ts = (ds, left) \<Longrightarrow> length ds + left = k + length ts"
proof (induction k sched ts arbitrary: ds left rule: deliveries.induct)
  case (1 k sched)
  then show ?case by simp
next
  case (2 k sched t ts)
  let ?j = "min (turns_of k sched) (Suc k)"
  obtain ds' where rest: "deliveries (Suc k - ?j) (tl sched) ts = (ds', left)"
    and ds: "ds = replicate ?j t @ ds'"
    using "2.prems" by (auto simp: Let_def split: prod.splits)
  have "length ds' + left = Suc k - ?j + length ts"
    using "2.IH" rest by blast
  with ds show ?case by simp
qed

text \<open>A message never goes to the topic of an iteration before its own.\<close>

lemma deliveries_late:
  assumes "deliveries k sched ts = (ds, left)" "i < length ds"
  shows "\<exists>j < length ts. ds ! i = ts ! j \<and> i \<le> k + j"
  using assms
proof (induction k sched ts arbitrary: ds left i rule: deliveries.induct)
  case (1 k sched)
  then show ?case by simp
next
  case (2 k sched t ts)
  let ?j = "min (turns_of k sched) (Suc k)"
  obtain ds' where rest: "deliveries (Suc k - ?j) (tl sched) ts = (ds', left)"
    and ds: "ds = replicate ?j t @ ds'"
    using "2.prems"(1) by (auto simp: Let_def split: prod.splits)
  show ?case
  proof (cases "i < ?j")
    case True
    then show ?thesis using ds by (intro exI [of _ 0]) (simp add: nth_append)
  next
    case False
    have "length ds = ?j + length ds'" using ds by simp
    with False "2.prems"(2) have "i - ?j < length ds'" by linarith
    then obtain l where l: "l < length ts" "ds' ! (i - ?j) = ts ! l"
        "i - ?j \<le> Suc k - ?j + l"
      using "2.IH" rest by blast
    have "ds ! i = (t # ts) ! Suc l"
      using False l(2) unfolding ds by (simp only: nth_append length_replicate if_False nth_Cons_Suc)
    moreover have "i \<le> k + Suc l"
      using l(3) False by linarith
    ultimately show ?thesis using l(1) by (intro exI [of _ "Suc l"]) simp
  qed
qed

lemma final_topics_length: "length (final_topics sched ts) = length ts"
  using deliveries_length [of 0 sched ts] by (auto simp: final_topics_def split: prod.splits)

lemma final_topics_late:
  assumes "i < length ts"
  shows "\<exists>j. i \<le> j \<and> j < length ts \<and> final_topics sched ts ! i = ts ! j"
proof -
  obtain ds left where del: "deliveries 0 sched ts = (ds, left)" by fastforce
  have len: "length ds + left = length ts"
    using deliveries_length [OF del] by simp
  show ?thesis
  proof (cases "i < length ds")
    case True
    with deliveries_late [OF del True] del show ?thesis
      by (auto simp: final_topics_def nth_append)
  next
    case False
    with assms have "ts \<noteq> []" by auto
    have "final_topics sched ts ! i = last ts"
      using False assms len del by (simp add: final_topics_def nth_append)
    then show ?thesis
      using assms \<open>ts \<noteq> []\<close> by (intro exI [of _ "length ts - 1"]) (simp add: last_conv_nth)
  qed
qed

lemma set_final_topics: "set (final_topics sched ts) \<subseteq> set ts"
proof
  fix t
  assume "t \<in> set (final_topics sched ts)"
  then obtain i where "i < length ts" "final_topics sched ts ! i = t"
    by (auto simp: in_set_conv_nth final_topics_length)
  then show "t \<in> set ts" using final_topics_late [of i ts sched] by auto
qed

text \<open>The channel's goroutine keeps up: after every send it takes what is there.\<close>

definition keeps_up :: "nat \<Rightarrow> nat list \<Rightarrow> bool" where
  "keeps_up n sched \<longleftrightarrow> n \<le> length sched \<and> (\<forall>k \<in> set (take n sched). 1 \<le> k)"

lemma deliveries_keeps_up: "keeps_up (length ts) sched \<Longrightarrow> deliveries 0 sched ts = (ts, 0)"
proof (induction ts arbitrary: sched)
  case Nil
  then show ?case by simp
next
  case (Cons t ts)
  then obtain n rest where sched: "sched = n # rest" and n: "1 \<le> n"
    by (cases sched) (auto simp: keeps_up_def)
  from Cons.prems sched have "keeps_up (length ts) rest"
    by (simp add: keeps_up_def)
  then have "deliveries 0 rest ts = (ts, 0)" by (rule Cons.IH)
  moreover have "min (turns_of 0 sched) (Suc 0) = Suc 0"
    using n sched by (simp add: turns_of_def channel_size_def min_def)
  ultimately show ?case using sched by simp
qed

lemma final_topics_keeps_up: "keeps_up (length ts) sched \<Longrightarrow> final_topics sched ts = ts"
  by (simp add: final_topics_def deliveries_keeps_up)

text \<open>The channel's goroutine does not run before the loop is over.\<close>

lemma deliveries_idle:
  assumes "\<forall>n \<in> set sched. n = 0" "k + length ts \<le> channel_size"
  shows "deliveries k sched ts = ([], k + length ts)"
  using assms
proof (induction ts arbitrary: k sched)
  case Nil
  then show ?case by simp
next
  case (Cons t ts)
  have "turns_of k sched = 0"
    using Cons.prems by (auto simp: turns_of_def split: list.splits)
  moreover have "deliveries (Suc k) (tl sched) ts = ([], Suc k + length ts)"
    using Cons.prems by (intro Cons.IH) (auto dest: list.set_sel(2) [rotated], cases sched, auto)
  ultimately show ?case by simp
qed

lemma final_topics_idle:
  "\<forall>n \<in> set sched. n = 0 \<Longrightarrow> length ts \<le> channel_size \<Longrightarrow>
     final_topics sched ts = replicate (length ts) (last ts)"
  by (simp add: final_topics_def deliveries_idle)


section \<open>HandleMessage, branch by branch\<close>

text \<open>The state after the message has been counted and the integrations client has answered.\<close>

definition consumed ::
    "message \<Rightarrow> bytes \<Rightarrow> 's \<Rightarrow> ('s, 'd, 'w) producer \<Rightarrow> ('s, 'd, 'w) producer" where
  "consumed dat message i p =
     p\<lparr>prod_counters := bump MessagesConsumed [AppId dat] 1
         (bump BytesConsumed [AppId dat] (length message) (prod_counters p)), ints := i\<rparr>"

lemma consumed_simps [simp]:
  "loop_vars (consumed dat message i p) = loop_vars p"
  "channel (consumed dat message i p) = channel p"
  "channel_closed (consumed dat message i p) = channel_closed p"
  "handed (consumed dat message i p) = handed p"
  "refused (consumed dat message i p) = refused p"
  "schedule (consumed dat message i p) = schedule p"
  "ints (consumed dat message i p) = i"
  "deadletter (consumed dat message i p) = deadletter p"
  "cass_world (consumed dat message i p) = cass_world p"
  by (simp_all add: consumed_def)

lemma handle_undecodable:
  "decode message = Inl err \<Longrightarrow>
     HandleMessage cfg driver decode ints_get order p message key =
       Returned (p, Some (With_Message err ''Error unmarshaling json''))"
  by (simp add: HandleMessage_def)

lemma handle_houston_error:
  assumes "decode message = Inr dat" "\<not> channel_closed p"
    and "ints_get (ints p) (AppId dat) = Returned (i, Inl err)"
  shows "HandleMessage cfg driver decode ints_get order p message key =
    Returned (sent cfg \<lparr>km_topic = Retry_Topic, km_key = key, km_value = message\<rparr>
        (consumed dat message i p),
      Some (With_Message err (''Error getting integrations for appID '' @ AppId dat)))"
  using assms
  by (simp add: HandleMessage_def outcome_simps consumed_def send_channel_sent)

lemma handle_no_integrations:
  assumes "decode message = Inr dat"
    and "ints_get (ints p) (AppId dat) = Returned (i, Inr r)"
    and "r = None \<or> r = Some Map.empty"
  shows "HandleMessage cfg driver decode ints_get order p message key =
    Returned ((consumed dat message i p)\<lparr>prod_counters :=
        bump MessagesWithNoIntegration [AppId dat] 1 (prod_counters (consumed dat message i p))\<rparr>,
      None)"
  using assms by (auto simp: HandleMessage_def outcome_simps consumed_def)

lemma handle_routed:
  assumes "decode message = Inr dat" "\<not> channel_closed p" "cassandra_ready cfg"
    and "ints_get (ints p) (AppId dat) = Returned (i, Inr (Some m))" "dom m \<noteq> {}"
  shows "HandleMessage cfg driver decode ints_get order p message key =
    Returned (fold (iteration cfg driver dat message key (length (loop_vars p)))
        (entries (order (length (loop_vars p)) m) m)
        ((consumed dat message i p)\<lparr>loop_vars := loop_vars p @ ['''']\<rparr>), None)"
  using assms
  by (simp add: HandleMessage_def outcome_simps consumed_def route_fold Let_def)

text \<open>The loop reads nothing of the list of integrations in the message.\<close>

lemma message_switches:
  "AppId (dat\<lparr>msg_integrations := switches\<rparr>) = AppId dat"
  "MessageID (dat\<lparr>msg_integrations := switches\<rparr>) = MessageID dat"
  by simp_all

lemma record_sent_switches:
  "record_sent cfg driver (dat\<lparr>msg_integrations := switches\<rparr>) = record_sent cfg driver dat"
  unfolding record_sent_def message_switches ..

lemma route_switches:
  "route cfg driver (dat\<lparr>msg_integrations := switches\<rparr>) message key addr es q =
     route cfg driver dat message key addr es q"
proof (induction es arbitrary: q)
  case Nil
  then show ?case by simp
next
  case (Cons e es)
  show ?case
    by (cases e) (simp add: Let_def record_sent_switches ext [OF Cons.IH])
qed


section \<open>The contract of the handler\<close>

text \<open>
  What the consumer relies on (\<open>kafka.MessageHandler\<close>): a call returns, with or without an error,
  and leaves a state in which the next call returns.
\<close>

locale message_handler =
  fixes handle :: "'p \<Rightarrow> bytes \<Rightarrow> bytes \<Rightarrow> ('p \<times> go_error option) outcome"
    and handler_inv :: "'p \<Rightarrow> bool"
  assumes handle_total:
    "handler_inv p \<Longrightarrow> \<exists>p' err. handle p message key = Returned (p', err) \<and> handler_inv p'"

text \<open>
  The producer between two calls: its integrations client is well formed, the produce channel
  is open and every pointer on it leads to a variable that exists.
\<close>

definition ref_allocated :: "('s, 'd, 'w) producer \<Rightarrow> topic_ref \<Rightarrow> bool" where
  "ref_allocated p r = (case r of Retry_Topic \<Rightarrow> True | Loop_Var a \<Rightarrow> a < length (loop_vars p))"

definition producer_wf :: "('s \<Rightarrow> bool) \<Rightarrow> producer_config \<Rightarrow> ('s, 'd, 'w) producer \<Rightarrow> bool" where
  "producer_wf ints_inv cfg p \<longleftrightarrow>
     ints_inv (ints p) \<and> \<not> channel_closed p \<and> cassandra_ready cfg
     \<and> (\<forall>m \<in> set (channel p). ref_allocated p (km_topic m))"

lemma ref_allocated_simps [simp]:
  "ref_allocated p Retry_Topic"
  "ref_allocated p (Loop_Var a) = (a < length (loop_vars p))"
  "ref_allocated (sent cfg m p) r = ref_allocated p r"
  "ref_allocated (counted x i v p) r = ref_allocated p r"
  "ref_allocated (recorded cfg driver dat i p) r = ref_allocated p r"
  "ref_allocated (consumed dat v s p) r = ref_allocated p r"
  "ref_allocated (p\<lparr>prod_counters := ms\<rparr>) r = ref_allocated p r"
  "ref_allocated (p\<lparr>loop_vars := (loop_vars p)[a := t]\<rparr>) r = ref_allocated p r"
  by (simp_all add: ref_allocated_def split: topic_ref.split)

lemma producer_wf_sent:
  assumes "producer_wf ints_inv cfg p" "ref_allocated p (km_topic m)"
  shows "producer_wf ints_inv cfg (sent cfg m p)"
proof -
  have "set (channel (sent cfg m p)) \<subseteq> set (channel p @ [m])"
    unfolding sent_channel(1) by (rule set_drop_subset)
  then show ?thesis using assms by (auto simp: producer_wf_def)
qed

lemma producer_wf_iteration:
  assumes "producer_wf ints_inv cfg p" "addr < length (loop_vars p)"
  shows "producer_wf ints_inv cfg (iteration cfg driver dat message key addr e p)"
proof -
  let ?p = "p\<lparr>loop_vars := (loop_vars p)[addr := snd e]\<rparr>"
  let ?m = "\<lparr>km_topic = Loop_Var addr, km_key = key, km_value = message\<rparr>"
  have "producer_wf ints_inv cfg ?p"
    using assms(1) by (simp add: producer_wf_def)
  then have "producer_wf ints_inv cfg (sent cfg ?m ?p)"
    using assms(2) by (intro producer_wf_sent) simp_all
  then show ?thesis
    by (simp add: producer_wf_def iteration_def)
qed

lemma producer_wf_route:
  assumes "producer_wf ints_inv cfg p" "addr < length (loop_vars p)"
  shows "producer_wf ints_inv cfg (fold (iteration cfg driver dat message key addr) es p)"
  using assms
  by (induction es arbitrary: p) (simp_all add: producer_wf_iteration)

lemma producer_wf_consumed:
  "producer_wf ints_inv cfg p \<Longrightarrow> ints_inv i \<Longrightarrow> producer_wf ints_inv cfg (consumed dat message i p)"
  by (simp add: producer_wf_def)

lemma producer_wf_counters [simp]:
  "producer_wf ints_inv cfg (p\<lparr>prod_counters := ms\<rparr>) = producer_wf ints_inv cfg p"
  by (simp add: producer_wf_def)

lemma producer_wf_new_var:
  assumes "producer_wf ints_inv cfg p"
  shows "producer_wf ints_inv cfg (p\<lparr>loop_vars := loop_vars p @ [t]\<rparr>)"
proof -
  have "ref_allocated (p\<lparr>loop_vars := loop_vars p @ [t]\<rparr>) r" if "ref_allocated p r" for r
    using that by (auto simp: ref_allocated_def split: topic_ref.splits)
  with assms show ?thesis by (auto simp: producer_wf_def)
qed

text \<open>The producer is such a handler over every integrations client that keeps its contract.\<close>

context integrations_api
begin

lemma producer_handles:
  assumes "producer_wf ints_inv cfg p"
  shows "\<exists>p' err. HandleMessage cfg driver decode ints_get order p message key = Returned (p', err)
    \<and> producer_wf ints_inv cfg p'"
proof (cases "decode message")
  case (Inl err)
  with assms show ?thesis by (simp add: handle_undecodable)
next
  case (Inr dat)
  from assms have inv: "ints_inv (ints p)" "\<not> channel_closed p" "cassandra_ready cfg"
    by (simp_all add: producer_wf_def)
  from inv(1) show ?thesis
  proof (cases rule: ints_get_cases [of _ "AppId dat"])
    case (error s err)
    with assms Inr inv show ?thesis
      by (simp add: handle_houston_error producer_wf_sent producer_wf_consumed)
  next
    case (nil s)
    with assms Inr show ?thesis
      by (simp add: handle_no_integrations producer_wf_consumed)
  next
    case (found s m)
    show ?thesis
    proof (cases "dom m = {}")
      case True
      then have "m = Map.empty" by simp
      with assms Inr found show ?thesis
        by (simp add: handle_no_integrations producer_wf_consumed)
    next
      case False
      have "producer_wf ints_inv cfg ((consumed dat message s p)\<lparr>loop_vars := loop_vars p @ ['''']\<rparr>)"
        using producer_wf_new_var [OF producer_wf_consumed [OF assms found(2)], of dat message "''''"]
        by simp
      then show ?thesis
        using handle_routed [where decode = decode and ints_get = ints_get and p = p and message = message
            and driver = driver and order = order and key = key,
          OF Inr inv(2,3) found(1) False]
        by (simp add: producer_wf_route)
    qed
  qed
qed

end

sublocale integrations_api \<subseteq> router: message_handler
  "HandleMessage cfg driver decode ints_get order" "producer_wf ints_inv cfg"
  for cfg driver decode order
  by unfold_locales (rule producer_handles)

text \<open>A call that routes, after which the channel's goroutine takes what is left.\<close>

lemma handled_and_settled:
  assumes "decode message = Inr dat" "\<not> channel_closed p" "cassandra_ready cfg" "channel p = []"
    and "ints_get (ints p) (AppId dat) = Returned (i, Inr (Some m))" "m \<noteq> Map.empty"
    and "enumerates (order (length (loop_vars p)) m) m"
  shows "\<exists>p'. HandleMessage cfg driver decode ints_get order p message key = Returned (p', None)
    \<and> handed (settle cfg p') = handed p @ routed key message
        (final_topics (schedule p) (map (map_get m) (order (length (loop_vars p)) m)))"
proof -
  let ?addr = "length (loop_vars p)"
  let ?es = "entries (order ?addr m) m"
  let ?q = "(consumed dat message i p)\<lparr>loop_vars := loop_vars p @ ['''']\<rparr>"
  have "dom m \<noteq> {}" using assms(6) by simp
  then have "?es \<noteq> []" using assms(7) by (fastforce simp: enumerates_def entries_def)
  then have "handed (settle cfg (fold (iteration cfg driver dat message key ?addr) ?es ?q)) =
      handed p @ routed key message (final_topics (schedule p) (map snd ?es))"
    using assms(4) settled_route [of ?addr ?q ?es] by simp
  moreover have "map snd ?es = map (map_get m) (order ?addr m)"
    by (simp add: entries_def)
  ultimately show ?thesis
    using handle_routed [where decode = decode and message = message and ints_get = ints_get,
        OF assms(1-3) assms(5) \<open>dom m \<noteq> {}\<close>] by simp
qed


lemma handled_in_flight:
  assumes "decode message = Inr dat" "\<not> channel_closed p" "cassandra_ready cfg"
    and "ints_get (ints p) (AppId dat) = Returned (i, Inr (Some m))" "m \<noteq> Map.empty"
    and "enumerates (order (length (loop_vars p)) m) m"
  shows "\<exists>p'. HandleMessage cfg driver decode ints_get order p message key = Returned (p', None)
    \<and> in_flight p' = in_flight p + replicate_mset (card (dom m)) (key, message)"
proof -
  have "dom m \<noteq> {}" using assms(5) by simp
  moreover have "length (entries (order (length (loop_vars p)) m) m) = card (dom m)"
    using assms(6) by (simp add: entries_def enumerates_length)
  moreover have "in_flight ((consumed dat message i p)\<lparr>loop_vars := loop_vars p @ ['''']\<rparr>) = in_flight p"
    by (simp add: in_flight_def)
  ultimately show ?thesis
    using handle_routed [where decode = decode and message = message and ints_get = ints_get,
        OF assms(1-4)] by (simp add: in_flight_route)
qed

section \<open>A producer to evaluate on\<close>

definition sample_config :: producer_config where
  "sample_config =
     \<lparr>pc_BootstrapServers = ''kafka:9092'', pc_GroupID = '''', pc_MessageTimeout = 5000,
      pc_FlushTimeout = 1000, pc_Cassandra = None, pc_CassandraEnabled = False,
      pc_RetryTopic = ''retry'', pc_RetryS3Bucket = '''', pc_S3PathPrefix = '''',
      pc_MasterTopic = ''main''\<rparr>"

definition sample_driver :: "unit cql_driver" where
  "sample_driver =
     \<lparr>create_session = (\<lambda>w cl. (w, Inr 0)), exec = (\<lambda>w s q vs. (w, None)),
      close_session = (\<lambda>w s. w)\<rparr>"

definition sample_decode :: "bytes \<Rightarrow> message result" where
  "sample_decode m =
     (if m = [] then Inl (Error_String ''EOF'')
      else Inr \<lparr>AppId = [hd m], MessageID = tl m,
                msg_integrations = [''S3'' \<mapsto> False, ''GA'' \<mapsto> True]\<rparr>)"

definition sample_producer :: "'s \<Rightarrow> 'd option \<Rightarrow> nat list \<Rightarrow> ('s, 'd, unit) producer" where
  "sample_producer s d sched =
     \<lparr>ints = s, deadletter = d, cass_world = (), loop_vars = [], channel = [],
      channel_closed = False, handed = [], refused = [], schedule = sched,
      prod_counters = no_metrics\<rparr>"

definition sample_map :: strmap where
  "sample_map = [''S3'' \<mapsto> ''s3-topic'', ''GA'' \<mapsto> ''ga-topic'']"

definition sample_get :: "unit \<Rightarrow> string \<Rightarrow> (unit \<times> strmap option result) outcome" where
  "sample_get u a =
     Returned (u, if a = ''e'' then Inl (Error_String ''down'')
                  else if a = ''n'' then Inr None else Inr (Some sample_map))"

definition sample_order :: "nat \<Rightarrow> strmap \<Rightarrow> string list" where
  "sample_order n m = [''S3'', ''GA'']"

lemmas sample_defs = sample_config_def sample_decode_def sample_producer_def
  sample_map_def sample_get_def sample_order_def cassandra_ready_def enumerates_def

lemma sample_order_enumerates: "enumerates (sample_order n sample_map) sample_map"
  by (auto simp: sample_defs)


section \<open>Properties\<close>

text \<open>C3: A message of an app with integrations is sent once per integration, and when the
  goroutine of the channel has taken everything, the topics it went to are those of
  \<open>final_topics\<close> for the schedule the two goroutines ran by, under every schedule and every order
  of the map.\<close>

theorem HandleMessage_routes:
  assumes "decode message = Inr dat" "\<not> channel_closed p" "cassandra_ready cfg" "channel p = []"
    and "ints_get (ints p) (AppId dat) = Returned (i, Inr (Some m))" "m \<noteq> Map.empty"
    and "enumerates (order (length (loop_vars p)) m) m"
  shows "\<exists>p'. HandleMessage cfg driver decode ints_get order p message key = Returned (p', None)
    \<and> handed (settle cfg p') = handed p @ routed key message
        (final_topics (schedule p) (map (map_get m) (order (length (loop_vars p)) m)))"
  by (rule handled_and_settled [where decode = decode and ints_get = ints_get and order = order and m = m, OF assms])

theorem HandleMessage_routes_witness:
  "\<exists>p'. HandleMessage sample_config sample_driver sample_decode sample_get sample_order
      (sample_producer () (None :: unit option) [1, 0]) ''m1'' ''k'' = Returned (p', None)
    \<and> handed (settle sample_config p') = [(''s3-topic'', ''k'', ''m1''), (''ga-topic'', ''k'', ''m1'')]"
  using HandleMessage_routes [of sample_decode "''m1''" "projr (sample_decode ''m1'')"
      "sample_producer () (None :: unit option) [1, 0]" sample_config sample_get "()" sample_map
      sample_order sample_driver "''k''"]
    sample_order_enumerates
  by (simp add: sample_defs final_topics_def turns_of_def channel_size_def routed_def map_get_def)

text \<open>C4: Under no schedule is a message lost in the loop or made more often than there are
  integrations: what is on the way or gone grows by one copy per integration, all in one call.\<close>

theorem HandleMessage_conserves:
  assumes "decode message = Inr dat" "\<not> channel_closed p" "cassandra_ready cfg"
    and "ints_get (ints p) (AppId dat) = Returned (i, Inr (Some m))" "m \<noteq> Map.empty"
    and "enumerates (order (length (loop_vars p)) m) m"
  shows "\<exists>p'. HandleMessage cfg driver decode ints_get order p message key = Returned (p', None)
    \<and> in_flight p' = in_flight p + replicate_mset (card (dom m)) (key, message)"
  by (rule handled_in_flight [where decode = decode and ints_get = ints_get and order = order and m = m,
      OF assms])

theorem HandleMessage_conserves_witness:
  "\<exists>p'. HandleMessage sample_config sample_driver sample_decode sample_get sample_order
      (sample_producer () (None :: unit option) []) ''m1'' ''k'' = Returned (p', None)
    \<and> in_flight p' = {#(''k'', ''m1''), (''k'', ''m1'')#}"
  using HandleMessage_conserves [of sample_decode "''m1''" "projr (sample_decode ''m1'')"
      "sample_producer () (None :: unit option) []" sample_config sample_get "()" sample_map
      sample_order sample_driver "''k''"]
    sample_order_enumerates
  by (simp add: sample_defs in_flight_def numeral_2_eq_2)

text \<open>When the channel's goroutine takes every message before the loop goes on, each integration
  of the map gets the message on its own topic.\<close>

theorem HandleMessage_keeps_up:
  assumes "decode message = Inr dat" "\<not> channel_closed p" "cassandra_ready cfg" "channel p = []"
    and "ints_get (ints p) (AppId dat) = Returned (i, Inr (Some m))" "m \<noteq> Map.empty"
    and "enumerates (order (length (loop_vars p)) m) m"
    and "keeps_up (card (dom m)) (schedule p)"
  shows "\<exists>p'. HandleMessage cfg driver decode ints_get order p message key = Returned (p', None)
    \<and> handed (settle cfg p') =
        handed p @ routed key message (map (map_get m) (order (length (loop_vars p)) m))"
proof -
  let ?ts = "map (map_get m) (order (length (loop_vars p)) m)"
  have "final_topics (schedule p) ?ts = ?ts"
    using assms(7,8) by (intro final_topics_keeps_up) (simp add: enumerates_length)
  with handled_and_settled [where decode = decode and ints_get = ints_get and order = order and m = m,
      OF assms(1-7)]
  show ?thesis by simp
qed

theorem HandleMessage_keeps_up_witness:
  "\<exists>p'. HandleMessage sample_config sample_driver sample_decode sample_get sample_order
      (sample_producer () (None :: unit option) [1, 1]) ''m1'' ''k'' = Returned (p', None)
    \<and> handed (settle sample_config p') = [(''s3-topic'', ''k'', ''m1''), (''ga-topic'', ''k'', ''m1'')]"
  using HandleMessage_keeps_up [of sample_decode "''m1''" "projr (sample_decode ''m1'')"
      "sample_producer () (None :: unit option) [1, 1]" sample_config sample_get "()" sample_map
      sample_order sample_driver "''k''"]
    sample_order_enumerates
  by (simp add: sample_defs keeps_up_def routed_def map_get_def)

text \<open>C13: When it does not run before the loop is over, every message goes to the topic of the last
  integration, once per integration, and the other integrations get nothing.\<close>

theorem HandleMessage_last_topic:
  assumes "decode message = Inr dat" "\<not> channel_closed p" "cassandra_ready cfg" "channel p = []"
    and "ints_get (ints p) (AppId dat) = Returned (i, Inr (Some m))" "m \<noteq> Map.empty"
    and "enumerates (order (length (loop_vars p)) m) m"
    and "\<forall>n \<in> set (schedule p). n = 0" "card (dom m) \<le> channel_size"
  shows "\<exists>p'. HandleMessage cfg driver decode ints_get order p message key = Returned (p', None)
    \<and> handed (settle cfg p') = handed p @ routed key message
        (replicate (card (dom m)) (map_get m (last (order (length (loop_vars p)) m))))"
proof -
  let ?ks = "order (length (loop_vars p)) m"
  have "dom m \<noteq> {}" using assms(6) by simp
  then have "?ks \<noteq> []" using assms(7) by (fastforce simp: enumerates_def)
  then have "final_topics (schedule p) (map (map_get m) ?ks) =
      replicate (card (dom m)) (map_get m (last ?ks))"
    using assms(7-9) final_topics_idle [of "schedule p" "map (map_get m) ?ks"]
    by (simp add: enumerates_length last_map)
  with handled_and_settled [where decode = decode and ints_get = ints_get and order = order and m = m,
      OF assms(1-7)]
  show ?thesis by simp
qed

theorem HandleMessage_last_topic_witness:
  "\<exists>p'. HandleMessage sample_config sample_driver sample_decode sample_get sample_order
      (sample_producer () (None :: unit option) []) ''m1'' ''k'' = Returned (p', None)
    \<and> handed (settle sample_config p') = [(''ga-topic'', ''k'', ''m1''), (''ga-topic'', ''k'', ''m1'')]"
  using HandleMessage_last_topic [of sample_decode "''m1''" "projr (sample_decode ''m1'')"
      "sample_producer () (None :: unit option) []" sample_config sample_get "()" sample_map
      sample_order sample_driver "''k''"]
    sample_order_enumerates
  by (simp add: sample_defs channel_size_def routed_def map_get_def numeral_2_eq_2 sample_order_def)

text \<open>No schedule sends a message to the topic of an integration the loop had already left:
  the message of the \<open>i\<close>-th iteration goes to the topic of the \<open>i\<close>-th or of a later one.\<close>

theorem HandleMessage_never_earlier:
  assumes "decode message = Inr dat" "\<not> channel_closed p" "cassandra_ready cfg" "channel p = []"
    and "ints_get (ints p) (AppId dat) = Returned (i, Inr (Some m))" "m \<noteq> Map.empty"
    and "enumerates (order (length (loop_vars p)) m) m" "\<forall>n t. m n = Some t \<longrightarrow> t \<noteq> ''''"
  shows "\<exists>p' ts. HandleMessage cfg driver decode ints_get order p message key = Returned (p', None)
    \<and> handed (settle cfg p') = handed p @ map (\<lambda>t. (t, key, message)) ts
    \<and> length ts = card (dom m)
    \<and> (\<forall>k < length ts. \<exists>l. k \<le> l \<and> l < length ts
         \<and> ts ! k = map_get m (order (length (loop_vars p)) m ! l))"
proof -
  let ?us = "map (map_get m) (order (length (loop_vars p)) m)"
  let ?ts = "final_topics (schedule p) ?us"
  have len: "length ?ts = length ?us" by (rule final_topics_length)
  have "t \<noteq> ''''" if "t \<in> set ?ts" for t
  proof -
    from that obtain k where "k \<in> dom m" "t = map_get m k"
      using set_final_topics [of "schedule p" ?us] assms(7) by (fastforce simp: enumerates_def)
    with assms(8) show ?thesis by (auto simp: map_get_def)
  qed
  then have "routed key message ?ts = map (\<lambda>t. (t, key, message)) ?ts"
    by (simp add: routed_def cong: filter_cong)
  moreover have "\<exists>l. k \<le> l \<and> l < length ?ts
      \<and> ?ts ! k = map_get m (order (length (loop_vars p)) m ! l)" if "k < length ?ts" for k
    using final_topics_late [of k ?us "schedule p"] that len by auto
  moreover have "length ?ts = card (dom m)"
    using assms(7) len by (simp add: enumerates_length)
  ultimately show ?thesis
    using handled_and_settled [where decode = decode and ints_get = ints_get and order = order
        and m = m, OF assms(1-7)] by metis
qed

theorem HandleMessage_never_earlier_witness:
  "\<exists>p' ts. HandleMessage sample_config sample_driver sample_decode sample_get sample_order
      (sample_producer () (None :: unit option) [0, 2]) ''m1'' ''k'' = Returned (p', None)
    \<and> handed (settle sample_config p') = map (\<lambda>t. (t, ''k'', ''m1'')) ts \<and> length ts = 2
    \<and> (\<exists>l \<ge> 1. l < 2 \<and> ts ! 1 = map_get sample_map (sample_order 0 sample_map ! l))"
proof -
  have dec: "sample_decode ''m1'' = Inr (projr (sample_decode ''m1''))"
    and get: "sample_get () (AppId (projr (sample_decode ''m1''))) = Returned ((), Inr (Some sample_map))"
    and map: "sample_map \<noteq> Map.empty" "\<forall>n t. sample_map n = Some t \<longrightarrow> t \<noteq> ''''"
    by (auto simp: sample_defs)
  have card: "card (dom sample_map) = 2" by (simp add: sample_map_def)
  have pre: "\<not> channel_closed (sample_producer () (None :: unit option) [0, 2])"
    "cassandra_ready sample_config" "channel (sample_producer () (None :: unit option) [0, 2]) = []"
    by (simp_all add: sample_defs)
  obtain p' ts where call: "HandleMessage sample_config sample_driver sample_decode sample_get
      sample_order (sample_producer () (None :: unit option) [0, 2]) ''m1'' ''k'' = Returned (p', None)"
    and "handed (settle sample_config p') = map (\<lambda>t. (t, ''k'', ''m1'')) ts" "length ts = 2"
    and "\<forall>k < length ts. \<exists>l. k \<le> l \<and> l < length ts
      \<and> ts ! k = map_get sample_map (sample_order 0 sample_map ! l)"
    using HandleMessage_never_earlier [of sample_decode "''m1''" "projr (sample_decode ''m1'')"
        "sample_producer () (None :: unit option) [0, 2]" sample_config sample_get "()" sample_map
        sample_order sample_driver "''k''", OF dec pre _ map(1) _ map(2)] get
      sample_order_enumerates card
    by (auto simp: sample_producer_def)
  then show ?thesis by (intro exI [of _ p'] exI [of _ ts]) auto
qed

text \<open>C15: The list of integrations in a message has no effect: two messages that differ only in
  it are handled alike, also when it switches an integration off.\<close>

theorem HandleMessage_ignores_switches:
  "HandleMessage cfg driver (\<lambda>v. case decode v of Inl e \<Rightarrow> Inl e
      | Inr dat \<Rightarrow> Inr (dat\<lparr>msg_integrations := switches\<rparr>)) ints_get order p message key =
   HandleMessage cfg driver decode ints_get order p message key"
proof (cases "decode message")
  case (Inl e)
  then show ?thesis by (simp add: HandleMessage_def)
next
  case (Inr dat)
  show ?thesis
    unfolding HandleMessage_def Inr sum.case message_switches route_switches ..
qed

text \<open>C16: When the integrations of an app cannot be had, the message goes to the retry topic, one
  copy of it, and the call reports the error.\<close>

theorem HandleMessage_retries:
  assumes "decode message = Inr dat" "\<not> channel_closed p" "channel p = []"
    and "ints_get (ints p) (AppId dat) = Returned (i, Inl err)"
  shows "\<exists>p'. HandleMessage cfg driver decode ints_get order p message key =
      Returned (p', Some (With_Message err (''Error getting integrations for appID '' @ AppId dat)))
    \<and> handed (settle cfg p') = handed p @ routed key message [pc_RetryTopic cfg]
    \<and> in_flight p' = in_flight p + {#(key, message)#}"
proof -
  let ?m = "\<lparr>km_topic = Retry_Topic, km_key = key, km_value = message\<rparr>"
  let ?p = "consumed dat message i p"
  have one: "hand_on cfg q [?m] = routed key message [pc_RetryTopic cfg]"
    for q :: "('s, 'd, 'w) producer"
    by (simp add: hand_on_def routed_def deref_def)
  have "handed (settle cfg (sent cfg ?m ?p)) = handed p @ routed key message [pc_RetryTopic cfg]"
    using assms(3) one
    by (cases "turns ?p") (simp_all add: settle_def take_many_handed sent_channel hand_on_def
        deref_def routed_def)
  moreover have "in_flight (sent cfg ?m ?p) = in_flight p + {#(key, message)#}"
    by (simp add: in_flight_sent) (simp add: in_flight_def)
  ultimately show ?thesis
    using handle_houston_error [where decode = decode and ints_get = ints_get and p = p,
        OF assms(1,2,4)] by simp
qed

theorem HandleMessage_retries_witness:
  "\<exists>p'. HandleMessage sample_config sample_driver sample_decode sample_get sample_order
      (sample_producer () (None :: unit option) []) ''e1'' ''k'' =
      Returned (p', Some (With_Message (Error_String ''down'') ''Error getting integrations for appID e''))
    \<and> handed (settle sample_config p') = [(''retry'', ''k'', ''e1'')]"
  using HandleMessage_retries [of sample_decode "''e1''" "projr (sample_decode ''e1'')"
      "sample_producer () (None :: unit option) []" sample_get "()" "Error_String ''down''"
      sample_config sample_driver sample_order "''k''"]
  by (auto simp: sample_defs routed_def)

end
