(* ===== verification/Producer_Events.thy ===== *)
theory Producer_Events
  imports Producer_Routing
begin

text \<open>
  The event handler of the producer (\<open>handleEvents\<close> and \<open>Close\<close> of
  \<open>kafka/clickstream/clickstream_producer.go\<close>): a goroutine that reads the delivery reports of
  the Kafka client, puts what could not be delivered in the dead letter queue, and closes the
  producer when the program shuts down.

  An input is what the \<open>select\<close> takes next. A delivery report carries the pointer to the topic, as
  an address and the string there, or nil. \<open>Null_Event\<close> is what a receive on the closed channel
  of events gives.
\<close>

datatype producer_input =
    Shutdown_Closed
  | Delivery_Report "go_error option" "(nat \<times> string) option" bytes
  | Error_Event string
  | Stats_Event string
  | Other_Event string
  | Null_Event

datatype loop_status = Looping | Loop_Ended | Loop_Returned


section \<open>The key of a failed message\<close>

text \<open>
  What the verb \<open>%s\<close> of \<open>fmt\<close> makes of a pointer to a string: the text for a wrong verb, with the
  type and the address.
\<close>

definition sprint_string_pointer :: "(nat \<times> string) option \<Rightarrow> string" where
  "sprint_string_pointer p =
     ''%!s(*string='' @ (case p of None \<Rightarrow> ''<nil>'' | Some (addr, s) \<Rightarrow> ''0x'' @ format_hex addr) @ '')''"

definition deadletter_key :: "string \<Rightarrow> (nat \<times> string) option \<Rightarrow> string" where
  "deadletter_key appId topic = appId @ ''/'' @ sprint_string_pointer topic"

text \<open>
  The call of \<open>AddToQueue\<close> on the configured client. On a nil client the tests of the queue object,
  which read nothing of the client, still return.
\<close>

definition add_failed ::
    "('d \<Rightarrow> QueueObject \<Rightarrow> ('d \<times> go_error option) outcome) \<Rightarrow> QueueObject \<Rightarrow>
     ('s, 'd, 'w) producer \<Rightarrow> ('s, 'd, 'w) producer outcome" where
  "add_failed dl_add qo p =
     (case deadletter p of
        None \<Rightarrow> if accepted qo then Panicked ''nil pointer dereference'' else Returned p
      | Some d \<Rightarrow> and_then (dl_add d qo) (\<lambda>(d, err). Returned (p\<lparr>deadletter := Some d\<rparr>)))"


section \<open>Close\<close>

text \<open>
  \<open>Flush\<close> waits until the queues are empty or the timeout is over; \<open>flushed\<close> is how many messages
  the goroutine of the channel takes in that time. The \<open>Close\<close> of the Kafka client then closes
  the produce channel and waits until that goroutine has taken the rest. Closing it again panics.
\<close>

definition producer_Close ::
    "producer_config \<Rightarrow> 'w cql_driver \<Rightarrow> nat \<Rightarrow> ('s, 'd, 'w) producer \<Rightarrow>
     ('s, 'd, 'w) producer outcome" where
  "producer_Close cfg driver flushed p =
     (let p = take_many cfg flushed p
      in if channel_closed p then Panicked ''close of closed channel''
         else
           (let p = p\<lparr>channel_closed := True\<rparr>;
                p = take_many cfg (length (channel p)) p
            in if pc_CassandraEnabled cfg
               then (case pc_Cassandra cfg of
                       None \<Rightarrow> Panicked ''nil pointer dereference''
                     | Some c \<Rightarrow> Returned (p\<lparr>cass_world := cassandra_Close driver (cass_world p) c\<rparr>))
               else Returned p))"


section \<open>handleEvents\<close>

text \<open>
  One turn of the loop. \<open>retry\<close> is the setting \<open>config.Retry\<close>. Statistics go to another
  goroutine; an error of the Kafka client is of the type \<open>Error\<close>, not \<open>*Error\<close>, so it takes the
  default branch, which only logs, as the other case would.
\<close>

definition handle_event ::
    "producer_config \<Rightarrow> 'w cql_driver \<Rightarrow> (bytes \<Rightarrow> message result) \<Rightarrow> bool \<Rightarrow>
     ('d \<Rightarrow> QueueObject \<Rightarrow> ('d \<times> go_error option) outcome) \<Rightarrow> nat \<Rightarrow> producer_input \<Rightarrow>
     ('s, 'd, 'w) producer \<Rightarrow> (('s, 'd, 'w) producer \<times> loop_status) outcome" where
  "handle_event cfg driver decode retry dl_add flushed ev p =
     (case ev of
        Shutdown_Closed \<Rightarrow>
          and_then (producer_Close cfg driver flushed p) (\<lambda>p. Returned (p, Loop_Ended))
      | Delivery_Report err topic value \<Rightarrow>
          if err \<noteq> None
          then
            (case decode value of
               Inl e \<Rightarrow> Returned (p, Loop_Returned)
             | Inr dat \<Rightarrow>
                 (case topic of
                    None \<Rightarrow> Panicked ''nil pointer dereference''
                  | Some (addr, t) \<Rightarrow>
                      and_then (prom_inc MessagesProducedFailed
                        [(''integration'', t), (''appId'', AppId dat)] (prod_counters p)) (\<lambda>ms.
                      let p = p\<lparr>prod_counters := ms\<rparr>
                      in if retry
                         then and_then (add_failed dl_add
                                \<lparr>qo_Data = value, qo_Key = deadletter_key (AppId dat) topic\<rparr> p)
                                (\<lambda>p. Returned (p, Looping))
                         else Returned (p, Looping))))
          else Returned (p, Looping)
      | Error_Event e \<Rightarrow> Returned (p, Looping)
      | Stats_Event e \<Rightarrow> Returned (p, Looping)
      | Other_Event e \<Rightarrow> Returned (p, Looping)
      | Null_Event \<Rightarrow> Panicked ''nil pointer dereference'')"

text \<open>
  The loop over a sequence of inputs; the inputs after the end of the loop are never read, and an
  exhausted sequence leaves the loop waiting.
\<close>

fun handleEvents ::
    "producer_config \<Rightarrow> 'w cql_driver \<Rightarrow> (bytes \<Rightarrow> message result) \<Rightarrow> bool \<Rightarrow>
     ('d \<Rightarrow> QueueObject \<Rightarrow> ('d \<times> go_error option) outcome) \<Rightarrow> nat \<Rightarrow> producer_input list \<Rightarrow>
     ('s, 'd, 'w) producer \<Rightarrow> (('s, 'd, 'w) producer \<times> loop_status) outcome" where
  "handleEvents cfg driver decode retry dl_add flushed [] p = Returned (p, Looping)"
| "handleEvents cfg driver decode retry dl_add flushed (ev # evs) p =
     and_then (handle_event cfg driver decode retry dl_add flushed ev p) (\<lambda>(p, status).
       if status = Looping then handleEvents cfg driver decode retry dl_add flushed evs p
       else Returned (p, status))"


section \<open>What the handler does\<close>

lemma handle_event_simps [simp]:
  "handle_event cfg driver decode retry dl_add flushed (Delivery_Report None topic value) p =
     Returned (p, Looping)"
  "handle_event cfg driver decode retry dl_add flushed (Error_Event e) p = Returned (p, Looping)"
  "handle_event cfg driver decode retry dl_add flushed (Stats_Event e) p = Returned (p, Looping)"
  "handle_event cfg driver decode retry dl_add flushed (Other_Event e) p = Returned (p, Looping)"
  by (simp_all add: handle_event_def)

lemma handle_event_undecodable:
  "decode value = Inl e \<Longrightarrow>
     handle_event cfg driver decode retry dl_add flushed (Delivery_Report (Some err) topic value) p =
       Returned (p, Loop_Returned)"
  by (simp add: handle_event_def)

definition failure_counted :: "string \<Rightarrow> string \<Rightarrow> ('s, 'd, 'w) producer \<Rightarrow> ('s, 'd, 'w) producer" where
  "failure_counted appId t p =
     p\<lparr>prod_counters := bump MessagesProducedFailed [t, appId] 1 (prod_counters p)\<rparr>"

lemma handle_event_failed:
  assumes "decode value = Inr dat"
  shows "handle_event cfg driver decode retry dl_add flushed
      (Delivery_Report (Some err) (Some (addr, t)) value) p =
    (if retry
     then and_then (add_failed dl_add
            \<lparr>qo_Data = value, qo_Key = deadletter_key (AppId dat) (Some (addr, t))\<rparr>
            (failure_counted (AppId dat) t p)) (\<lambda>p. Returned (p, Looping))
     else Returned (failure_counted (AppId dat) t p, Looping))"
  using assms by (simp add: handle_event_def failure_counted_def outcome_simps)

lemma failure_counted_simps [simp]:
  "loop_vars (failure_counted a t p) = loop_vars p"
  "channel (failure_counted a t p) = channel p"
  "channel_closed (failure_counted a t p) = channel_closed p"
  "handed (failure_counted a t p) = handed p"
  "refused (failure_counted a t p) = refused p"
  "ints (failure_counted a t p) = ints p"
  "deadletter (failure_counted a t p) = deadletter p"
  by (simp_all add: failure_counted_def)

lemma producer_Close_open:
  assumes "\<not> channel_closed p" "cassandra_ready cfg"
  obtains p' where "producer_Close cfg driver flushed p = Returned p'" "channel_closed p'"
    "channel p' = []" "in_flight p' = in_flight p" "deadletter p' = deadletter p" "ints p' = ints p"
proof -
  let ?q = "(take_many cfg flushed p)\<lparr>channel_closed := True\<rparr>"
  let ?r = "take_many cfg (length (channel ?q)) ?q"
  have "in_flight ?q = in_flight (take_many cfg flushed p)"
    by (simp add: in_flight_def)
  then have flight: "in_flight ?r = in_flight p"
    by (simp only: in_flight_take_many)
  have empty: "channel ?r = []" by (simp add: take_many_channel)
  show thesis
  proof (cases "pc_CassandraEnabled cfg")
    case True
    with assms(2) obtain c where "pc_Cassandra cfg = Some c"
      by (auto simp: cassandra_ready_def)
    with True assms(1) flight empty show thesis
      by (intro that [of "?r\<lparr>cass_world := cassandra_Close driver (cass_world ?r) c\<rparr>"])
        (simp_all add: producer_Close_def in_flight_def Let_def)
  next
    case False
    with assms(1) flight empty show thesis
      by (intro that [of ?r]) (simp_all add: producer_Close_def Let_def)
  qed
qed

lemma producer_Close_closed:
  "channel_closed p \<Longrightarrow> producer_Close cfg driver flushed p = Panicked ''close of closed channel''"
  by (simp add: producer_Close_def)

lemma handleEvents_append:
  "handleEvents cfg driver decode retry dl_add flushed (evs @ evs') p =
     and_then (handleEvents cfg driver decode retry dl_add flushed evs p) (\<lambda>(p, status).
       if status = Looping then handleEvents cfg driver decode retry dl_add flushed evs' p
       else Returned (p, status))"
  by (induction evs arbitrary: p)
    (auto simp: outcome_simps split: prod.splits intro!: arg_cong2 [where f = and_then] ext)


section \<open>The keys of failed messages\<close>

lemma format_hex_digit_inj:
  assumes "''0123456789abcdef'' ! m = ''0123456789abcdef'' ! n" "m < 16" "n < 16"
  shows "m = n"
proof -
  have "distinct ''0123456789abcdef''" by simp
  then show ?thesis using assms by (simp add: nth_eq_iff_index_eq)
qed

lemma format_hex_Nil [simp]: "format_hex n \<noteq> []"
  by (subst format_hex.simps) simp

lemma format_hex_inj: "format_hex m = format_hex n \<Longrightarrow> m = n"
proof (induction m arbitrary: n rule: format_hex.induct)
  case (1 m)
  let ?d = "\<lambda>n. ''0123456789abcdef'' ! (n mod 16)"
  have form: "format_hex n = (if n < 16 then [] else format_hex (n div 16)) @ [?d n]" for n
    by (subst format_hex.simps) simp
  have last: "last (format_hex n) = ?d n" for n by (subst form) simp
  have butlast: "butlast (format_hex n) = (if n < 16 then [] else format_hex (n div 16))" for n
    by (subst form) (simp only: butlast_snoc)
  have "?d m = ?d n" using 1(2) last [of m] last [of n] by simp
  then have digit: "m mod 16 = n mod 16"
    by (rule format_hex_digit_inj) simp_all
  have rest: "(if m < 16 then [] else format_hex (m div 16)) =
      (if n < 16 then [] else format_hex (n div 16))"
    unfolding butlast [symmetric] 1(2) ..
  have "m div 16 = n div 16"
    using rest 1(1) [of "n div 16"] format_hex_Nil [symmetric] by (auto split: if_splits)
  with digit show ?case by (metis div_mult_mod_eq)
qed

lemma format_hex_digits: "set (format_hex n) \<subseteq> set ''0123456789abcdef''"
proof (induction n rule: format_hex.induct)
  case (1 n)
  have digit: "''0123456789abcdef'' ! d \<in> set ''0123456789abcdef''" if "d < 16" for d
    using that by (intro nth_mem) simp
  show ?case
    using 1 digit [of "n mod 16"] digit [of n] by (subst format_hex.simps) (simp split: if_split)
qed

text \<open>The digits of the address are what follows the last \<open>x\<close> of the key.\<close>

lemma deadletter_key_address:
  "takeWhile (\<lambda>c. c \<noteq> CHR ''x'') (rev (deadletter_key a (Some (addr, t)))) =
     CHR '')'' # rev (format_hex addr)"
proof -
  have "CHR ''x'' \<notin> set (format_hex addr)"
    using format_hex_digits [of addr] by auto
  then have "takeWhile (\<lambda>c. c \<noteq> CHR ''x'') (rev (format_hex addr) @ CHR ''x'' # zs) =
      rev (format_hex addr)" for zs
    by (subst takeWhile_append2) auto
  then show ?thesis by (simp add: deadletter_key_def sprint_string_pointer_def)
qed

lemma deadletter_key_inj:
  assumes "deadletter_key a (Some (addr, t)) = deadletter_key a' (Some (addr', t'))"
  shows "a = a' \<and> addr = addr'"
proof -
  have "CHR '')'' # rev (format_hex addr) = CHR '')'' # rev (format_hex addr')"
    unfolding deadletter_key_address [symmetric, of _ a t]
      deadletter_key_address [symmetric, of _ a' t'] assms
    by (simp add: deadletter_key_address)
  then have "addr = addr'" by (auto intro: format_hex_inj)
  with assms show ?thesis by (simp add: deadletter_key_def sprint_string_pointer_def)
qed

lemma format_int_no_paren: "CHR '')'' \<notin> set (format_int i)" "format_int i \<noteq> []"
  using format_nat_digits [of "nat i"] format_nat_digits [of "nat (- i)"]
  by (auto simp: format_int_def)

lemma deadletter_key_not_timestamped: "\<not> timestamped (deadletter_key a topic)"
proof
  assume "timestamped (deadletter_key a topic)"
  then obtain key i where eq: "deadletter_key a topic = key @ ''/'' @ format_int i"
    by (auto simp: timestamped_def)
  have "last (deadletter_key a topic) = CHR '')''"
    by (simp add: deadletter_key_def sprint_string_pointer_def)
  moreover have "last (deadletter_key a topic) = last (format_int i)"
    using format_int_no_paren(2) by (simp add: eq)
  ultimately have "CHR '')'' \<in> set (format_int i)"
    using format_int_no_paren(2) last_in_set by metis
  then show False using format_int_no_paren(1) by blast
qed

section \<open>Failed deliveries and the dead letter queue\<close>

text \<open>The report of a failed delivery, and what the handler gives to the queue for it.\<close>

record failed_delivery =
  fd_error :: go_error
  fd_addr :: nat
  fd_topic :: string
  fd_value :: bytes

definition report :: "failed_delivery \<Rightarrow> producer_input" where
  "report f = Delivery_Report (Some (fd_error f)) (Some (fd_addr f, fd_topic f)) (fd_value f)"

definition queue_object :: "(bytes \<Rightarrow> message result) \<Rightarrow> failed_delivery \<Rightarrow> QueueObject" where
  "queue_object decode f =
     \<lparr>qo_Data = fd_value f,
      qo_Key = deadletter_key (case decode (fd_value f) of Inl e \<Rightarrow> [] | Inr dat \<Rightarrow> AppId dat)
                 (Some (fd_addr f, fd_topic f))\<rparr>"

definition decodable :: "(bytes \<Rightarrow> message result) \<Rightarrow> bytes \<Rightarrow> bool" where
  "decodable decode v \<longleftrightarrow> (\<exists>dat. decode v = Inr dat)"

context dead_letter_queue
begin

lemma handle_event_adds:
  assumes "deadletter p = Some d" "decodable decode (fd_value f)"
  obtains p' d' err where
    "handle_event cfg driver decode True dl_add flushed (report f) p = Returned (p', Looping)"
    "dl_add d (queue_object decode f) = Returned (d', err)" "deadletter p' = Some d'"
    "channel_closed p' = channel_closed p" "channel p' = channel p"
proof -
  from assms(2) obtain dat where dat: "decode (fd_value f) = Inr dat"
    by (auto simp: decodable_def)
  obtain d' err where add: "dl_add d (queue_object decode f) = Returned (d', err)"
    using dl_add_total by blast
  let ?p = "(failure_counted (AppId dat) (fd_topic f) p)\<lparr>deadletter := Some d'\<rparr>"
  have "handle_event cfg driver decode True dl_add flushed (report f) p = Returned (?p, Looping)"
    using add assms(1) dat
    by (simp add: report_def handle_event_failed add_failed_def queue_object_def)
  with add that [of ?p d' err] show thesis by simp
qed

text \<open>The handler feeds the queue with the failed deliveries, in their order.\<close>

lemma handleEvents_adds:
  assumes "deadletter p = Some d" "\<forall>f \<in> set fs. decodable decode (fd_value f)"
  shows "\<exists>p' d'. handleEvents cfg driver decode True dl_add flushed (map report fs) p =
      Returned (p', Looping) \<and> run_adds dl_add (map (queue_object decode) fs) d = Returned d'
      \<and> deadletter p' = Some d' \<and> channel_closed p' = channel_closed p"
  using assms
proof (induction fs arbitrary: p d)
  case Nil
  then show ?case by simp
next
  case (Cons f fs)
  have dec: "decodable decode (fd_value f)" using Cons.prems(2) by simp
  obtain p1 d1 err where
    step: "handle_event cfg driver decode True dl_add flushed (report f) p = Returned (p1, Looping)"
    and add: "dl_add d (queue_object decode f) = Returned (d1, err)"
    and p1: "deadletter p1 = Some d1" "channel_closed p1 = channel_closed p"
    by (rule handle_event_adds [where cfg = cfg and driver = driver and flushed = flushed,
          OF Cons.prems(1) dec])
  obtain p' d' where
    "handleEvents cfg driver decode True dl_add flushed (map report fs) p1 = Returned (p', Looping)"
    "run_adds dl_add (map (queue_object decode) fs) d1 = Returned d'"
    "deadletter p' = Some d'" "channel_closed p' = channel_closed p1"
    using Cons.IH [OF p1(1)] Cons.prems(2) by fastforce
  with step add p1(2) show ?case by simp
qed

end

text \<open>What a run of additions leaves under one key.\<close>

lemma run_adds_queued:
  assumes "run_adds (\<lambda>d qo. AddToQueue clock send qo d) qos d = Returned d'" "\<not> timestamped k"
  shows "queued d' k =
    queued d k @ map qo_Data (filter (\<lambda>qo. accepted qo \<and> qo_Key qo = k) qos)"
  using assms(1)
proof (induction qos arbitrary: d)
  case Nil
  then show ?case by simp
next
  case (Cons qo qos)
  from Cons.prems obtain d1 err where add: "AddToQueue clock send qo d = Returned (d1, err)"
    and rest: "run_adds (\<lambda>d qo. AddToQueue clock send qo d) qos d1 = Returned d'"
    by (auto simp: outcome_simps)
  have "queued d1 k = queued d k @ map qo_Data (filter (\<lambda>qo. accepted qo \<and> qo_Key qo = k) [qo])"
  proof (cases "accepted qo")
    case True
    then show ?thesis
      using AddToQueue_queued [OF add True] AddToQueue_queued_other [OF add _ assms(2)] by auto
  next
    case False
    then have "d1 = d" using add AddToQueue_not_accepted [OF False, of clock send d] by auto
    with False show ?thesis by simp
  qed
  with Cons.IH [OF rest] show ?case by auto
qed

lemma accepted_queue_object: "accepted (queue_object decode f) \<longleftrightarrow> fd_value f \<noteq> []"
  by (simp add: accepted_def queue_object_def deadletter_key_def contains_byte_def)

text \<open>Two failed deliveries share a key only if their topics have the same address.\<close>

lemma queue_object_key_address:
  "qo_Key (queue_object decode f) = qo_Key (queue_object decode g) \<Longrightarrow> fd_addr f = fd_addr g"
  by (auto simp: queue_object_def dest: deadletter_key_inj)

lemma queue_object_data [simp]: "qo_Data (queue_object decode f) = fd_value f"
  by (simp add: queue_object_def)

lemma queue_objects_own_key:
  assumes "distinct (map fd_addr fs)" "f \<in> set fs" "fd_value f \<noteq> []"
  shows "map qo_Data (filter (\<lambda>qo. accepted qo \<and> qo_Key qo = qo_Key (queue_object decode f))
    (map (queue_object decode) fs)) = [fd_value f]"
  using assms
proof (induction fs)
  case Nil
  then show ?case by simp
next
  case (Cons g fs)
  show ?case
  proof (cases "f = g")
    case True
    have "qo_Key (queue_object decode h) \<noteq> qo_Key (queue_object decode f)" if "h \<in> set fs" for h
      using Cons.prems(1) that True queue_object_key_address [of decode h f]
      by (auto simp: rev_image_eqI)
    with True Cons.prems(3) show ?thesis
      by (auto simp: accepted_queue_object filter_empty_conv)
  next
    case False
    with Cons.prems have "f \<in> set fs" "fd_addr g \<noteq> fd_addr f" by auto
    then show ?thesis
      using Cons.IH Cons.prems queue_object_key_address [of decode g f] by auto
  qed
qed


section \<open>The end of the loop\<close>

text \<open>The producer is closed exactly when the loop has seen the shutdown.\<close>

lemma add_failed_frame:
  "add_failed dl_add qo p = Returned p' \<Longrightarrow>
     channel_closed p' = channel_closed p \<and> in_flight p' = in_flight p"
  by (auto simp: add_failed_def outcome_simps in_flight_def split: option.splits if_splits)

lemma in_flight_counters [simp]: "in_flight (p\<lparr>prod_counters := ms\<rparr>) = in_flight p"
  by (simp add: in_flight_def)

lemma handle_event_closed:
  assumes "handle_event cfg driver decode retry dl_add flushed ev p = Returned (p', status)"
    and "\<not> channel_closed p" "cassandra_ready cfg"
  shows "channel_closed p' \<longleftrightarrow> status = Loop_Ended"
    and "in_flight p' = in_flight p" "status = Loop_Ended \<Longrightarrow> channel p' = []"
proof -
  have "(channel_closed p' \<longleftrightarrow> status = Loop_Ended) \<and> in_flight p' = in_flight p
      \<and> (status = Loop_Ended \<longrightarrow> channel p' = [])"
  proof (cases ev)
    case Shutdown_Closed
    from producer_Close_open [OF assms(2,3), of driver flushed] obtain p1 where
      "producer_Close cfg driver flushed p = Returned p1" "channel_closed p1" "channel p1 = []"
      "in_flight p1 = in_flight p" by metis
    with Shutdown_Closed assms(1) show ?thesis by (auto simp: handle_event_def)
  next
    case (Delivery_Report err topic v)
    show ?thesis
      using assms(1,2) Delivery_Report
      by (auto simp: handle_event_def outcome_simps Let_def dest!: add_failed_frame
          split: option.splits sum.splits if_splits prod.splits)
  qed (use assms in \<open>auto simp: handle_event_def\<close>)
  then show "channel_closed p' \<longleftrightarrow> status = Loop_Ended" "in_flight p' = in_flight p"
    "status = Loop_Ended \<Longrightarrow> channel p' = []" by blast+
qed

lemma handleEvents_closed:
  assumes "handleEvents cfg driver decode retry dl_add flushed evs p = Returned (p', status)"
    and "\<not> channel_closed p" "cassandra_ready cfg"
  shows "(channel_closed p' \<longleftrightarrow> status = Loop_Ended) \<and> in_flight p' = in_flight p
    \<and> (status = Loop_Ended \<longrightarrow> channel p' = [])"
  using assms(1,2)
proof (induction evs arbitrary: p)
  case Nil
  then show ?case by auto
next
  case (Cons ev evs)
  from Cons.prems(1) obtain p1 s1
    where step: "handle_event cfg driver decode retry dl_add flushed ev p = Returned (p1, s1)"
      and rest: "(if s1 = Looping then handleEvents cfg driver decode retry dl_add flushed evs p1
        else Returned (p1, s1)) = Returned (p', status)"
    by (auto simp: outcome_simps)
  note closed = handle_event_closed [OF step Cons.prems(2) assms(3)]
  show ?case
  proof (cases "s1 = Looping")
    case True
    with rest closed(1) have "handleEvents cfg driver decode retry dl_add flushed evs p1 =
        Returned (p', status)" "\<not> channel_closed p1" by simp_all
    from Cons.IH [OF this] closed(2) show ?thesis by simp
  next
    case False
    with rest closed show ?thesis by auto
  qed
qed

text \<open>After the close every send panics.\<close>

lemma send_after_close:
  "channel_closed p \<Longrightarrow> send_channel cfg m p = Panicked ''send on closed channel''"
  by (simp add: send_channel_def)

lemma handle_after_close_error:
  assumes "channel_closed p" "decode message = Inr dat"
    and "ints_get (ints p) (AppId dat) = Returned (i, Inl err)"
  shows "HandleMessage cfg driver decode ints_get order p message key =
    Panicked ''send on closed channel''"
  using assms by (simp add: HandleMessage_def outcome_simps send_after_close)

lemma handle_after_close_routed:
  assumes "channel_closed p" "decode message = Inr dat"
    and "ints_get (ints p) (AppId dat) = Returned (i, Inr (Some m))"
    and "dom m \<noteq> {}" "order (length (loop_vars p)) m \<noteq> []"
  shows "HandleMessage cfg driver decode ints_get order p message key =
    Panicked ''send on closed channel''"
proof -
  obtain k ks where "order (length (loop_vars p)) m = k # ks"
    using assms(5) by (cases "order (length (loop_vars p)) m") auto
  with assms show ?thesis
    by (simp add: HandleMessage_def outcome_simps send_after_close entries_def Let_def)
qed

section \<open>Properties\<close>

definition sample_failure :: "nat \<Rightarrow> bytes \<Rightarrow> failed_delivery" where
  "sample_failure addr v =
     \<lparr>fd_error = Error_String ''timed out'', fd_addr = addr, fd_topic = ''s3-topic'', fd_value = v\<rparr>"

definition sample_dlq :: "unit dlq" where
  "sample_dlq =
     \<lparr>queueSize = 3, queue = Map.empty, s3Bucket = ''bucket'', world = (), dl_counters = no_metrics\<rparr>"

definition sample_send :: "unit uploader" where
  "sample_send w bucket key content = (w, None)"

text \<open>C18: The event handler gives every failed message it can decode to the dead letter queue, but
  under a key made from the address of its topic: failed messages with topics at different
  addresses each end up alone under a key of their own, even for one app and one topic.\<close>

theorem failed_messages_have_own_keys:
  assumes "deadletter p = Some d"
    and "\<forall>f \<in> set fs. decodable decode (fd_value f) \<and> fd_value f \<noteq> []"
    and "distinct (map fd_addr fs)"
  shows "\<exists>p' d'. handleEvents cfg driver decode True (\<lambda>d qo. AddToQueue clock send qo d) flushed
      (map report fs) p = Returned (p', Looping)
    \<and> deadletter p' = Some d'
    \<and> (\<forall>f \<in> set fs. queued d' (qo_Key (queue_object decode f)) =
         queued d (qo_Key (queue_object decode f)) @ [fd_value f])"
proof -
  obtain p' d' where call: "handleEvents cfg driver decode True (\<lambda>d qo. AddToQueue clock send qo d)
      flushed (map report fs) p = Returned (p', Looping)" "deadletter p' = Some d'"
    and adds: "run_adds (\<lambda>d qo. AddToQueue clock send qo d) (map (queue_object decode) fs) d =
      Returned d'"
    using deadletters.handleEvents_adds [OF assms(1), of fs decode] assms(2) by blast
  have "queued d' (qo_Key (queue_object decode f)) =
      queued d (qo_Key (queue_object decode f)) @ [fd_value f]" if "f \<in> set fs" for f
  proof -
    have "\<not> timestamped (qo_Key (queue_object decode f))"
      by (simp add: queue_object_def deadletter_key_not_timestamped)
    then show ?thesis
      using run_adds_queued [OF adds] queue_objects_own_key [OF assms(3) that] assms(2) that by auto
  qed
  with call show ?thesis by blast
qed

theorem failed_messages_have_own_keys_witness:
  "\<exists>p' d'. handleEvents sample_config sample_driver sample_decode True
      (\<lambda>d qo. AddToQueue (\<lambda>_. 0) sample_send qo d) 0
      [report (sample_failure 16 ''m1''), report (sample_failure 32 ''m2'')]
      (sample_producer () (Some sample_dlq) []) = Returned (p', Looping)
    \<and> deadletter p' = Some d'
    \<and> queued d' ''m/%!s(*string=0x10)'' = [''m1'']"
proof -
  have key: "qo_Key (queue_object sample_decode (sample_failure 16 ''m1'')) = ''m/%!s(*string=0x10)''"
    by (simp add: queue_object_def sample_failure_def sample_decode_def deadletter_key_def
        sprint_string_pointer_def format_hex.simps)
  show ?thesis
    using failed_messages_have_own_keys [of "sample_producer () (Some sample_dlq) []" sample_dlq
        "[sample_failure 16 ''m1'', sample_failure 32 ''m2'']" sample_decode sample_config
        sample_driver "\<lambda>_. 0" sample_send 0] key
    by (auto simp: sample_producer_def decodable_def sample_failure_def sample_decode_def
        sample_dlq_def queued_def)
qed

text \<open>C19: One failed delivery that is not JSON ends the event loop without closing the producer: no
  later input is looked at, the shutdown included.\<close>

theorem undecodable_failure_ends_handler:
  assumes "handleEvents cfg driver decode retry dl_add flushed evs p = Returned (p1, Looping)"
    and "decode v = Inl e" "\<not> channel_closed p" "cassandra_ready cfg"
  shows "handleEvents cfg driver decode retry dl_add flushed
      (evs @ Delivery_Report (Some err) topic v # rest) p = Returned (p1, Loop_Returned)
    \<and> \<not> channel_closed p1"
  using assms handleEvents_closed [OF assms(1,3,4)]
  by (simp add: handleEvents_append handle_event_undecodable)

theorem undecodable_failure_ends_handler_witness:
  "handleEvents sample_config sample_driver sample_decode True
      (\<lambda>d qo. AddToQueue (\<lambda>_. 0) sample_send qo d) 0
      [Stats_Event ''s'', Delivery_Report (Some (Error_String ''timed out'')) None '''', Shutdown_Closed]
      (sample_producer () (Some sample_dlq) []) =
    Returned (sample_producer () (Some sample_dlq) [], Loop_Returned)
   \<and> \<not> channel_closed (sample_producer () (Some sample_dlq) [])"
  using undecodable_failure_ends_handler [of sample_config sample_driver sample_decode True
      "\<lambda>d qo. AddToQueue (\<lambda>_. 0) sample_send qo d" 0 "[Stats_Event ''s'']"
      "sample_producer () (Some sample_dlq) []" "sample_producer () (Some sample_dlq) []" "''''"
      "Error_String ''EOF''" "Error_String ''timed out''" None "[Shutdown_Closed]"]
  by (simp add: sample_decode_def sample_producer_def cassandra_ready_def sample_config_def)

text \<open>C17: The handler closes the producer exactly when it ends on the shutdown; then the channel is
  empty. On the way no message disappears: what was sent is handed to Kafka, refused or waiting.\<close>

theorem handler_closes_on_shutdown_only:
  assumes "handleEvents cfg driver decode retry dl_add flushed evs p = Returned (p', status)"
    and "\<not> channel_closed p" "cassandra_ready cfg"
  shows "(channel_closed p' \<longleftrightarrow> status = Loop_Ended) \<and> in_flight p' = in_flight p
    \<and> (status = Loop_Ended \<longrightarrow> channel p' = [])"
  using assms by (rule handleEvents_closed)

theorem handler_closes_on_shutdown_only_witness:
  "\<exists>p'. handleEvents sample_config sample_driver sample_decode True
      (\<lambda>d qo. AddToQueue (\<lambda>_. 0) sample_send qo d) 0 [Shutdown_Closed]
      (sample_producer () (Some sample_dlq) []) = Returned (p', Loop_Ended)
    \<and> channel_closed p' \<and> channel p' = [] \<and> in_flight p' = {#}"
proof -
  let ?p = "sample_producer () (Some sample_dlq) []"
  have call: "handleEvents sample_config sample_driver sample_decode True
      (\<lambda>d qo. AddToQueue (\<lambda>_. 0) sample_send qo d) 0 [Shutdown_Closed] ?p =
      Returned (?p\<lparr>channel_closed := True\<rparr>, Loop_Ended)"
    by (simp add: handle_event_def producer_Close_def sample_producer_def sample_config_def)
  show ?thesis
    using handler_closes_on_shutdown_only [OF call] call
    by (simp add: sample_producer_def cassandra_ready_def sample_config_def in_flight_def)
qed

text \<open>Once the event handler has closed the producer, the next message the consumer still hands
  over for an app with integrations, or whose lookup fails, panics the program: it is sent on a
  closed channel.\<close>

theorem message_after_close_panics:
  assumes "handleEvents cfg driver decode' retry dl_add flushed evs p = Returned (p', Loop_Ended)"
    and "\<not> channel_closed p" "cassandra_ready cfg" "decode message = Inr dat"
    and "ints_get (ints p') (AppId dat) = Returned (i, r)"
    and "r = Inl err \<or> (r = Inr (Some m) \<and> m \<noteq> Map.empty \<and> enumerates (order (length (loop_vars p')) m) m)"
  shows "HandleMessage cfg driver decode ints_get order p' message key =
    Panicked ''send on closed channel''"
proof -
  have closed: "channel_closed p'" using handleEvents_closed [OF assms(1-3)] by simp
  from assms(6) show ?thesis
  proof
    assume "r = Inl err"
    with closed assms(4,5) show ?thesis by (simp add: handle_after_close_error)
  next
    assume r: "r = Inr (Some m) \<and> m \<noteq> Map.empty \<and> enumerates (order (length (loop_vars p')) m) m"
    then have "dom m \<noteq> {}" "order (length (loop_vars p')) m \<noteq> []"
      by (fastforce simp: enumerates_def)+
    with closed assms(4,5) r show ?thesis by (auto simp: handle_after_close_routed)
  qed
qed

theorem message_after_close_panics_witness:
  "HandleMessage sample_config sample_driver sample_decode sample_get sample_order
     ((sample_producer () (Some sample_dlq) [])\<lparr>channel_closed := True\<rparr>) ''m1'' ''k'' =
   Panicked ''send on closed channel''"
proof -
  let ?p = "sample_producer () (Some sample_dlq) []"
  have call: "handleEvents sample_config sample_driver sample_decode True
      (\<lambda>d qo. AddToQueue (\<lambda>_. 0) sample_send qo d) 0 [Shutdown_Closed] ?p =
      Returned (?p\<lparr>channel_closed := True\<rparr>, Loop_Ended)"
    by (simp add: handle_event_def producer_Close_def sample_producer_def sample_config_def)
  show ?thesis
    using sample_order_enumerates
    by (intro message_after_close_panics [OF call, where dat = "projr (sample_decode ''m1'')"
          and i = "()" and r = "Inr (Some sample_map)" and m = sample_map])
      (simp_all add: sample_defs)
qed

end
