(* ===== verification/Consumer.thy ===== *)
theory Consumer
  imports Producer_Events
begin

text \<open>
  The consumer of \<open>kafka/clickstream/clickstream_consumer.go\<close>: it reads the events of the Kafka
  consumer client and gives every message to its \<open>messageHandler\<close>, the producer. The handler is
  the parameter \<open>handle\<close>, on a state of its own; the loop runs on a sequence of inputs, each what
  the \<open>select\<close> takes next.
\<close>

type_synonym partition = "string \<times> int"

datatype consumer_input =
    Shutdown_Signal
  | Assigned_Partitions "partition list"
  | Revoked_Partitions "partition list"
  | Kafka_Message bytes bytes
  | Kafka_Error string
  | Kafka_Stats string
  | Ignored_Event

record consumer_options =
  co_BootstrapServers :: string
  co_GroupID :: string
  co_Topic :: string

record 'p consumer =
  co_options :: consumer_options
  handler_state :: 'p
  subscription :: "string list"
  assigned :: "partition list"
  consumer_closed :: bool

datatype run_status = Run_Waiting | Run_Closed | Run_Not_Subscribed

text \<open>\<open>NewConsumer\<close>; \<open>create\<close> is the constructor of the client library, on a configuration.\<close>

definition consumer_conf :: "consumer_options \<Rightarrow> (string \<times> conf_value) list" where
  "consumer_conf opts =
     [(''bootstrap.servers'', Conf_Text (co_BootstrapServers opts)), (''group.id'', Conf_Text (co_GroupID opts)),
      (''session.timeout.ms'', Conf_Int 6000), (''go.events.channel.enable'', Conf_Bool True),
      (''go.application.rebalance.enable'', Conf_Bool True), (''enable.auto.commit'', Conf_Bool True),
      (''statistics.interval.ms'', Conf_Int 500),
      (''default.topic.config'', Conf_Map [(''auto.offset.reset'', Conf_Text ''earliest'')])]"

definition new_consumer :: "consumer_options \<Rightarrow> 'p \<Rightarrow> 'p consumer" where
  "new_consumer opts h =
     \<lparr>co_options = opts, handler_state = h, subscription = [], assigned = [], consumer_closed = False\<rparr>"

definition NewConsumer ::
    "((string \<times> conf_value) list \<Rightarrow> go_error option) \<Rightarrow> consumer_options \<Rightarrow> 'p \<Rightarrow> 'p consumer result" where
  "NewConsumer create opts h =
     (case create (consumer_conf opts) of
        Some err \<Rightarrow> Inl (With_Message err ''Error creating consumer'')
      | None \<Rightarrow> Inr (new_consumer opts h))"

definition consumer_Close :: "'p consumer \<Rightarrow> 'p consumer" where
  "consumer_Close c = c\<lparr>assigned := [], consumer_closed := True\<rparr>"

text \<open>
  One turn of the loop of \<open>Run\<close>, and whether the loop goes on. The \<open>break\<close> after an error of the
  handler leaves the \<open>switch\<close>, not the loop.
\<close>

definition consume ::
    "('p \<Rightarrow> bytes \<Rightarrow> bytes \<Rightarrow> ('p \<times> go_error option) outcome) \<Rightarrow> consumer_input \<Rightarrow>
     'p consumer \<Rightarrow> ('p consumer \<times> bool) outcome" where
  "consume handle ev c =
     (case ev of
        Shutdown_Signal \<Rightarrow> Returned (c, False)
      | Assigned_Partitions ps \<Rightarrow> Returned (c\<lparr>assigned := ps\<rparr>, True)
      | Revoked_Partitions ps \<Rightarrow> Returned (c\<lparr>assigned := []\<rparr>, True)
      | Kafka_Message message key \<Rightarrow>
          and_then (handle (handler_state c) message key) (\<lambda>(h, err).
            let c = c\<lparr>handler_state := h\<rparr>
            in if err \<noteq> None then Returned (c, True) else Returned (c, True))
      | Kafka_Error e \<Rightarrow> Returned (c, True)
      | Kafka_Stats s \<Rightarrow> Returned (c, True)
      | Ignored_Event \<Rightarrow> Returned (c, True))"

fun run_loop ::
    "('p \<Rightarrow> bytes \<Rightarrow> bytes \<Rightarrow> ('p \<times> go_error option) outcome) \<Rightarrow> consumer_input list \<Rightarrow>
     'p consumer \<Rightarrow> ('p consumer \<times> run_status) outcome" where
  "run_loop handle [] c = Returned (c, Run_Waiting)"
| "run_loop handle (ev # evs) c =
     and_then (consume handle ev c) (\<lambda>(c, run).
       if run then run_loop handle evs c else Returned (consumer_Close c, Run_Closed))"

text \<open>\<open>subscribed\<close> is the result of \<open>SubscribeTopics\<close>; on an error \<open>Run\<close> returns without a \<open>Close\<close>.\<close>

definition Run ::
    "('p \<Rightarrow> bytes \<Rightarrow> bytes \<Rightarrow> ('p \<times> go_error option) outcome) \<Rightarrow> go_error option \<Rightarrow>
     consumer_input list \<Rightarrow> 'p consumer \<Rightarrow> ('p consumer \<times> run_status) outcome" where
  "Run handle subscribed evs c =
     (case subscribed of
        Some err \<Rightarrow> Returned (c, Run_Not_Subscribed)
      | None \<Rightarrow> run_loop handle evs (c\<lparr>subscription := [co_Topic (co_options c)]\<rparr>))"


section \<open>What a run does to the handler\<close>

text \<open>The messages one after the other, whatever the handler answers.\<close>

fun handle_all ::
    "('p \<Rightarrow> bytes \<Rightarrow> bytes \<Rightarrow> ('p \<times> go_error option) outcome) \<Rightarrow> (bytes \<times> bytes) list \<Rightarrow>
     'p \<Rightarrow> 'p outcome" where
  "handle_all handle [] h = Returned h"
| "handle_all handle ((message, key) # ms) h =
     and_then (handle h message key) (\<lambda>(h, err). handle_all handle ms h)"

definition before_shutdown :: "consumer_input list \<Rightarrow> consumer_input list" where
  "before_shutdown evs = takeWhile (\<lambda>ev. ev \<noteq> Shutdown_Signal) evs"

fun messages_of :: "consumer_input list \<Rightarrow> (bytes \<times> bytes) list" where
  "messages_of [] = []"
| "messages_of (Kafka_Message message key # evs) = (message, key) # messages_of evs"
| "messages_of (_ # evs) = messages_of evs"

lemma messages_of_append [simp]: "messages_of (evs @ evs') = messages_of evs @ messages_of evs'"
  by (induction evs rule: messages_of.induct) auto

lemma consume_no_message:
  "ev \<noteq> Shutdown_Signal \<Longrightarrow> messages_of [ev] = [] \<Longrightarrow>
     \<exists>ps. consume handle ev c = Returned (c\<lparr>assigned := ps\<rparr>, True)"
  by (cases ev) (auto simp: consume_def intro: exI [of _ "assigned c"])

lemma consume_message:
  "handle (handler_state c) message key = Returned (h, err) \<Longrightarrow>
     consume handle (Kafka_Message message key) c = Returned (c\<lparr>handler_state := h\<rparr>, True)"
  by (simp add: consume_def)

context message_handler
begin

lemma handle_all_returns:
  "handler_inv h \<Longrightarrow> \<exists>h'. handle_all handle ms h = Returned h' \<and> handler_inv h'"
proof (induction ms arbitrary: h)
  case Nil
  then show ?case by simp
next
  case (Cons m ms)
  obtain message key where m: "m = (message, key)" by fastforce
  from handle_total [OF Cons.prems, of message key] obtain h1 err
    where "handle h message key = Returned (h1, err)" "handler_inv h1" by blast
  with Cons.IH m show ?case by simp
qed

text \<open>
  A run gives the handler every message before the shutdown, in order, and no other; it ends,
  with a close, exactly when there is a shutdown.
\<close>

lemma run_loop_handles:
  assumes "handler_inv (handler_state c)"
  shows "\<exists>c' h. run_loop handle evs c =
      Returned (c', if Shutdown_Signal \<in> set evs then Run_Closed else Run_Waiting)
    \<and> handle_all handle (messages_of (before_shutdown evs)) (handler_state c) = Returned h
    \<and> handler_state c' = h \<and> handler_inv h \<and> subscription c' = subscription c
    \<and> (consumer_closed c' \<longleftrightarrow> consumer_closed c \<or> Shutdown_Signal \<in> set evs)"
  using assms
proof (induction evs arbitrary: c)
  case Nil
  then show ?case by (simp add: before_shutdown_def)
next
  case (Cons ev evs)
  consider "ev = Shutdown_Signal"
    | message key where "ev = Kafka_Message message key"
    | "ev \<noteq> Shutdown_Signal" "messages_of [ev] = []"
    by (cases ev) auto
  then show ?case
  proof cases
    case 1
    with Cons.prems show ?thesis
      by (simp add: before_shutdown_def consume_def consumer_Close_def)
  next
    case (2 message key)
    from handle_total [OF Cons.prems, of message key] obtain h err
      where h: "handle (handler_state c) message key = Returned (h, err)" "handler_inv h"
      by blast
    with Cons.IH [of "c\<lparr>handler_state := h\<rparr>"] 2 show ?thesis
      by (simp add: before_shutdown_def consume_message)
  next
    case 3
    from consume_no_message [OF 3, of handle c] obtain ps
      where step: "consume handle ev c = Returned (c\<lparr>assigned := ps\<rparr>, True)" by blast
    have "messages_of (before_shutdown (ev # evs)) = messages_of (before_shutdown evs)"
      using 3 messages_of_append [of "[ev]" "before_shutdown evs"]
      by (simp add: before_shutdown_def)
    with Cons.IH [of "c\<lparr>assigned := ps\<rparr>"] Cons.prems 3(1) step show ?thesis by simp
  qed
qed

end

section \<open>Properties\<close>

definition sample_options :: consumer_options where
  "sample_options = \<lparr>co_BootstrapServers = ''kafka:9092'', co_GroupID = ''group'', co_Topic = ''main''\<rparr>"

definition sample_consumer :: "'p \<Rightarrow> 'p consumer" where
  "sample_consumer h =
     \<lparr>co_options = sample_options, handler_state = h, subscription = [], assigned = [],
      consumer_closed = False\<rparr>"

definition producer_handle ::
    "producer_config \<Rightarrow> 'w cql_driver \<Rightarrow> (bytes \<Rightarrow> message result) \<Rightarrow>
     ('h \<Rightarrow> string \<Rightarrow> 'h \<times> strmap option result) \<Rightarrow> (nat \<Rightarrow> strmap \<Rightarrow> string list) \<Rightarrow>
     ('h integrations, 'd, 'w) producer \<Rightarrow> bytes \<Rightarrow> bytes \<Rightarrow>
     (('h integrations, 'd, 'w) producer \<times> go_error option) outcome" where
  "producer_handle cfg driver decode houston_get order =
     HandleMessage cfg driver decode (GetIntegrations houston_get) order"

lemma producer_wf_sample:
  "producer_wf ints_inv sample_config (sample_producer s d sched) \<longleftrightarrow> ints_inv s"
  by (simp add: producer_wf_def sample_producer_def sample_config_def cassandra_ready_def)

text \<open>C6: The consumer over the producer, the integrations cache and the Houston client of the program, as long
  as no other goroutine works on the cache or closes the producer meanwhile, never panics: a run that is
  refused its subscription returns at once and does nothing; any other gives the producer every message
  before the shutdown, in order and none after it, goes on after every error, and closes the consumer
  exactly on the shutdown.\<close>

theorem Run_handles_all:
  assumes "producer_wf (integrations_wf houston_wf) cfg (handler_state c)"
  shows "Run (producer_handle cfg driver decode (Client_GetIntegrations env) order) (Some err) evs c =
      Returned (c, Run_Not_Subscribed)
    \<and> (\<exists>c' p'. Run (producer_handle cfg driver decode (Client_GetIntegrations env) order) None evs c =
      Returned (c', if Shutdown_Signal \<in> set evs then Run_Closed else Run_Waiting)
    \<and> handle_all (producer_handle cfg driver decode (Client_GetIntegrations env) order)
        (messages_of (before_shutdown evs)) (handler_state c) = Returned p'
    \<and> handler_state c' = p' \<and> producer_wf (integrations_wf houston_wf) cfg p'
    \<and> subscription c' = [co_Topic (co_options c)]
    \<and> (consumer_closed c' \<longleftrightarrow> consumer_closed c \<or> Shutdown_Signal \<in> set evs))"
  using real_houston.client.router.run_loop_handles [of cfg
      "c\<lparr>subscription := [co_Topic (co_options c)]\<rparr>" driver decode env order evs] assms
  by (simp add: Run_def producer_handle_def)

theorem Run_handles_all_witness:
  "\<exists>c' p'. Run (producer_handle sample_config sample_driver sample_decode
      (Client_GetIntegrations sample_env) sample_order) None
      [Kafka_Message ''m1'' ''k'', Kafka_Error ''e'', Shutdown_Signal, Kafka_Message ''m2'' ''k'']
      (sample_consumer (sample_producer (NewClient (sample_client 4, [])) (None :: unit option) [])) =
      Returned (c', Run_Closed)
    \<and> handle_all (producer_handle sample_config sample_driver sample_decode
        (Client_GetIntegrations sample_env) sample_order) [(''m1'', ''k'')]
        (sample_producer (NewClient (sample_client 4, [])) None []) = Returned p'
    \<and> handler_state c' = p' \<and> consumer_closed c'"
  using Run_handles_all [of sample_config "sample_consumer (sample_producer
      (NewClient (sample_client 4, [])) (None :: unit option) [])" sample_driver sample_decode
      sample_env sample_order _ "[Kafka_Message ''m1'' ''k'', Kafka_Error ''e'', Shutdown_Signal,
        Kafka_Message ''m2'' ''k'']"]
  by (auto simp: sample_consumer_def producer_wf_sample integrations_wf_NewClient houston_wf_def
      before_shutdown_def)

text \<open>The same over the mock Houston client, whatever integrations it was given.\<close>

theorem Run_handles_all_mock:
  assumes "producer_wf (integrations_wf mock_wf) cfg (handler_state c)"
  shows "\<exists>c' status. Run (producer_handle cfg driver decode Mock_GetIntegrations order) None evs c =
      Returned (c', status) \<and> producer_wf (integrations_wf mock_wf) cfg (handler_state c')"
  using mock_houston.client.router.run_loop_handles [of cfg
      "c\<lparr>subscription := [co_Topic (co_options c)]\<rparr>" driver decode order evs] assms
  by (auto simp: Run_def producer_handle_def)

theorem Run_handles_all_mock_witness:
  "\<exists>c' status. Run (producer_handle sample_config sample_driver sample_decode
      Mock_GetIntegrations sample_order) None
      [Assigned_Partitions [(''main'', 0)], Kafka_Message ''m1'' ''k'', Shutdown_Signal]
      (sample_consumer (sample_producer (NewClient (Some sample_map)) (None :: unit option) [])) =
      Returned (c', status)
    \<and> producer_wf (integrations_wf mock_wf) sample_config (handler_state c')"
  by (rule Run_handles_all_mock)
    (simp add: sample_consumer_def producer_wf_sample integrations_wf_NewClient mock_wf_def
      sample_map_def)

end
