(* ===== verification/Config.thy ===== *)
theory Config
  imports Houston Timer_Loop
begin

text \<open>
  The configuration of \<open>config/config.go\<close>, with what it uses of the vendored \<open>viper\<close> and \<open>cast\<close>: values set
  by the program, then the environment, then the defaults. The keys of the program have no dots,
  and it binds no flags, files or aliases, so the lookup of \<open>viper\<close> comes down to these three maps.
  \<open>getenv\<close> is \<open>os.Getenv\<close>: the empty string for a variable that is not set.
\<close>

section \<open>The lookup of viper\<close>

datatype setting = Bool_Setting bool | Int_Setting int | String_Setting string

record viper =
  override :: "string \<rightharpoonup> setting"
  defaults :: "string \<rightharpoonup> setting"
  env_prefix :: string
  automatic_env :: bool

definition new_viper :: viper where
  "new_viper =
     \<lparr>override = Map.empty, defaults = Map.empty, env_prefix = '''', automatic_env = False\<rparr>"

definition to_upper :: "string \<Rightarrow> string" where
  "to_upper s = map ascii_upper s"

definition to_lower :: "string \<Rightarrow> string" where
  "to_lower s = map ascii_lower s"

definition SetEnvPrefix :: "string \<Rightarrow> viper \<Rightarrow> viper" where
  "SetEnvPrefix p v = (if p \<noteq> '''' then v\<lparr>env_prefix := p\<rparr> else v)"

definition AutomaticEnv :: "viper \<Rightarrow> viper" where
  "AutomaticEnv v = v\<lparr>automatic_env := True\<rparr>"

definition SetDefault :: "string \<Rightarrow> setting \<Rightarrow> viper \<Rightarrow> viper" where
  "SetDefault key x v = v\<lparr>defaults := (defaults v)(to_lower key \<mapsto> x)\<rparr>"

definition viper_Set :: "string \<Rightarrow> setting \<Rightarrow> viper \<Rightarrow> viper" where
  "viper_Set key x v = v\<lparr>override := (override v)(to_lower key \<mapsto> x)\<rparr>"

definition mergeWithEnvPrefix :: "viper \<Rightarrow> string \<Rightarrow> string" where
  "mergeWithEnvPrefix v key =
     (if env_prefix v \<noteq> '''' then to_upper (env_prefix v @ ''_'' @ key) else to_upper key)"

definition viper_find :: "(string \<Rightarrow> string) \<Rightarrow> viper \<Rightarrow> string \<Rightarrow> setting option" where
  "viper_find getenv v lcaseKey =
     (case override v lcaseKey of
        Some x \<Rightarrow> Some x
      | None \<Rightarrow>
          if automatic_env v \<and> getenv (mergeWithEnvPrefix v lcaseKey) \<noteq> ''''
          then Some (String_Setting (getenv (mergeWithEnvPrefix v lcaseKey)))
          else defaults v lcaseKey)"

definition viper_Get :: "(string \<Rightarrow> string) \<Rightarrow> viper \<Rightarrow> string \<Rightarrow> setting option" where
  "viper_Get getenv v key = viper_find getenv v (to_lower key)"


section \<open>The conversions of cast\<close>

text \<open>
  \<open>strconv.ParseBool\<close> and \<open>strconv.ParseInt(s, 0, 0)\<close> of Go 1.9: a leading \<open>0x\<close> makes the number
  hexadecimal, another leading zero octal. A text that is not a number, or one that does not fit
  in 64 bits, is an error, for which \<open>cast\<close> answers 0.
\<close>

definition parse_bool :: "string \<Rightarrow> bool option" where
  "parse_bool s =
     (if s \<in> {''1'', ''t'', ''T'', ''true'', ''TRUE'', ''True''} then Some True
      else if s \<in> {''0'', ''f'', ''F'', ''false'', ''FALSE'', ''False''} then Some False
      else None)"

definition digit_value :: "char \<Rightarrow> nat option" where
  "digit_value c =
     (let n = of_char c :: nat
      in if 48 \<le> n \<and> n \<le> 57 then Some (n - 48)
         else if 97 \<le> n \<and> n \<le> 122 then Some (n - 97 + 10)
         else if 65 \<le> n \<and> n \<le> 90 then Some (n - 65 + 10)
         else None)"

fun parse_digits :: "nat \<Rightarrow> nat \<Rightarrow> string \<Rightarrow> nat option" where
  "parse_digits base acc [] = Some acc"
| "parse_digits base acc (c # cs) =
     (case digit_value c of
        None \<Rightarrow> None
      | Some d \<Rightarrow> if base \<le> d then None else parse_digits base (acc * base + d) cs)"

definition parse_uint :: "string \<Rightarrow> nat option" where
  "parse_uint s =
     (case s of
        [] \<Rightarrow> None
      | [c] \<Rightarrow> if c = CHR ''0'' then Some 0 else parse_digits 10 0 s
      | c # x # cs \<Rightarrow>
          if c = CHR ''0'' \<and> (x = CHR ''x'' \<or> x = CHR ''X'')
          then (if cs = [] then None else parse_digits 16 0 cs)
          else if c = CHR ''0'' then parse_digits 8 0 (x # cs)
          else parse_digits 10 0 s)"

definition parse_int :: "string \<Rightarrow> int option" where
  "parse_int s =
     (let (neg, digits) =
        (case s of [] \<Rightarrow> (False, s)
         | c # cs \<Rightarrow> if c = CHR ''+'' then (False, cs) else if c = CHR ''-'' then (True, cs) else (False, s))
      in case parse_uint digits of
           None \<Rightarrow> None
         | Some n \<Rightarrow>
             if \<not> neg \<and> 2 ^ 63 \<le> n \<or> neg \<and> 2 ^ 63 < n then None
             else Some (if neg then - int n else int n))"

definition ToString :: "setting option \<Rightarrow> string" where
  "ToString x =
     (case x of
        None \<Rightarrow> ''''
      | Some (Bool_Setting b) \<Rightarrow> if b then ''true'' else ''false''
      | Some (Int_Setting i) \<Rightarrow> format_int i
      | Some (String_Setting s) \<Rightarrow> s)"

definition ToBool :: "setting option \<Rightarrow> bool" where
  "ToBool x =
     (case x of
        None \<Rightarrow> False
      | Some (Bool_Setting b) \<Rightarrow> b
      | Some (Int_Setting i) \<Rightarrow> i \<noteq> 0
      | Some (String_Setting s) \<Rightarrow> (case parse_bool s of None \<Rightarrow> False | Some b \<Rightarrow> b))"

definition ToInt :: "setting option \<Rightarrow> int" where
  "ToInt x =
     (case x of
        None \<Rightarrow> 0
      | Some (Bool_Setting b) \<Rightarrow> if b then 1 else 0
      | Some (Int_Setting i) \<Rightarrow> i
      | Some (String_Setting s) \<Rightarrow> (case parse_int s of None \<Rightarrow> 0 | Some i \<Rightarrow> i))"


section \<open>The configuration of the program\<close>

definition Prefix :: string where "Prefix = ''ER''"

text \<open>The lists of the package; \<open>Initialize\<close> appends to the first.\<close>

definition requiredEnvs :: "string list" where
  "requiredEnvs =
     [''KAFKA_BROKERS'', ''HOUSTON_API_URL'', ''KAFKA_INGESTION_TOPIC'', ''KAFKA_GROUP_ID'',
      ''SSE_URL'', ''KAFKA_RETRY_TOPIC'']"

definition retryRequiredEnvs :: "string list" where
  "retryRequiredEnvs =
     [''CLICKSTREAM_RETRY_S3_BUCKET'', ''CLICKSTREAM_RETRY_FLUSH_TIMEOUT_MIN'',
      ''CLICKSTREAM_RETRY_MAX_QUEUE'']"

definition allEnvs :: "string list" where
  "allEnvs =
     [''DEBUG'', ''KAFKA_BROKERS'', ''SERVE_PORT'', ''KAFKA_GROUP_ID'', ''KAFKA_INGESTION_TOPIC'',
      ''SSE_URL'', ''KAFKA_PRODUCER_FLUSH_TIMEOUT_MS'', ''KAFKA_PRODUCER_MESSAGE_TIMEOUT_MS'',
      ''CLICKSTREAM_RETRY_S3_BUCKET'', ''CLICKSTREAM_RETRY_S3_PATH_PREFIX'', ''HOUSTON_API_URL'',
      ''HOUSTON_USERNAME'']"

record config_state =
  cfg_viper :: viper
  cfg_required :: "string list"
  cfg_debug :: bool

definition new_config :: config_state where
  "new_config = \<lparr>cfg_viper = new_viper, cfg_required = requiredEnvs, cfg_debug = False\<rparr>"

definition GetString :: "(string \<Rightarrow> string) \<Rightarrow> config_state \<Rightarrow> string \<Rightarrow> string" where
  "GetString getenv st cfg = ToString (viper_Get getenv (cfg_viper st) cfg)"

definition GetBool :: "(string \<Rightarrow> string) \<Rightarrow> config_state \<Rightarrow> string \<Rightarrow> bool" where
  "GetBool getenv st cfg = ToBool (viper_Get getenv (cfg_viper st) cfg)"

definition GetInt :: "(string \<Rightarrow> string) \<Rightarrow> config_state \<Rightarrow> string \<Rightarrow> int" where
  "GetInt getenv st cfg = ToInt (viper_Get getenv (cfg_viper st) cfg)"

definition GetInt64 :: "(string \<Rightarrow> string) \<Rightarrow> config_state \<Rightarrow> string \<Rightarrow> int" where
  "GetInt64 getenv st cfg = ToInt (viper_Get getenv (cfg_viper st) cfg)"

definition SetBool :: "string \<Rightarrow> bool \<Rightarrow> config_state \<Rightarrow> config_state" where
  "SetBool cfg b st = st\<lparr>cfg_viper := viper_Set cfg (Bool_Setting b) (cfg_viper st)\<rparr>"

definition setDefaults :: "viper \<Rightarrow> viper" where
  "setDefaults v =
     SetDefault ''DISABLE_CACHE_TTL'' (Bool_Setting False)
     (SetDefault ''CACHE_TTL_MIN'' (Int_Setting 5)
     (SetDefault ''KAFKA_PRODUCER_MESSAGE_TIMEOUT_MS'' (Int_Setting 5000)
     (SetDefault ''KAFKA_PRODUCER_FLUSH_TIMEOUT_MS'' (Int_Setting 1000)
     (SetDefault ''SERVE_PORT'' (String_Setting ''8080'')
     (SetDefault ''DEBUG'' (Bool_Setting False) v)))))"

definition GetRequiredEnvErrorString :: "string \<Rightarrow> string \<Rightarrow> string" where
  "GetRequiredEnvErrorString prefix env = prefix @ ''_'' @ env @ '' not set and is required''"

definition required_errors :: "(string \<Rightarrow> string) \<Rightarrow> config_state \<Rightarrow> string list" where
  "required_errors getenv st =
     map (GetRequiredEnvErrorString Prefix)
       (filter (\<lambda>envVar. length (GetString getenv st envVar) = 0) (cfg_required st))"

definition credential_errors :: "(string \<Rightarrow> string) \<Rightarrow> config_state \<Rightarrow> string list" where
  "credential_errors getenv st =
     (if length (GetString getenv st ''HOUSTON_API_KEY'') = 0
         \<and> length (GetString getenv st ''HOUSTON_USERNAME'') = 0
      then [Prefix @ ''_HOUSTON_API_KEY or '' @ Prefix @ ''_HOUSTON_USERNAME/''
              @ Prefix @ ''_HOUSTON_PASSWORD is required'']
      else [])"

definition verifyRequiredEnvVars :: "(string \<Rightarrow> string) \<Rightarrow> config_state \<Rightarrow> go_error option" where
  "verifyRequiredEnvVars getenv st =
     (let errs = required_errors getenv st @ credential_errors getenv st
      in if length errs \<noteq> 0 then Some (Error_String (join [CHR 0x0A] errs)) else None)"

definition printConfigs :: "(string \<Rightarrow> string) \<Rightarrow> config_state \<Rightarrow> string list" where
  "printConfigs getenv st =
     [''Initializing with the following configs:'', ''========================================'']
     @ map (\<lambda>envVar. Prefix @ ''_'' @ envVar @ '' = '' @ GetString getenv st envVar) allEnvs
     @ [''========================================'']"

text \<open>\<open>Initialize\<close>: an error ends the program with exit status 1; else the new state and what it prints.\<close>

definition Initialize ::
    "(string \<Rightarrow> string) \<Rightarrow> bool \<Rightarrow> config_state \<Rightarrow> go_error + (config_state \<times> string list)" where
  "Initialize getenv enableRetry st =
     (let st = st\<lparr>cfg_viper := setDefaults (AutomaticEnv (SetEnvPrefix Prefix (cfg_viper st)))\<rparr>;
          st = (if enableRetry then st\<lparr>cfg_required := cfg_required st @ retryRequiredEnvs\<rparr> else st)
      in case verifyRequiredEnvVars getenv st of
           Some err \<Rightarrow> Inl err
         | None \<Rightarrow>
             (let st = st\<lparr>cfg_debug := GetBool getenv st ''DEBUG''\<rparr>
              in Inr (st, printConfigs getenv st)))"

section \<open>What a key stands for\<close>

text \<open>The names of the program: capital letters and underscores, with a 3 in one of them.\<close>

definition env_name :: "string \<Rightarrow> bool" where
  "env_name k \<longleftrightarrow> (\<forall>c \<in> set k. is_upper c \<or> c = CHR ''_'' \<or> c = CHR ''3'')"

lemma upper_lower_char:
  assumes "is_upper c \<or> c = CHR ''_'' \<or> c = CHR ''3''"
  shows "ascii_upper (ascii_lower c) = c"
proof -
  have "\<forall>c \<in> set (''_3'' @ ''ABCDEFGHIJKLMNOPQRSTUVWXYZ''). ascii_upper (ascii_lower c) = c"
    by code_simp
  with assms show ?thesis by (auto simp: is_upper_def)
qed

lemma upper_lower: "env_name k \<Longrightarrow> to_upper (to_lower k) = k"
  by (induction k) (simp_all add: to_upper_def to_lower_def env_name_def upper_lower_char)

lemma to_lower_inj: "env_name k \<Longrightarrow> env_name l \<Longrightarrow> to_lower k = to_lower l \<Longrightarrow> k = l"
  using upper_lower by metis

definition configured :: viper where
  "configured = setDefaults (AutomaticEnv (SetEnvPrefix Prefix new_viper))"

definition default_names :: "string list" where
  "default_names =
     [''DISABLE_CACHE_TTL'', ''CACHE_TTL_MIN'', ''KAFKA_PRODUCER_MESSAGE_TIMEOUT_MS'',
      ''KAFKA_PRODUCER_FLUSH_TIMEOUT_MS'', ''SERVE_PORT'', ''DEBUG'']"

lemma default_names_env: "list_all env_name default_names"
  by (simp add: default_names_def env_name_def is_upper_def)

lemma configured_simps [simp]:
  "override configured = Map.empty" "automatic_env configured" "env_prefix configured = ''ER''"
  by (simp_all add: configured_def setDefaults_def SetDefault_def AutomaticEnv_def SetEnvPrefix_def
      Prefix_def new_viper_def)

lemma configured_defaults: "dom (defaults configured) = set (map to_lower default_names)"
  by (auto simp: configured_def setDefaults_def SetDefault_def AutomaticEnv_def SetEnvPrefix_def
      Prefix_def new_viper_def default_names_def)

lemma configured_env_name:
  "env_name k \<Longrightarrow> mergeWithEnvPrefix configured (to_lower k) = ''ER_'' @ k"
proof -
  assume "env_name k"
  moreover have "to_upper (''ER_'' @ to_lower k) = ''ER_'' @ to_upper (to_lower k)"
    by (simp add: to_upper_def ascii_upper_def is_lower_def)
  ultimately show ?thesis by (simp add: mergeWithEnvPrefix_def upper_lower)
qed

lemma configured_get:
  assumes "env_name k" "k \<notin> set default_names"
  shows "viper_Get getenv configured k =
    (if getenv (''ER_'' @ k) \<noteq> '''' then Some (String_Setting (getenv (''ER_'' @ k))) else None)"
proof -
  have "to_lower k \<notin> dom (defaults configured)"
    using assms default_names_env
    by (auto simp: configured_defaults list_all_iff dest: to_lower_inj)
  then have "defaults configured (to_lower k) = None" by blast
  with configured_env_name [OF assms(1)] show ?thesis
    by (simp add: viper_Get_def viper_find_def)
qed

lemma configured_string:
  assumes "env_name k" "k \<notin> set default_names" "cfg_viper st = configured"
  shows "GetString getenv st k = getenv (''ER_'' @ k)"
  using configured_get [OF assms(1,2), of getenv] assms(3)
  by (simp add: GetString_def ToString_def)

definition plain_names :: "string list" where
  "plain_names =
     requiredEnvs @ retryRequiredEnvs @ [''HOUSTON_API_KEY'', ''HOUSTON_USERNAME'', ''HOUSTON_PASSWORD'']"

lemma plain_names_env: "list_all (\<lambda>k. env_name k \<and> k \<notin> set default_names) plain_names"
  by (simp add: plain_names_def requiredEnvs_def retryRequiredEnvs_def default_names_def env_name_def
      is_upper_def)

lemma plain_string:
  "k \<in> set plain_names \<Longrightarrow> cfg_viper st = configured \<Longrightarrow> GetString getenv st k = getenv (''ER_'' @ k)"
proof -
  assume "k \<in> set plain_names" "cfg_viper st = configured"
  moreover from this have "env_name k" "k \<notin> set default_names"
    using plain_names_env by (auto simp only: list_all_iff)
  ultimately show ?thesis by (intro configured_string)
qed

lemma Initialize_new:
  "Initialize getenv retry new_config =
     (let st = \<lparr>cfg_viper = configured,
                cfg_required = requiredEnvs @ (if retry then retryRequiredEnvs else []),
                cfg_debug = False\<rparr>
      in case verifyRequiredEnvVars getenv st of
           Some err \<Rightarrow> Inl err
         | None \<Rightarrow> (let st = st\<lparr>cfg_debug := GetBool getenv st ''DEBUG''\<rparr>
                    in Inr (st, printConfigs getenv st)))"
  by (simp add: Initialize_def new_config_def configured_def [symmetric])


lemma required_errors_Nil:
  "required_errors getenv st = [] \<longleftrightarrow> list_all (\<lambda>k. GetString getenv st k \<noteq> '''') (cfg_required st)"
  by (simp add: required_errors_def filter_empty_conv list_all_iff)

lemma Initialize_iff:
  "(\<exists>st out. Initialize getenv retry new_config = Inr (st, out)) \<longleftrightarrow>
     list_all (\<lambda>k. getenv (''ER_'' @ k) \<noteq> '''') (requiredEnvs @ (if retry then retryRequiredEnvs else []))
     \<and> (getenv ''ER_HOUSTON_API_KEY'' \<noteq> '''' \<or> getenv ''ER_HOUSTON_USERNAME'' \<noteq> '''')"
proof -
  let ?req = "requiredEnvs @ (if retry then retryRequiredEnvs else [])"
  let ?st = "\<lparr>cfg_viper = configured, cfg_required = ?req, cfg_debug = False\<rparr>"
  have get: "GetString getenv ?st k = getenv (''ER_'' @ k)" if "k \<in> set plain_names" for k
    using that by (intro plain_string) simp_all
  have "set ?req \<subseteq> set plain_names" by (auto simp: plain_names_def)
  then have same: "GetString getenv ?st k = getenv (''ER_'' @ k)" if "k \<in> set ?req" for k
    using get that by blast
  have "list_all (\<lambda>k. GetString getenv ?st k \<noteq> '''') ?req \<longleftrightarrow>
      list_all (\<lambda>k. getenv (''ER_'' @ k) \<noteq> '''') ?req"
    by (rule list.pred_cong [OF refl]) (simp only: same)
  then have "required_errors getenv ?st = [] \<longleftrightarrow> list_all (\<lambda>k. getenv (''ER_'' @ k) \<noteq> '''') ?req"
    by (simp only: required_errors_Nil config_state.simps)
  moreover have "credential_errors getenv ?st = [] \<longleftrightarrow>
      getenv ''ER_HOUSTON_API_KEY'' \<noteq> '''' \<or> getenv ''ER_HOUSTON_USERNAME'' \<noteq> ''''"
    using get [of "''HOUSTON_API_KEY''"] get [of "''HOUSTON_USERNAME''"]
    by (simp add: credential_errors_def plain_names_def)
  ultimately have "verifyRequiredEnvVars getenv ?st = None \<longleftrightarrow>
      list_all (\<lambda>k. getenv (''ER_'' @ k) \<noteq> '''') ?req
      \<and> (getenv ''ER_HOUSTON_API_KEY'' \<noteq> '''' \<or> getenv ''ER_HOUSTON_USERNAME'' \<noteq> '''')"
    by (auto simp: verifyRequiredEnvVars_def Let_def)
  then show ?thesis
    by (auto simp: Initialize_new Let_def split: option.split)
qed


section \<open>Properties\<close>

text \<open>A user name without a password passes the check of the configuration, and then the Houston
  client of that configuration can never get a token: every call fails before a request is made.\<close>

theorem password_not_required:
  assumes "Initialize getenv retry new_config = Inr (st, out)"
    and "getenv ''ER_HOUSTON_API_KEY'' = ''''" "getenv ''ER_HOUSTON_PASSWORD'' = ''''"
    and "cfg_string env = GetString getenv st"
  shows "getenv ''ER_HOUSTON_USERNAME'' \<noteq> ''''
    \<and> GetAuthorizationToken env (NewHoustonClient env url, w) = ((NewHoustonClient env url, w),
        Inl (With_Message (Error_String
          ''Houston username/password not provided, can't create new token'')
          ''Error getting authorization token''))"
proof -
  let ?st = "\<lparr>cfg_viper = configured,
      cfg_required = requiredEnvs @ (if retry then retryRequiredEnvs else []), cfg_debug = False\<rparr>"
  have "\<exists>st out. Initialize getenv retry new_config = Inr (st, out)" using assms(1) by blast
  then have user: "getenv ''ER_HOUSTON_USERNAME'' \<noteq> ''''"
    using Initialize_iff assms(2) by blast
  have v: "cfg_viper st = configured"
    using assms(1) by (auto simp: Initialize_new Let_def split: option.splits)
  have get: "cfg_string env k = getenv (''ER_'' @ k)" if "k \<in> set plain_names" for k
    unfolding assms(4) using that v by (rule plain_string)
  have "cfg_string env ''HOUSTON_API_KEY'' = ''''" "cfg_string env ''HOUSTON_PASSWORD'' = ''''"
    using get [of "''HOUSTON_API_KEY''"] get [of "''HOUSTON_PASSWORD''"] assms(2,3)
    by (simp_all add: plain_names_def)
  then show ?thesis
    using user by (simp add: token_missing NewHoustonClient_def create_and_store_def createToken_def)
qed

definition no_password :: "string \<Rightarrow> string" where
  "no_password k = (if k = ''ER_HOUSTON_API_KEY'' \<or> k = ''ER_HOUSTON_PASSWORD'' then '''' else ''x'')"

theorem password_not_required_witness:
  "\<exists>st out env. Initialize no_password True new_config = Inr (st, out)
    \<and> no_password ''ER_HOUSTON_USERNAME'' \<noteq> ''''
    \<and> GetAuthorizationToken env (NewHoustonClient env ''http://houston'', [] :: http_request list) =
       ((NewHoustonClient env ''http://houston'', []),
        Inl (With_Message (Error_String
          ''Houston username/password not provided, can't create new token'')
          ''Error getting authorization token''))"
proof -
  have "list_all (\<lambda>k. no_password (''ER_'' @ k) \<noteq> '''') (requiredEnvs @ (if True then retryRequiredEnvs else []))"
    by (simp add: requiredEnvs_def retryRequiredEnvs_def no_password_def)
  moreover have "no_password ''ER_HOUSTON_USERNAME'' \<noteq> ''''"
    by (simp add: no_password_def)
  ultimately obtain st out where init: "Initialize no_password True new_config = Inr (st, out)"
    using Initialize_iff [of no_password True] by blast
  have env: "cfg_string (replying_env 5 (GetString no_password st) sample_verify sample_create
      sample_sources) = GetString no_password st"
    by (simp add: replying_env_def)
  have "no_password ''ER_HOUSTON_API_KEY'' = ''''" "no_password ''ER_HOUSTON_PASSWORD'' = ''''"
    by (simp_all add: no_password_def)
  from password_not_required [OF init this env] init show ?thesis by blast
qed

end
