(* ===== verification/Commands.thy ===== *)
theory Commands
  imports Config Producer_Events
begin

text \<open>
  The commands \<open>start\<close> and \<open>mock\<close> (\<open>cmd/root.go\<close>, \<open>cmd/start.go\<close>, \<open>cmd/mock.go\<close>) and the web server of
  \<open>api/api.go\<close>: the flags and the variables behind them, the parsing of the mock's argument, the
  settings with which the producer and the dead letter queue are made, and the address of the server, its
  routes and its answers. What the two commands make of these, and the goroutines, are in \<open>Program\<close> and
  \<open>Mock_Program\<close>.
\<close>

section \<open>Flags\<close>

text \<open>
  A flag of \<open>cobra\<close>, by its name, the variable of the package it is bound to, and its default, whose
  constructor is the type of the flag. The shorthands of two flags are left out.
\<close>

datatype flag_value = Bool_Value bool | String_Value string | Int_Value int

record flag =
  flag_name :: string
  flag_var :: string
  flag_default :: flag_value

type_synonym vars = "string \<Rightarrow> flag_value"

definition on :: "vars \<Rightarrow> string \<Rightarrow> bool" where
  "on vs v \<longleftrightarrow> vs v = Bool_Value True"

fun text_of :: "flag_value \<Rightarrow> string" where
  "text_of (String_Value s) = s"
| "text_of _ = ''''"

fun int_of :: "flag_value \<Rightarrow> int" where
  "int_of (Int_Value i) = i"
| "int_of _ = 0"

datatype command = Start_Cmd | Mock_Cmd

abbreviation mk_flag :: "string \<Rightarrow> string \<Rightarrow> flag_value \<Rightarrow> flag" where
  "mk_flag n v d \<equiv> \<lparr>flag_name = n, flag_var = v, flag_default = d\<rparr>"

definition mock_flags :: "flag list" where
  "mock_flags =
     [mk_flag ''cassandra-servers'' ''cassandraServers'' (String_Value ''''),
      mk_flag ''enable-cassandra'' ''cassandraEnabled'' (Bool_Value False),
      mk_flag ''replication-factor'' ''cassandraReplicationFactor'' (Int_Value 1),
      mk_flag ''cassandra-table'' ''cassandraTable'' (String_Value ''''),
      mk_flag ''run-id'' ''runID'' (Int_Value 0),
      mk_flag ''cassandra-keyspace'' ''cassandraKeyspace'' (String_Value ''mock''),
      mk_flag ''retry'' ''EnableRetry'' (Bool_Value False),
      mk_flag ''disable-sse'' ''DisableSSE'' (Bool_Value True)]"

definition root_flags :: "flag list" where
  "root_flags = [mk_flag ''disable-sse'' ''DisableSSE'' (Bool_Value False)]"

definition start_flags :: "flag list" where
  "start_flags =
     [mk_flag ''retry'' ''EnableRetry'' (Bool_Value False),
      mk_flag ''disable-cache-ttl'' ''DisableCacheTTL'' (Bool_Value False),
      mk_flag ''pprof'' ''StartPPROF'' (Bool_Value False),
      mk_flag ''profile'' ''StartProfile'' (String_Value ''''),
      mk_flag ''trace'' ''StartTrace'' (String_Value ''''),
      mk_flag ''kafka-debug'' ''KafkaDebug'' (Bool_Value False)]"

text \<open>
  \<open>BoolVar\<close>, \<open>StringVar\<close> and their like store the default in the variable. The \<open>init\<close> functions of a
  package run in the order in which its files are given to the compiler, which the \<open>go\<close> command sorts
  by name: \<open>mock.go\<close>, \<open>root.go\<close>, \<open>start.go\<close>.
\<close>

definition BoolVar :: "flag \<Rightarrow> vars \<Rightarrow> vars" where
  "BoolVar f vs = vs(flag_var f := flag_default f)"

definition package_init :: vars where
  "package_init = fold BoolVar (mock_flags @ root_flags @ start_flags) (\<lambda>v. Bool_Value False)"

text \<open>A command has its own flags and, for the names it does not define, those of the root command.\<close>

definition command_flags :: "command \<Rightarrow> flag list" where
  "command_flags cmd = (case cmd of Start_Cmd \<Rightarrow> start_flags | Mock_Cmd \<Rightarrow> mock_flags) @ root_flags"

fun same_type :: "flag_value \<Rightarrow> flag_value \<Rightarrow> bool" where
  "same_type (Bool_Value b) (Bool_Value b') = True"
| "same_type (String_Value b) (String_Value b') = True"
| "same_type (Int_Value b) (Int_Value b') = True"
| "same_type _ _ = False"

text \<open>A flag that is not known, or a value that is not of its type, is an error.\<close>

fun parse_flags :: "flag list \<Rightarrow> (string \<times> flag_value) list \<Rightarrow> vars \<Rightarrow> vars option" where
  "parse_flags fs [] vs = Some vs"
| "parse_flags fs ((n, b) # given) vs =
     (case find (\<lambda>f. flag_name f = n) fs of
        None \<Rightarrow> None
      | Some f \<Rightarrow>
          if same_type (flag_default f) b then parse_flags fs given (vs(flag_var f := b)) else None)"


section \<open>The argument of mock\<close>

text \<open>No argument ends the program; a part without a colon has no \<open>value[1]\<close>.\<close>

fun read_integrations :: "string list \<Rightarrow> strmap \<Rightarrow> strmap outcome" where
  "read_integrations [] values = Returned values"
| "read_integrations (part # rest) values =
     (case split_on (CHR '':'') part of
        name # code # _ \<Rightarrow> read_integrations rest (values(name \<mapsto> code))
      | _ \<Rightarrow> Panicked ''index out of range'')"

definition mock_integrations :: "string list \<Rightarrow> strmap option outcome" where
  "mock_integrations args =
     (case args of
        [] \<Rightarrow> Returned None
      | arg # _ \<Rightarrow>
          and_then (read_integrations (split_on (CHR '','') arg) Map.empty) (\<lambda>values. Returned (Some values)))"


section \<open>Settings\<close>

text \<open>What \<open>start\<close> sets in the configuration from the flags; \<open>mock\<close> sets nothing.\<close>

definition start_settings :: "vars \<Rightarrow> config_state \<Rightarrow> config_state" where
  "start_settings vs st =
     (let st = (if on vs ''DisableCacheTTL'' then SetBool ''DISABLE_CACHE_TTL'' True st else st);
          st = SetBool ''KAFKA_DEBUG'' (on vs ''KafkaDebug'') st
      in SetBool ''RETRY'' (on vs ''EnableRetry'') st)"

definition start_producer_config :: "(string \<Rightarrow> string) \<Rightarrow> config_state \<Rightarrow> producer_config" where
  "start_producer_config getenv st =
     \<lparr>pc_BootstrapServers = GetString getenv st ''KAFKA_BROKERS'', pc_GroupID = '''',
      pc_MessageTimeout = GetInt getenv st ''KAFKA_PRODUCER_MESSAGE_TIMEOUT_MS'',
      pc_FlushTimeout = GetInt getenv st ''KAFKA_PRODUCER_FLUSH_TIMEOUT_MS'',
      pc_Cassandra = None, pc_CassandraEnabled = False,
      pc_RetryTopic = GetString getenv st ''KAFKA_RETRY_TOPIC'',
      pc_RetryS3Bucket = GetString getenv st ''CLICKSTREAM_RETRY_S3_BUCKET'',
      pc_S3PathPrefix = GetString getenv st ''CLICKSTREAM_RETRY_S3_PATH_PREFIX'',
      pc_MasterTopic = GetString getenv st ''KAFKA_INGESTION_TOPIC''\<rparr>"

definition start_deadletter :: "vars \<Rightarrow> (string \<Rightarrow> string) \<Rightarrow> config_state \<Rightarrow> DeadletterConfig option" where
  "start_deadletter vs getenv st =
     (if on vs ''EnableRetry''
      then Some \<lparr>dc_FlushTimeout = word_of_int (GetInt64 getenv st ''CLICKSTREAM_RETRY_FLUSH_TIMEOUT_MIN''),
                 dc_QueueSize = GetInt64 getenv st ''CLICKSTREAM_RETRY_MAX_QUEUE'',
                 dc_S3Bucket = GetString getenv st ''CLICKSTREAM_RETRY_S3_BUCKET''\<rparr>
      else None)"

text \<open>The checks of \<open>mock\<close> before it connects to Cassandra; an error ends the program.\<close>

definition mock_cassandra :: "vars \<Rightarrow> cassandra_configs option result" where
  "mock_cassandra vs =
     (if \<not> on vs ''cassandraEnabled'' then Inr None
      else if length (text_of (vs ''cassandraServers'')) = 0
      then Inl (Error_String ''--cassandra-servers required when cassandra is enabled'')
      else if length (text_of (vs ''cassandraTable'')) = 0
      then Inl (Error_String ''--cassandra-table required when cassandra is enabled'')
      else if int_of (vs ''runID'') = 0
      then Inl (Error_String ''--run-id required when cassandra is enabled'')
      else Inr (Some \<lparr>Servers = split_on (CHR '','') (text_of (vs ''cassandraServers'')),
                      Keyspace = text_of (vs ''cassandraKeyspace''),
                      ReplicationFactor = int_of (vs ''cassandraReplicationFactor''),
                      MessageTableName = text_of (vs ''cassandraTable''), Consistency = 0,
                      RunID = int_of (vs ''runID'')\<rparr>))"

definition mock_producer_config ::
    "(string \<Rightarrow> string) \<Rightarrow> config_state \<Rightarrow> bool \<Rightarrow> cassandra_client option \<Rightarrow> producer_config" where
  "mock_producer_config getenv st enabled client =
     \<lparr>pc_BootstrapServers = GetString getenv st ''KAFKA_BROKERS'', pc_GroupID = '''',
      pc_MessageTimeout = GetInt getenv st ''KAFKA_PRODUCER_MESSAGE_TIMEOUT_MS'', pc_FlushTimeout = 0,
      pc_Cassandra = client, pc_CassandraEnabled = enabled, pc_RetryTopic = '''',
      pc_RetryS3Bucket = GetString getenv st ''CLICKSTREAM_RETRY_S3_BUCKET'',
      pc_S3PathPrefix = GetString getenv st ''CLICKSTREAM_RETRY_S3_PATH_PREFIX'',
      pc_MasterTopic = ''''\<rparr>"


section \<open>The web server\<close>

datatype route_handler = Prom_Handler | Integrations_Handler

definition Register :: "route_handler \<Rightarrow> string" where
  "Register h = (case h of Prom_Handler \<Rightarrow> ''/metrics'' | Integrations_Handler \<Rightarrow> ''/integrations'')"

definition AppendRouteHandler :: "route_handler \<Rightarrow> route_handler list \<Rightarrow> route_handler list" where
  "AppendRouteHandler rh handlers = handlers @ [rh]"

text \<open>
  \<open>Serve\<close> up to the start of the server: the routes it answers, those of the profiler apart, and its
  address. \<open>port[0]\<close> of an empty text is out of range.
\<close>

definition Serve :: "route_handler list \<Rightarrow> string \<Rightarrow> (string list \<times> string) outcome" where
  "Serve handlers port =
     (case port of
        [] \<Rightarrow> Panicked ''index out of range''
      | c # _ \<Rightarrow>
          Returned (map Register handlers @ [''/health''], if c \<noteq> CHR '':'' then '':'' @ port else port))"

text \<open>
  The answer to a request: the state of the cache as it is, the metrics as the library renders them, or the
  text of \<open>/health\<close>; gin answers every other path with 404.
\<close>

datatype response =
  Text_Response int string | Json_Response int string "string \<rightharpoonup> strmap option" | Metrics_Response | Not_Found

definition getIntegrations :: "'h integrations \<Rightarrow> response" where
  "getIntegrations i = Json_Response 200 ''integrations'' (GetAllIntegrations i)"

definition handle_request :: "route_handler list \<Rightarrow> 'h integrations \<Rightarrow> string \<Rightarrow> response" where
  "handle_request handlers i path =
     (if path = ''/health'' then Text_Response 200 ''OK''
      else
        (case find (\<lambda>h. Register h = path) handlers of
           None \<Rightarrow> Not_Found
         | Some Prom_Handler \<Rightarrow> Metrics_Response
         | Some Integrations_Handler \<Rightarrow> getIntegrations i))"

lemma Register_inj: "Register h = Register h' \<longleftrightarrow> h = h'"
  by (cases h; cases h'; simp add: Register_def)

text \<open>The routes of the server are the paths that are answered.\<close>

lemma routes_answered:
  assumes "Serve handlers port = Returned (routes, address)"
  shows "path \<in> set routes \<longleftrightarrow> handle_request handlers i path \<noteq> Not_Found"
proof -
  have routes: "set routes = insert ''/health'' (Register ` set handlers)"
    using assms by (auto simp: Serve_def split: list.splits if_splits)
  show ?thesis
  proof (cases "find (\<lambda>h. Register h = path) handlers")
    case None
    then have "path \<notin> Register ` set handlers" by (auto simp: find_None_iff)
    with None show ?thesis by (simp add: routes handle_request_def)
  next
    case (Some h)
    then have "h \<in> set handlers" "Register h = path" by (auto simp: find_Some_iff)
    with Some show ?thesis
      by (auto simp: routes handle_request_def getIntegrations_def split: route_handler.splits)
  qed
qed

section \<open>What the commands make of their input\<close>

lemma parse_flags_keeps:
  assumes "parse_flags fs given vs = Some vs'"
    and "\<forall>f \<in> set fs. flag_var f = v \<longrightarrow> flag_name f \<notin> set (map fst given)"
  shows "vs' v = vs v"
  using assms
proof (induction fs given vs rule: parse_flags.induct)
  case (1 fs vs)
  then show ?case by simp
next
  case (2 fs n b given vs)
  then obtain f where find: "find (\<lambda>f. flag_name f = n) fs = Some f"
    and ok: "same_type (flag_default f) b"
    and rest: "parse_flags fs given (vs(flag_var f := b)) = Some vs'"
    by (auto split: option.splits if_splits)
  from find have "f \<in> set fs" "flag_name f = n" by (auto simp: find_Some_iff)
  with 2(3) have "flag_var f \<noteq> v" by auto
  with 2(1) [OF find ok rest] 2(3) show ?case by simp
qed

lemma split_on_join:
  assumes "\<forall>x \<in> set xs. c \<notin> set x" "xs \<noteq> []"
  shows "split_on c (join [c] xs) = xs"
  using assms
proof (induction xs)
  case (Cons x xs)
  then show ?case
    by (cases "xs = []") (simp_all add: join_Cons split_on_append split_on_absent)
qed simp

definition integration_part :: "string \<times> string \<Rightarrow> string" where
  "integration_part e = fst e @ CHR '':'' # snd e"

lemma read_integrations_parts:
  assumes "\<forall>e \<in> set es. CHR '':'' \<notin> set (fst e) \<and> CHR '':'' \<notin> set (snd e)"
  shows "read_integrations (map integration_part es) m = Returned (m ++ map_of (rev es))"
  using assms
proof (induction es arbitrary: m)
  case (Cons e es)
  then show ?case
    by (simp add: integration_part_def split_on_append split_on_absent map_add_def fun_eq_iff
        split: option.splits)
qed simp

lemma start_settings_simps:
  "GetBool getenv (start_settings vs st) ''RETRY'' = on vs ''EnableRetry''"
  by (simp add: start_settings_def SetBool_def GetBool_def viper_Set_def viper_Get_def viper_find_def
      ToBool_def Let_def)

text \<open>The other settings are those of the configuration.\<close>

lemma mergeWithEnvPrefix_override [simp]:
  "mergeWithEnvPrefix (v\<lparr>override := m\<rparr>) = mergeWithEnvPrefix v"
  by (simp add: mergeWithEnvPrefix_def fun_eq_iff)

lemma SetBool_other:
  "to_lower k \<noteq> to_lower j \<Longrightarrow> GetString getenv (SetBool j b st) k = GetString getenv st k"
  by (cases "override (cfg_viper st) (to_lower k)")
    (simp_all add: SetBool_def GetString_def viper_Set_def viper_Get_def viper_find_def)

definition set_by_start :: "string list" where
  "set_by_start = map to_lower [''DISABLE_CACHE_TTL'', ''KAFKA_DEBUG'', ''RETRY'']"

lemma start_settings_other:
  "to_lower k \<notin> set set_by_start \<Longrightarrow> GetString getenv (start_settings vs st) k = GetString getenv st k"
  by (simp add: start_settings_def set_by_start_def SetBool_other Let_def)

lemma not_set_by_start:
  "\<not> List.member set_by_start (to_lower ''SERVE_PORT'')"
  "\<not> List.member set_by_start (to_lower ''KAFKA_RETRY_TOPIC'')"
  by code_simp+

lemmas start_settings_strings =
  not_set_by_start [unfolded List.member_iff, THEN start_settings_other]

lemma default_port: "defaults configured (to_lower ''SERVE_PORT'') = Some (String_Setting ''8080'')"
  by code_simp

lemma configured_port:
  assumes "cfg_viper st = configured"
  shows "GetString getenv st ''SERVE_PORT'' \<noteq> ''''"
  using assms default_port
  by (simp add: GetString_def viper_Get_def viper_find_def ToString_def)

section \<open>Properties\<close>

text \<open>The mock command, whose help says that the SSE client is disabled by default, starts it unless
  the flag is given: the root command's flag of the same name is bound to the same variable, and
  its default is stored later.\<close>

theorem mock_enables_sse:
  assumes "parse_flags (command_flags Mock_Cmd) given package_init = Some vs"
    and "''disable-sse'' \<notin> set (map fst given)"
  shows "\<not> on vs ''DisableSSE''"
proof -
  have "vs ''DisableSSE'' = package_init ''DisableSSE''"
    by (rule parse_flags_keeps [OF assms(1)])
      (use assms(2) in \<open>auto simp: command_flags_def mock_flags_def root_flags_def\<close>)
  then show ?thesis
    by (simp add: package_init_def mock_flags_def root_flags_def start_flags_def BoolVar_def on_def)
qed

theorem mock_enables_sse_witness:
  "\<exists>vs. parse_flags (command_flags Mock_Cmd) [(''retry'', Bool_Value True)] package_init = Some vs
    \<and> on vs ''EnableRetry'' \<and> \<not> on vs ''DisableSSE''"
proof -
  let ?vs = "package_init(''EnableRetry'' := Bool_Value True)"
  have "parse_flags (command_flags Mock_Cmd) [(''retry'', Bool_Value True)] package_init = Some ?vs"
    by (simp add: command_flags_def mock_flags_def root_flags_def)
  from this mock_enables_sse [OF this] show ?thesis by (simp add: on_def)
qed

text \<open>The argument of mock, names and codes separated by colons and the pairs by commas, is read as
  the map of its pairs, the last of a name winning, when no name or code has a separator in it.\<close>

theorem mock_argument_read:
  assumes "es \<noteq> []"
    and "\<forall>(n, c) \<in> set es. {CHR '':'', CHR '',''} \<inter> (set n \<union> set c) = {}"
  shows "mock_integrations [join '','' (map (\<lambda>(n, c). n @ '':'' @ c) es)] = Returned (Some (map_of (rev es)))"
proof -
  have parts: "map (\<lambda>(n, c). n @ '':'' @ c) es = map integration_part es"
    by (simp add: integration_part_def split_def)
  have "\<forall>x \<in> set (map integration_part es). CHR '','' \<notin> set x"
    using assms(2) by (auto simp: integration_part_def)
  then have "split_on (CHR '','') (join '','' (map integration_part es)) = map integration_part es"
    using assms(1) by (intro split_on_join) simp_all
  moreover have "\<forall>e \<in> set es. CHR '':'' \<notin> set (fst e) \<and> CHR '':'' \<notin> set (snd e)"
    using assms(2) by auto
  ultimately show ?thesis
    unfolding parts by (simp add: mock_integrations_def read_integrations_parts)
qed

theorem mock_argument_read_witness:
  "mock_integrations [''S3 Event Logs:s3-event-logs,GA:ga''] =
     Returned (Some [''S3 Event Logs'' \<mapsto> ''s3-event-logs'', ''GA'' \<mapsto> ''ga''])"
  using mock_argument_read [of "[(''S3 Event Logs'', ''s3-event-logs''), (''GA'', ''ga'')]"]
  by (simp add: fun_upd_twist)

text \<open>In start the retry setting is on exactly when the producer is given a dead letter queue, whatever
  the environment says, so a failed delivery never meets a nil client there.\<close>

theorem start_retry_has_client:
  "GetBool getenv (start_settings vs st) ''RETRY'' \<longleftrightarrow> start_deadletter vs getenv (start_settings vs st) \<noteq> None"
  by (simp add: start_settings_simps start_deadletter_def)

text \<open>In mock nothing sets the retry setting, and no dead letter queue is made: with ER_RETRY set in the
  environment the first failed delivery dereferences a nil pointer.\<close>

theorem mock_retry_panics:
  assumes "Initialize getenv enableRetry new_config = Inr (st, out)" "getenv ''ER_RETRY'' = ''true''"
    and "deadletter p = None" "decode value = Inr dat" "value \<noteq> []"
  shows "handle_event (mock_producer_config getenv st enabled client) driver decode
      (GetBool getenv st ''RETRY'') dl_add flushed (Delivery_Report (Some err) (Some (addr, t)) value) p =
    Panicked ''nil pointer dereference''"
proof -
  have "cfg_viper st = configured"
    using assms(1) by (auto simp: Initialize_new Let_def split: option.splits)
  moreover have "env_name ''RETRY''" "''RETRY'' \<notin> set default_names"
    by (simp_all add: env_name_def is_upper_def default_names_def)
  ultimately have "GetBool getenv st ''RETRY''"
    using configured_get [of "''RETRY''" getenv] assms(2)
    by (simp add: GetBool_def ToBool_def parse_bool_def)
  then show ?thesis
    using assms(3-5)
    by (simp add: handle_event_failed add_failed_def accepted_def deadletter_key_def contains_byte_def)
qed

definition retry_env :: "string \<Rightarrow> string" where
  "retry_env k = (if k = ''ER_RETRY'' then ''true'' else ''x'')"

text \<open>Once the configuration has been accepted, start gives the server an address it can listen on,
  a colon and a port, and the producer a retry topic and no Cassandra client to miss.\<close>

theorem start_is_ready:
  assumes "Initialize getenv enableRetry new_config = Inr (st, out)"
  shows "(\<exists>addr. Serve handlers (GetString getenv (start_settings vs st) ''SERVE_PORT'') =
        Returned (map Register handlers @ [''/health''], CHR '':'' # addr))
    \<and> pc_RetryTopic (start_producer_config getenv (start_settings vs st)) \<noteq> ''''
    \<and> cassandra_ready (start_producer_config getenv (start_settings vs st))"
proof -
  have v: "cfg_viper st = configured"
    and req: "getenv ''ER_KAFKA_RETRY_TOPIC'' \<noteq> ''''"
    using assms Initialize_iff [of getenv enableRetry]
    by (auto simp: Initialize_new requiredEnvs_def Let_def split: option.splits)
  have "GetString getenv st ''KAFKA_RETRY_TOPIC'' = getenv ''ER_KAFKA_RETRY_TOPIC''"
    using plain_string [of "''KAFKA_RETRY_TOPIC''" st getenv] v by (simp add: plain_names_def requiredEnvs_def)
  then have topic: "GetString getenv (start_settings vs st) ''KAFKA_RETRY_TOPIC'' \<noteq> ''''"
    using req by (simp add: start_settings_strings)
  have "GetString getenv (start_settings vs st) ''SERVE_PORT'' \<noteq> ''''"
    using v by (simp add: start_settings_strings configured_port)
  then obtain c port where port: "GetString getenv (start_settings vs st) ''SERVE_PORT'' = c # port"
    by (cases "GetString getenv (start_settings vs st) ''SERVE_PORT''") auto
  with topic show ?thesis
    by (simp add: Serve_def start_producer_config_def cassandra_ready_def)
qed

theorem start_is_ready_witness:
  "\<exists>st addr. Serve [Prom_Handler, Integrations_Handler]
      (GetString retry_env (start_settings (\<lambda>v. Bool_Value False) st) ''SERVE_PORT'') =
      Returned ([''/metrics'', ''/integrations'', ''/health''], CHR '':'' # addr)
    \<and> pc_RetryTopic (start_producer_config retry_env (start_settings (\<lambda>v. Bool_Value False) st)) \<noteq> ''''"
proof -
  have "list_all (\<lambda>k. retry_env (''ER_'' @ k) \<noteq> '''') (requiredEnvs @ (if False then retryRequiredEnvs else []))"
    by (simp add: requiredEnvs_def retry_env_def)
  moreover have "retry_env ''ER_HOUSTON_API_KEY'' \<noteq> ''''"
    by (simp add: retry_env_def)
  ultimately obtain st out where init: "Initialize retry_env False new_config = Inr (st, out)"
    using Initialize_iff [of retry_env False] by blast
  from start_is_ready [OF init, of "[Prom_Handler, Integrations_Handler]" "\<lambda>v. Bool_Value False"]
  show ?thesis by (auto simp: Register_def)
qed

end
