(* ===== verification/Json_Lexer.thy ===== *)
theory Json_Lexer
  imports Go_Prelude
begin

text \<open>
  The JSON lexer that the generated decoder of messages works with
  (\<open>vendor/github.com/mailru/easyjson/jlexer\<close>), as far as the decoder uses it. A lexer is the data, a
  position, the last token with its value, and the first error; the fields of the token are fields of
  the lexer here. The byte 0 stands for no separator and no delimiter, as in the code.

  Every slice expression whose bounds are not tested where it stands is one that may panic. The
  collecting of several errors is off, as it is for this decoder.
\<close>

datatype token_kind = Token_Undef | Token_Delim | Token_String | Token_Number | Token_Bool | Token_Null

record lexer =
  lx_data :: bytes
  lx_start :: nat
  lx_pos :: nat
  lx_kind :: token_kind
  lx_bool :: bool
  lx_bytes :: bytes
  lx_delim :: char
  lx_first :: bool
  lx_sep :: char
  lx_fatal :: "go_error option"

definition new_lexer :: "bytes \<Rightarrow> lexer" where
  "new_lexer data =
     \<lparr>lx_data = data, lx_start = 0, lx_pos = 0, lx_kind = Token_Undef, lx_bool = False, lx_bytes = [],
      lx_delim = CHR 0x00, lx_first = False, lx_sep = CHR 0x00, lx_fatal = None\<rparr>"

definition slice :: "nat \<Rightarrow> nat \<Rightarrow> bytes \<Rightarrow> bytes outcome" where
  "slice a b xs =
     (if a \<le> b \<and> b \<le> length xs then Returned (take (b - a) (drop a xs))
      else Panicked ''slice bounds out of range'')"


section \<open>Errors\<close>

definition lexer_error :: "string \<Rightarrow> nat \<Rightarrow> bytes \<Rightarrow> go_error" where
  "lexer_error reason offset data =
     Error_String (''parse error: '' @ reason @ '' near offset '' @ format_nat offset @ '' of ''
       @ [CHR 0x27] @ data @ [CHR 0x27])"

definition max_error_context_len :: nat where
  "max_error_context_len = 13"

definition errParse :: "string \<Rightarrow> lexer \<Rightarrow> lexer" where
  "errParse what r =
     (if lx_fatal r \<noteq> None then r
      else r\<lparr>lx_fatal := Some (lexer_error what (lx_pos r)
        (if length (lx_data r) \<le> lx_pos r + max_error_context_len then lx_data r
         else take (max_error_context_len - 3) (drop (lx_pos r) (lx_data r)) @ ''...''))\<rparr>)"

definition errSyntax :: "lexer \<Rightarrow> lexer" where
  "errSyntax r = errParse ''syntax error'' r"

definition errInvalidToken :: "string \<Rightarrow> lexer \<Rightarrow> lexer" where
  "errInvalidToken expected r =
     (if lx_fatal r \<noteq> None then r
      else r\<lparr>lx_fatal := Some (lexer_error (''expected '' @ expected) (lx_pos r)
        (if length (lx_bytes r) \<le> max_error_context_len then lx_bytes r
         else take (max_error_context_len - 3) (lx_bytes r) @ ''...''))\<rparr>)"

definition AddError :: "go_error \<Rightarrow> lexer \<Rightarrow> lexer" where
  "AddError e r = (if lx_fatal r = None then r\<lparr>lx_fatal := Some e\<rparr> else r)"


section \<open>Characters\<close>

definition code :: "char \<Rightarrow> nat" where
  "code c = of_char c"

definition is_white :: "char \<Rightarrow> bool" where
  "is_white c \<longleftrightarrow> c = CHR '' '' \<or> c = CHR 0x09 \<or> c = CHR 0x0D \<or> c = CHR 0x0A"

definition isTokenEnd :: "char \<Rightarrow> bool" where
  "isTokenEnd c \<longleftrightarrow>
     is_white c \<or> c = CHR ''['' \<or> c = CHR '']'' \<or> c = CHR ''{'' \<or> c = CHR ''}'' \<or> c = CHR '','' \<or> c = CHR '':''"

definition is_digit_char :: "char \<Rightarrow> bool" where
  "is_digit_char c \<longleftrightarrow> 48 \<le> code c \<and> code c \<le> 57"

text \<open>\<open>utf8.EncodeRune\<close>: what is not a character becomes the replacement character.\<close>

definition EncodeRune :: "nat \<Rightarrow> bytes" where
  "EncodeRune r =
     (let r = (if 0x10FFFF < r \<or> 0xD800 \<le> r \<and> r < 0xE000 then 0xFFFD else r)
      in if r < 0x80 then [char_of r]
         else if r < 0x800 then [char_of (0xC0 + r div 64), char_of (0x80 + r mod 64)]
         else if r < 0x10000
         then [char_of (0xE0 + r div 4096), char_of (0x80 + r div 64 mod 64), char_of (0x80 + r mod 64)]
         else [char_of (0xF0 + r div 262144), char_of (0x80 + r div 4096 mod 64),
               char_of (0x80 + r div 64 mod 64), char_of (0x80 + r mod 64)])"

definition hex_value :: "char \<Rightarrow> nat option" where
  "hex_value c =
     (let n = code c
      in if 48 \<le> n \<and> n \<le> 57 then Some (n - 48)
         else if 97 \<le> n \<and> n \<le> 102 then Some (n - 97 + 10)
         else if 65 \<le> n \<and> n \<le> 70 then Some (n - 65 + 10)
         else None)"

text \<open>\<open>None\<close> is the answer -1.\<close>

fun getu4 :: "bytes \<Rightarrow> nat option" where
  "getu4 (b # u # c1 # c2 # c3 # c4 # _) =
     (if b \<noteq> CHR 0x5C \<or> u \<noteq> CHR ''u'' then None
      else (case (hex_value c1, hex_value c2, hex_value c3, hex_value c4) of
              (Some v1, Some v2, Some v3, Some v4) \<Rightarrow> Some (((v1 * 16 + v2) * 16 + v3) * 16 + v4)
            | _ \<Rightarrow> None))"
| "getu4 _ = None"

definition IsSurrogate :: "nat \<Rightarrow> bool" where
  "IsSurrogate r \<longleftrightarrow> 0xD800 \<le> r \<and> r < 0xE000"

definition DecodeSurrogates :: "nat \<Rightarrow> nat option \<Rightarrow> nat" where
  "DecodeSurrogates r1 r2 =
     (case r2 of
        None \<Rightarrow> 0xFFFD
      | Some r2 \<Rightarrow>
          if 0xD800 \<le> r1 \<and> r1 < 0xDC00 \<and> 0xDC00 \<le> r2 \<and> r2 < 0xE000
          then (r1 - 0xD800) * 1024 + (r2 - 0xDC00) + 0x10000
          else 0xFFFD)"


section \<open>String literals\<close>

text \<open>
  \<open>findStringLen\<close> at index \<open>i\<close>, with the number \<open>delta\<close> of bytes that the escapes seen will save, for
  data of length \<open>n\<close>.
\<close>

fun findStringLen :: "nat \<Rightarrow> bytes \<Rightarrow> nat \<Rightarrow> nat \<Rightarrow> bool \<times> int" where
  "findStringLen n [] i delta = (False, int n)"
| "findStringLen n (c # cs) i delta =
     (if c = CHR 0x5C
      then (case cs of
              [] \<Rightarrow> (False, int n)
            | d # ds \<Rightarrow> findStringLen n ds (i + 2) (delta + (if d = CHR ''u'' then 2 else 1)))
      else if c = CHR 0x22 then (delta > 0, int i - int delta)
      else findStringLen n cs (i + 1) delta)"

text \<open>\<open>processEscape\<close>: what is appended and how many bytes are read, or the text of an error.\<close>

definition processEscape :: "bytes \<Rightarrow> string + (bytes \<times> nat)" where
  "processEscape data =
     (if length data < 2 then Inl (''syntax error at '' @ data)
      else
        (let c = data ! 1
         in if c = CHR 0x22 \<or> c = CHR ''/'' \<or> c = CHR 0x5C then Inr ([c], 2)
            else if c = CHR ''b'' then Inr ([CHR 0x08], 2)
            else if c = CHR ''f'' then Inr ([CHR 0x0C], 2)
            else if c = CHR ''n'' then Inr ([CHR 0x0A], 2)
            else if c = CHR ''r'' then Inr ([CHR 0x0D], 2)
            else if c = CHR ''t'' then Inr ([CHR 0x09], 2)
            else if c = CHR ''u''
            then (case getu4 data of
                    None \<Rightarrow> Inl ''syntax error''
                  | Some rr \<Rightarrow>
                      if IsSurrogate rr
                      then (let dec = DecodeSurrogates rr (getu4 (drop 6 data))
                            in Inr (EncodeRune dec, if dec \<noteq> 0xFFFD then 12 else 6))
                      else Inr (EncodeRune rr, 6))
            else Inl ''syntax error''))"

datatype literal_end = Closed bytes nat | Escape_Error bytes string | Unterminated bytes

text \<open>
  The second loop of \<open>fetchString\<close>, on what is left from index \<open>i\<close>: \<open>acc\<close> is the value so far and
  \<open>segment\<close> the bytes since the last escape, not yet appended.
\<close>

function unescape :: "bytes \<Rightarrow> nat \<Rightarrow> bytes \<Rightarrow> bytes \<Rightarrow> literal_end" where
  "unescape [] i acc segment = Unterminated acc"
| "unescape (c # cs) i acc segment =
     (if c = CHR 0x22 then Closed (acc @ segment) i
      else if c = CHR 0x5C
      then (case processEscape (c # cs) of
              Inl err \<Rightarrow> Escape_Error (acc @ segment) err
            | Inr (bs, off) \<Rightarrow>
                unescape (drop (off - 1) cs) (i + off) (acc @ segment @ bs) [])
      else unescape cs (i + 1) acc (segment @ [c]))"
  by pat_completeness auto
termination by (relation "measure (\<lambda>(data, i, acc, segment). length data)") auto

definition fetchString :: "lexer \<Rightarrow> lexer outcome" where
  "fetchString r =
     (let r = r\<lparr>lx_pos := lx_pos r + 1\<rparr>
      in and_then (slice (lx_pos r) (length (lx_data r)) (lx_data r)) (\<lambda>data.
           let (hasEscapes, n) = findStringLen (length data) data 0 0
           in if n < 0 then Panicked ''makeslice: cap out of range''
              else if \<not> hasEscapes
              then and_then (slice 0 (nat n) data) (\<lambda>v.
                Returned (r\<lparr>lx_bytes := v, lx_pos := lx_pos r + nat n + 1\<rparr>))
              else (case unescape data 0 [] [] of
                      Closed v i \<Rightarrow> Returned (r\<lparr>lx_bytes := v, lx_pos := lx_pos r + i + 1\<rparr>)
                    | Escape_Error v err \<Rightarrow> Returned (errParse err (r\<lparr>lx_bytes := v\<rparr>))
                    | Unterminated v \<Rightarrow>
                        Returned (errParse ''unterminated string literal'' (r\<lparr>lx_bytes := v\<rparr>)))))"


section \<open>Keywords and numbers\<close>

text \<open>\<open>fetchNull\<close>, \<open>fetchTrue\<close>, \<open>fetchFalse\<close>: the bytes after the first, which chose the function.\<close>

definition fetch_keyword :: "string \<Rightarrow> lexer \<Rightarrow> lexer" where
  "fetch_keyword rest r =
     (let n = lx_pos r + length rest + 1
      in if n > length (lx_data r)
            \<or> take (length rest) (drop (lx_pos r + 1) (lx_data r)) \<noteq> rest
            \<or> (n \<noteq> length (lx_data r) \<and> \<not> isTokenEnd (lx_data r ! n))
         then errSyntax r else r\<lparr>lx_pos := n\<rparr>)"

text \<open>The first byte that does not continue the number, with its index.\<close>

fun number_end :: "bytes \<Rightarrow> nat \<Rightarrow> bool \<Rightarrow> bool \<Rightarrow> bool \<Rightarrow> (nat \<times> char) option" where
  "number_end [] i hasE afterE hasDot = None"
| "number_end (c # cs) i hasE afterE hasDot =
     (if is_digit_char c then number_end cs (i + 1) hasE False hasDot
      else if c = CHR ''.'' \<and> \<not> hasDot then number_end cs (i + 1) hasE afterE True
      else if (c = CHR ''e'' \<or> c = CHR ''E'') \<and> \<not> hasE then number_end cs (i + 1) True True True
      else if (c = CHR ''+'' \<or> c = CHR ''-'') \<and> afterE then number_end cs (i + 1) hasE False hasDot
      else Some (i, c))"

definition fetchNumber :: "lexer \<Rightarrow> lexer outcome" where
  "fetchNumber r =
     (let r = r\<lparr>lx_pos := lx_pos r + 1\<rparr>
      in and_then (slice (lx_pos r) (length (lx_data r)) (lx_data r)) (\<lambda>data.
           case number_end data 0 False False False of
             None \<Rightarrow>
               and_then (slice (lx_start r) (length (lx_data r)) (lx_data r)) (\<lambda>v.
                 Returned (r\<lparr>lx_pos := length (lx_data r), lx_bytes := v\<rparr>))
           | Some (i, c) \<Rightarrow>
               let r = r\<lparr>lx_pos := lx_pos r + i\<rparr>
               in if \<not> isTokenEnd c then Returned (errSyntax r)
                  else and_then (slice (lx_start r) (lx_pos r) (lx_data r)) (\<lambda>v.
                    Returned (r\<lparr>lx_bytes := v\<rparr>))))"

section \<open>Tokens\<close>

definition byte_at :: "lexer \<Rightarrow> char outcome" where
  "byte_at r =
     (if lx_pos r < length (lx_data r) then Returned (lx_data r ! lx_pos r)
      else Panicked ''index out of range'')"

definition sep_check :: "lexer \<Rightarrow> lexer" where
  "sep_check r = (if lx_sep r \<noteq> CHR 0x00 then errSyntax r else r)"

definition fetch_delim :: "lexer \<Rightarrow> lexer outcome" where
  "fetch_delim r =
     and_then (byte_at r) (\<lambda>c.
       Returned (r\<lparr>lx_kind := Token_Delim, lx_delim := c, lx_pos := lx_pos r + 1\<rparr>))"

text \<open>
  The loop of \<open>FetchToken\<close> over the bytes from the position on. A separator that is not wanted is an
  error and the loop goes on, with the position left behind.
\<close>

fun fetch_loop :: "bytes \<Rightarrow> lexer \<Rightarrow> lexer outcome" where
  "fetch_loop [] r = Returned (r\<lparr>lx_fatal := Some (Error_String ''EOF'')\<rparr>)"
| "fetch_loop (c # cs) r =
     (if c = CHR '':'' \<or> c = CHR '',''
      then
        (if lx_sep r = c
         then fetch_loop cs (r\<lparr>lx_pos := lx_pos r + 1, lx_start := lx_start r + 1, lx_sep := CHR 0x00\<rparr>)
         else fetch_loop cs (errSyntax r))
      else if is_white c
      then fetch_loop cs (r\<lparr>lx_pos := lx_pos r + 1, lx_start := lx_start r + 1\<rparr>)
      else if c = CHR 0x22 then fetchString ((sep_check r)\<lparr>lx_kind := Token_String\<rparr>)
      else if c = CHR ''{'' \<or> c = CHR ''['' then fetch_delim ((sep_check r)\<lparr>lx_first := True\<rparr>)
      else if c = CHR ''}'' \<or> c = CHR '']''
      then fetch_delim
        ((if \<not> lx_first r \<and> lx_sep r \<noteq> CHR '','' then errSyntax r else r)\<lparr>lx_sep := CHR 0x00\<rparr>)
      else if is_digit_char c \<or> c = CHR ''-''
      then fetchNumber ((sep_check r)\<lparr>lx_kind := Token_Number\<rparr>)
      else if c = CHR ''n''
      then Returned (fetch_keyword ''ull'' ((sep_check r)\<lparr>lx_kind := Token_Null\<rparr>))
      else if c = CHR ''t''
      then Returned (fetch_keyword ''rue'' ((sep_check r)\<lparr>lx_kind := Token_Bool, lx_bool := True\<rparr>))
      else if c = CHR ''f''
      then Returned (fetch_keyword ''alse'' ((sep_check r)\<lparr>lx_kind := Token_Bool, lx_bool := False\<rparr>))
      else Returned (errSyntax r))"

definition FetchToken :: "lexer \<Rightarrow> lexer outcome" where
  "FetchToken r =
     (let r = r\<lparr>lx_kind := Token_Undef, lx_start := lx_pos r\<rparr>
      in if length (lx_data r) < lx_pos r then Returned (errParse ''Unexpected end of data'' r)
         else fetch_loop (drop (lx_pos r) (lx_data r)) r)"


section \<open>What the decoder calls\<close>

definition scanToken :: "lexer \<Rightarrow> lexer outcome" where
  "scanToken r = (if lx_kind r \<noteq> Token_Undef \<or> lx_fatal r \<noteq> None then Returned r else FetchToken r)"

definition consume_token :: "lexer \<Rightarrow> lexer" where
  "consume_token r = r\<lparr>lx_kind := Token_Undef, lx_delim := CHR 0x00\<rparr>"

definition Delim :: "char \<Rightarrow> lexer \<Rightarrow> lexer outcome" where
  "Delim c r =
     and_then (scanToken r) (\<lambda>r.
       Returned (if lx_fatal r \<noteq> None \<or> lx_delim r \<noteq> c then errInvalidToken [c] (consume_token r)
                 else consume_token r))"

definition IsDelim :: "char \<Rightarrow> lexer \<Rightarrow> (bool \<times> lexer) outcome" where
  "IsDelim c r = and_then (scanToken r) (\<lambda>r. Returned (lx_fatal r \<noteq> None \<or> lx_delim r = c, r))"

definition IsNull :: "lexer \<Rightarrow> (bool \<times> lexer) outcome" where
  "IsNull r = and_then (scanToken r) (\<lambda>r. Returned (lx_fatal r = None \<and> lx_kind r = Token_Null, r))"

definition Skip :: "lexer \<Rightarrow> lexer outcome" where
  "Skip r = and_then (scanToken r) (\<lambda>r. Returned (consume_token r))"

text \<open>\<open>UnsafeString\<close> and \<open>String\<close>, which differ in the memory of their result only.\<close>

definition lexer_String :: "lexer \<Rightarrow> (string \<times> lexer) outcome" where
  "lexer_String r =
     and_then (scanToken r) (\<lambda>r.
       Returned (if lx_fatal r \<noteq> None \<or> lx_kind r \<noteq> Token_String
                 then ('''', errInvalidToken ''string'' r)
                 else (lx_bytes r, consume_token r)))"

definition lexer_Bool :: "lexer \<Rightarrow> (bool \<times> lexer) outcome" where
  "lexer_Bool r =
     and_then (scanToken r) (\<lambda>r.
       Returned (if lx_fatal r \<noteq> None \<or> lx_kind r \<noteq> Token_Bool
                 then (False, errInvalidToken ''bool'' r)
                 else (lx_bool r, consume_token r)))"

definition WantComma :: "lexer \<Rightarrow> lexer" where
  "WantComma r = r\<lparr>lx_sep := CHR '','', lx_first := False\<rparr>"

definition WantColon :: "lexer \<Rightarrow> lexer" where
  "WantColon r = r\<lparr>lx_sep := CHR '':'', lx_first := False\<rparr>"

definition IsStart :: "lexer \<Rightarrow> bool" where
  "IsStart r \<longleftrightarrow> lx_pos r = 0"

text \<open>
  The loop of \<open>SkipRecursive\<close>: the index of the delimiter that closes the level 0, if there is one.
\<close>

fun skip_loop :: "char \<Rightarrow> char \<Rightarrow> bytes \<Rightarrow> nat \<Rightarrow> nat \<Rightarrow> bool \<Rightarrow> bool \<Rightarrow> nat option" where
  "skip_loop b e [] i level inQuotes wasEscape = None"
| "skip_loop b e (c # cs) i level inQuotes wasEscape =
     (if c = b \<and> \<not> inQuotes then skip_loop b e cs (i + 1) (level + 1) inQuotes False
      else if c = e \<and> \<not> inQuotes
      then (if level - 1 = 0 then Some i else skip_loop b e cs (i + 1) (level - 1) inQuotes False)
      else if c = CHR 0x5C \<and> inQuotes then skip_loop b e cs (i + 1) level inQuotes (\<not> wasEscape)
      else if c = CHR 0x22 \<and> inQuotes then skip_loop b e cs (i + 1) level wasEscape False
      else if c = CHR 0x22 then skip_loop b e cs (i + 1) level True False
      else skip_loop b e cs (i + 1) level inQuotes False)"

definition skip_to :: "char \<Rightarrow> char \<Rightarrow> lexer \<Rightarrow> lexer outcome" where
  "skip_to b e r =
     (let r = consume_token r
      in and_then (slice (lx_pos r) (length (lx_data r)) (lx_data r)) (\<lambda>data.
           case skip_loop b e data 0 1 False False of
             Some i \<Rightarrow> Returned (r\<lparr>lx_pos := lx_pos r + i + 1\<rparr>)
           | None \<Rightarrow>
               Returned (r\<lparr>lx_pos := length (lx_data r),
                 lx_fatal := Some (lexer_error ''EOF reached while skipping array/object or token''
                   (length (lx_data r)) [])\<rparr>)))"

definition SkipRecursive :: "lexer \<Rightarrow> lexer outcome" where
  "SkipRecursive r =
     and_then (scanToken r) (\<lambda>r.
       if lx_delim r = CHR ''{'' then skip_to (CHR ''{'') (CHR ''}'') r
       else if lx_delim r = CHR ''['' then skip_to (CHR ''['') (CHR '']'') r
       else Returned (consume_token r))"

fun consumed_loop :: "bytes \<Rightarrow> lexer \<Rightarrow> lexer" where
  "consumed_loop [] r = r"
| "consumed_loop (c # cs) r =
     (if \<not> is_white c
      then AddError (lexer_error (''invalid character '' @ [CHR 0x27] @ EncodeRune (code c) @ [CHR 0x27]
          @ '' after top-level value'') (lx_pos r) (drop (lx_pos r) (lx_data r))) r
      else consumed_loop cs (r\<lparr>lx_pos := lx_pos r + 1, lx_start := lx_start r + 1\<rparr>))"

definition Consumed :: "lexer \<Rightarrow> lexer" where
  "Consumed r =
     (if length (lx_data r) < lx_pos r \<or> lx_fatal r \<noteq> None then r
      else consumed_loop (drop (lx_pos r) (lx_data r)) r)"

end
