(* ===== verification/Json_Tokens.thy ===== *)
theory Json_Tokens
  imports Json_Lexer
begin

text \<open>
  Properties of the lexer of \<open>Json_Lexer\<close>: a scan that gives a token gets ahead, which bounds the
  loops of the decoder, and no slice or index expression of the lexer is ever out of range.
\<close>

section \<open>What errors leave alone\<close>

lemma errParse_simps [simp]:
  "lx_data (errParse w r) = lx_data r" "lx_start (errParse w r) = lx_start r"
  "lx_pos (errParse w r) = lx_pos r" "lx_kind (errParse w r) = lx_kind r"
  "lx_delim (errParse w r) = lx_delim r" "lx_fatal (errParse w r) \<noteq> None"
  "\<exists>e. lx_fatal (errParse w r) = Some e"
  by (auto simp: errParse_def)

lemma errSyntax_simps [simp]:
  "lx_data (errSyntax r) = lx_data r" "lx_start (errSyntax r) = lx_start r"
  "lx_pos (errSyntax r) = lx_pos r" "lx_kind (errSyntax r) = lx_kind r"
  "lx_delim (errSyntax r) = lx_delim r" "lx_fatal (errSyntax r) \<noteq> None"
  "\<exists>e. lx_fatal (errSyntax r) = Some e"
  by (simp_all add: errSyntax_def)

lemma errInvalidToken_simps [simp]:
  "lx_data (errInvalidToken w r) = lx_data r" "lx_start (errInvalidToken w r) = lx_start r"
  "lx_pos (errInvalidToken w r) = lx_pos r" "lx_kind (errInvalidToken w r) = lx_kind r"
  "lx_delim (errInvalidToken w r) = lx_delim r" "lx_fatal (errInvalidToken w r) \<noteq> None"
  "\<exists>e. lx_fatal (errInvalidToken w r) = Some e"
  by (auto simp: errInvalidToken_def)

lemma sep_check_simps [simp]:
  "lx_data (sep_check r) = lx_data r" "lx_start (sep_check r) = lx_start r"
  "lx_pos (sep_check r) = lx_pos r" "lx_kind (sep_check r) = lx_kind r"
  "lx_delim (sep_check r) = lx_delim r" "lx_fatal (sep_check r) = None \<longleftrightarrow> lx_fatal r = None \<and> lx_sep r = CHR 0x00"
  by (simp_all add: sep_check_def)


section \<open>A token moves the position\<close>

text \<open>A scan keeps the data and, unless it ends in an error, gets ahead.\<close>

definition ahead :: "lexer \<Rightarrow> lexer \<Rightarrow> bool" where
  "ahead r r' \<longleftrightarrow> lx_data r' = lx_data r
     \<and> (lx_fatal r' = None \<longrightarrow> lx_fatal r = None \<and> lx_pos r < lx_pos r')"

lemma slice_Returned [simp]:
  "slice a b xs = Returned ys \<longleftrightarrow> a \<le> b \<and> b \<le> length xs \<and> ys = take (b - a) (drop a xs)"
  by (auto simp: slice_def)

lemma fetchString_ahead: "fetchString r = Returned r' \<Longrightarrow> ahead r r'"
  by (auto simp: fetchString_def ahead_def outcome_simps Let_def
      split: prod.splits if_splits literal_end.splits)

lemma fetchNumber_ahead: "fetchNumber r = Returned r' \<Longrightarrow> ahead r r'"
  by (auto simp: fetchNumber_def ahead_def outcome_simps Let_def split: option.splits if_splits)

lemma fetch_delim_ahead: "fetch_delim r = Returned r' \<Longrightarrow> ahead r r'"
  by (auto simp: fetch_delim_def ahead_def outcome_simps)

lemma fetch_keyword_ahead: "ahead r (fetch_keyword w r)"
  by (simp add: fetch_keyword_def ahead_def Let_def)

lemmas fetch_ahead = fetchString_ahead fetchNumber_ahead fetch_delim_ahead

lemma ahead_from:
  "ahead r' r'' \<Longrightarrow> lx_data r' = lx_data r \<Longrightarrow> lx_pos r \<le> lx_pos r' \<Longrightarrow>
   (lx_fatal r' = None \<Longrightarrow> lx_fatal r = None) \<Longrightarrow> ahead r r''"
  by (auto simp: ahead_def)


text \<open>The tokens: what \<open>fetch_loop\<close> does with a byte that is neither a separator nor white.\<close>

definition fetch_one :: "char \<Rightarrow> lexer \<Rightarrow> lexer outcome" where
  "fetch_one c r = fetch_loop [c] r"

lemma fetch_loop_one:
  "c \<noteq> CHR '':'' \<Longrightarrow> c \<noteq> CHR '','' \<Longrightarrow> \<not> is_white c \<Longrightarrow> fetch_loop (c # cs) r = fetch_one c r"
  by (simp add: fetch_one_def)

lemma fetch_one_form:
  assumes "c \<noteq> CHR '':''" "c \<noteq> CHR '',''" "\<not> is_white c"
  shows "fetch_one c r \<in>
    {fetchString ((sep_check r)\<lparr>lx_kind := Token_String\<rparr>), fetch_delim ((sep_check r)\<lparr>lx_first := True\<rparr>),
     fetch_delim ((if \<not> lx_first r \<and> lx_sep r \<noteq> CHR '','' then errSyntax r else r)\<lparr>lx_sep := CHR 0x00\<rparr>),
     fetchNumber ((sep_check r)\<lparr>lx_kind := Token_Number\<rparr>),
     Returned (fetch_keyword ''ull'' ((sep_check r)\<lparr>lx_kind := Token_Null\<rparr>)),
     Returned (fetch_keyword ''rue'' ((sep_check r)\<lparr>lx_kind := Token_Bool, lx_bool := True\<rparr>)),
     Returned (fetch_keyword ''alse'' ((sep_check r)\<lparr>lx_kind := Token_Bool, lx_bool := False\<rparr>)),
     Returned (errSyntax r)}"
proof -
  have if_in: "(if P then x else y) \<in> S" if "x \<in> S" "y \<in> S" for P S and x y :: "lexer outcome"
    using that by simp
  show ?thesis
    unfolding fetch_one_def fetch_loop.simps
    by (simp only: assms if_False simp_thms, (intro if_in; simp only: insert_iff simp_thms))
qed

lemma fetch_one_ahead:
  assumes "fetch_one c r = Returned r'" "c \<noteq> CHR '':''" "c \<noteq> CHR '',''" "\<not> is_white c"
  shows "ahead r r'"
proof -
  have from_r: "ahead r r'" if "ahead x r'" "lx_data x = lx_data r" "lx_pos x = lx_pos r"
      "lx_fatal x = None \<Longrightarrow> lx_fatal r = None" for x
    using that by (auto simp: ahead_def)
  from fetch_one_form [OF assms(2-4), of r] show ?thesis
    unfolding assms(1)
  proof (elim insertE emptyE)
    assume "Returned r' = fetchString ((sep_check r)\<lparr>lx_kind := Token_String\<rparr>)"
    from fetchString_ahead [OF this [symmetric]] show ?thesis by (rule from_r) simp_all
  next
    assume "Returned r' = fetch_delim ((sep_check r)\<lparr>lx_first := True\<rparr>)"
    from fetch_delim_ahead [OF this [symmetric]] show ?thesis by (rule from_r) simp_all
  next
    assume "Returned r' = fetch_delim
      ((if \<not> lx_first r \<and> lx_sep r \<noteq> CHR '','' then errSyntax r else r)\<lparr>lx_sep := CHR 0x00\<rparr>)"
    from fetch_delim_ahead [OF this [symmetric]] show ?thesis by (rule from_r) (simp_all split: if_splits)
  next
    assume "Returned r' = fetchNumber ((sep_check r)\<lparr>lx_kind := Token_Number\<rparr>)"
    from fetchNumber_ahead [OF this [symmetric]] show ?thesis by (rule from_r) simp_all
  next
    assume "Returned r' = Returned (fetch_keyword ''ull'' ((sep_check r)\<lparr>lx_kind := Token_Null\<rparr>))"
    then have "ahead ((sep_check r)\<lparr>lx_kind := Token_Null\<rparr>) r'" by (simp add: fetch_keyword_ahead)
    then show ?thesis by (rule from_r) simp_all
  next
    assume "Returned r' =
      Returned (fetch_keyword ''rue'' ((sep_check r)\<lparr>lx_kind := Token_Bool, lx_bool := True\<rparr>))"
    then have "ahead ((sep_check r)\<lparr>lx_kind := Token_Bool, lx_bool := True\<rparr>) r'"
      by (simp add: fetch_keyword_ahead)
    then show ?thesis by (rule from_r) simp_all
  next
    assume "Returned r' =
      Returned (fetch_keyword ''alse'' ((sep_check r)\<lparr>lx_kind := Token_Bool, lx_bool := False\<rparr>))"
    then have "ahead ((sep_check r)\<lparr>lx_kind := Token_Bool, lx_bool := False\<rparr>) r'"
      by (simp add: fetch_keyword_ahead)
    then show ?thesis by (rule from_r) simp_all
  qed (simp add: ahead_def)
qed

lemma fetch_loop_ahead: "fetch_loop cs r = Returned r' \<Longrightarrow> ahead r r'"
proof (induction cs r rule: fetch_loop.induct)
  case (1 r)
  then show ?case by (auto simp: ahead_def)
next
  case (2 c cs r)
  consider "c = CHR '':'' \<or> c = CHR '',''" | "c \<noteq> CHR '':''" "c \<noteq> CHR '',''" "is_white c"
    | "\<not> (c = CHR '':'' \<or> c = CHR '','' \<or> is_white c)"
    by blast
  then show ?case
  proof cases
    case 1
    with 2 show ?thesis by (cases "lx_sep r = c") (auto simp: ahead_def)
  next
    case 2
    with "2.IH"(3) "2.prems" show ?thesis by (auto simp: ahead_def)
  next
    case False: 3
    then have "fetch_loop (c # cs) r = fetch_one c r" by (intro fetch_loop_one) auto
    with False "2.prems" fetch_one_ahead show ?thesis by auto
  qed
qed

lemma FetchToken_ahead:
  assumes "FetchToken r = Returned r'"
  shows "ahead r r' \<and> (lx_fatal r' = None \<longrightarrow> lx_pos r \<le> length (lx_data r))"
proof (cases "length (lx_data r) < lx_pos r")
  case True
  with assms show ?thesis by (auto simp: FetchToken_def ahead_def)
next
  case False
  with assms have "fetch_loop (drop (lx_pos r) (lx_data r)) (r\<lparr>lx_kind := Token_Undef, lx_start := lx_pos r\<rparr>)
      = Returned r'"
    by (simp add: FetchToken_def)
  from fetch_loop_ahead [OF this] False show ?thesis by (simp add: ahead_def)
qed


section \<open>The work left\<close>

text \<open>
  A bound on the tokens a lexer may still give: none after an error, else two for each byte that is
  left and one for a token already scanned. No operation makes it larger; taking a string makes it smaller.
\<close>

definition work :: "lexer \<Rightarrow> nat" where
  "work r =
     (if lx_fatal r \<noteq> None then 0
      else 1 + 2 * (Suc (length (lx_data r)) - lx_pos r) + (if lx_kind r = Token_Undef then 0 else 1))"

lemma work_errInvalidToken [simp]: "work (errInvalidToken w r) = 0"
  by (simp add: work_def)

lemma work_consume: "work (consume_token r) \<le> work r"
  by (simp add: work_def consume_token_def)

lemma work_consume_le: "work r \<le> n \<Longrightarrow> work (consume_token r) \<le> n"
  using work_consume le_trans by blast

lemma work_pos [simp]: "0 < work r \<longleftrightarrow> lx_fatal r = None"
  by (simp add: work_def)

lemma work_consume_less: "lx_fatal r = None \<Longrightarrow> lx_kind r \<noteq> Token_Undef \<Longrightarrow> work (consume_token r) < work r"
  by (simp add: work_def consume_token_def)

lemma work_want [simp]: "work (WantComma r) = work r" "work (WantColon r) = work r"
  by (simp_all add: work_def WantComma_def WantColon_def)

lemma scanToken_work:
  assumes "scanToken r = Returned r'"
  shows "work r' \<le> work r"
proof (cases "lx_kind r \<noteq> Token_Undef \<or> lx_fatal r \<noteq> None")
  case True
  with assms show ?thesis by (auto simp: scanToken_def)
next
  case False
  with assms have "FetchToken r = Returned r'" by (simp add: scanToken_def)
  from FetchToken_ahead [OF this] False show ?thesis by (auto simp: ahead_def work_def)
qed

lemma Delim_work: "Delim c r = Returned r' \<Longrightarrow> work r' \<le> work r"
  by (auto simp: Delim_def outcome_simps dest!: scanToken_work intro: work_consume_le)

lemma IsDelim_work: "IsDelim c r = Returned (b, r') \<Longrightarrow> work r' \<le> work r \<and> (\<not> b \<longrightarrow> 0 < work r')"
  using scanToken_work by (auto simp: IsDelim_def outcome_simps)

lemma IsNull_work: "IsNull r = Returned (b, r') \<Longrightarrow> work r' \<le> work r"
  by (auto simp: IsNull_def outcome_simps dest!: scanToken_work)

lemma Skip_work: "Skip r = Returned r' \<Longrightarrow> work r' \<le> work r"
  by (auto simp: Skip_def outcome_simps dest!: scanToken_work intro: work_consume_le)

lemma lexer_String_work:
  assumes "lexer_String r = Returned (s, r')"
  shows "work r' \<le> work r \<and> (0 < work r \<longrightarrow> work r' < work r)"
proof -
  from assms obtain r0 where scan: "scanToken r = Returned r0"
    and r': "r' = (if lx_fatal r0 \<noteq> None \<or> lx_kind r0 \<noteq> Token_String then errInvalidToken ''string'' r0
      else consume_token r0)"
    by (auto simp: lexer_String_def outcome_simps split: if_splits)
  have "work r' \<le> work r0 \<and> (0 < work r0 \<longrightarrow> work r' < work r0)"
    using r' work_consume_less [of r0] by (auto intro: work_consume split: if_splits)
  with scanToken_work [OF scan] show ?thesis by linarith
qed

lemma lexer_Bool_work: "lexer_Bool r = Returned (b, r') \<Longrightarrow> work r' \<le> work r"
  by (auto simp: lexer_Bool_def outcome_simps split: if_splits dest!: scanToken_work intro: work_consume_le)

lemma skip_to_work: "skip_to b e r = Returned r' \<Longrightarrow> work r' \<le> work r"
  by (auto simp: skip_to_def outcome_simps Let_def consume_token_def work_def split: option.splits)

lemma SkipRecursive_work:
  assumes "SkipRecursive r = Returned r'"
  shows "work r' \<le> work r"
proof -
  from assms obtain r0 where "scanToken r = Returned r0" "work r' \<le> work r0"
    using work_consume by (auto simp: SkipRecursive_def outcome_simps split: if_splits dest!: skip_to_work)
  then show ?thesis using scanToken_work by fastforce
qed

section \<open>No index out of range\<close>

definition lx_wf :: "lexer \<Rightarrow> bool" where
  "lx_wf r \<longleftrightarrow>
     lx_start r \<le> lx_pos r \<and> lx_pos r \<le> Suc (length (lx_data r))
     \<and> (lx_kind r \<noteq> Token_Delim \<longrightarrow> lx_delim r = CHR 0x00)
     \<and> (lx_kind r = Token_Delim \<longrightarrow> lx_pos r \<le> length (lx_data r))"

text \<open>The state in which \<open>FetchToken\<close> calls one of the functions that scan a token.\<close>

definition at_token :: "lexer \<Rightarrow> bool" where
  "at_token r \<longleftrightarrow>
     lx_start r \<le> lx_pos r \<and> lx_pos r < length (lx_data r) \<and> lx_delim r = CHR 0x00
     \<and> lx_kind r \<noteq> Token_Delim"

text \<open>The escapes of a literal never save more bytes than the literal has.\<close>

lemma findStringLen_bounds:
  assumes "findStringLen (i + length cs) cs i delta = (h, k)" "delta \<le> i"
  shows "0 \<le> k \<and> k \<le> int (i + length cs)"
proof -
  have "findStringLen n cs i delta = (h, k) \<Longrightarrow> n = i + length cs \<Longrightarrow> delta \<le> i \<Longrightarrow> 0 \<le> k \<and> k \<le> int n" for n
    by (induction n cs i delta rule: findStringLen.induct) (auto split: if_splits list.splits)
  with assms show ?thesis by simp
qed

lemma unescape_closed: "unescape cs i acc segment = Closed v j \<Longrightarrow> i \<le> j \<and> j < i + length cs"
proof (induction cs i acc segment rule: unescape.induct)
  case (1 i acc segment)
  then show ?case by simp
next
  case (2 c cs i acc segment)
  show ?case
  proof (cases "c = CHR 0x22 \<or> c \<noteq> CHR 0x5C")
    case True
    with 2(2,3) show ?thesis by (auto split: if_splits)
  next
    case False
    with 2(3) obtain bs off where esc: "processEscape (c # cs) = Inr (bs, off)"
      and rest: "unescape (drop (off - 1) cs) (i + off) (acc @ segment @ bs) [] = Closed v j"
      by (auto split: sum.splits)
    have "drop (off - 1) cs \<noteq> []" using rest by (cases "drop (off - 1) cs") auto
    then show ?thesis using 2(1) [OF _ _ esc] rest False by auto
  qed
qed

lemma fetchString_returns:
  assumes "at_token r"
  shows "\<exists>r'. fetchString r = Returned r' \<and> lx_wf r'"
proof -
  let ?data = "drop (Suc (lx_pos r)) (lx_data r)"
  obtain h k where len: "findStringLen (length ?data) ?data 0 0 = (h, k)" by fastforce
  with findStringLen_bounds [of 0 ?data 0 h k] have k: "0 \<le> k" "k \<le> int (length ?data)" by simp_all
  have pos: "Suc (lx_pos r) + length ?data = length (lx_data r)" using assms by (auto simp: at_token_def)
  have "slice (Suc (lx_pos r)) (length (lx_data r)) (lx_data r) = Returned ?data"
    using assms by (simp add: at_token_def)
  then show ?thesis
    using assms k pos len unescape_closed [of ?data 0 "[]" "[]"]
    by (cases h; cases "unescape ?data 0 [] []") (auto simp: fetchString_def at_token_def lx_wf_def slice_def)
qed

lemma number_end_bound: "number_end cs i e a d = Some (j, c) \<Longrightarrow> i \<le> j \<and> j < i + length cs"
proof (induction cs arbitrary: i e a d)
  case (Cons x cs)
  from Cons.prems have "(\<exists>e a d. number_end cs (i + 1) e a d = Some (j, c)) \<or> j = i"
    by (simp only: number_end.simps split: if_split_asm) blast+
  with Cons.IH show ?case by fastforce
qed simp

lemma fetchNumber_returns:
  assumes "at_token r"
  shows "\<exists>r'. fetchNumber r = Returned r' \<and> lx_wf r'"
proof (cases "number_end (drop (Suc (lx_pos r)) (lx_data r)) 0 False False False")
  case None
  with assms show ?thesis by (simp add: fetchNumber_def at_token_def lx_wf_def slice_def)
next
  case (Some e)
  obtain i c where e: "e = (i, c)" by fastforce
  with Some number_end_bound [of "drop (Suc (lx_pos r)) (lx_data r)" 0 False False False i c]
  have "i < length (lx_data r) - Suc (lx_pos r)" by simp
  then have "Suc (lx_pos r) + i < length (lx_data r)" by linarith
  with assms Some e show ?thesis
    by (simp add: fetchNumber_def at_token_def lx_wf_def slice_def Let_def)
qed

lemma fetch_delim_returns:
  "at_token r \<Longrightarrow> \<exists>r'. fetch_delim r = Returned r' \<and> lx_wf r'"
  by (simp add: fetch_delim_def byte_at_def at_token_def lx_wf_def)

lemma fetch_keyword_wf: "at_token r \<Longrightarrow> lx_wf (fetch_keyword w r)"
  by (auto simp: fetch_keyword_def at_token_def lx_wf_def Let_def)

lemma at_token_errors [simp]:
  "at_token (sep_check r) = at_token r" "at_token (errSyntax r) = at_token r"
  by (simp_all add: at_token_def)

lemma fetch_one_returns:
  assumes "c \<noteq> CHR '':''" "c \<noteq> CHR '',''" "\<not> is_white c" "at_token r"
  shows "\<exists>r'. fetch_one c r = Returned r' \<and> lx_wf r'"
proof -
  let ?ok = "\<lambda>m. \<exists>r'. m = Returned r' \<and> lx_wf r'"
  have at: "at_token (r'\<lparr>lx_kind := k\<rparr>) \<longleftrightarrow> at_token r'" if "k \<noteq> Token_Delim" "at_token r'" for k r'
    using that by (simp add: at_token_def)
  have more: "at_token (r'\<lparr>lx_first := b\<rparr>) = at_token r'" "at_token (r'\<lparr>lx_sep := x\<rparr>) = at_token r'"
    "at_token (r'\<lparr>lx_kind := k, lx_bool := b\<rparr>) = at_token (r'\<lparr>lx_kind := k\<rparr>)" for r' b x k
    by (simp_all add: at_token_def)
  have "lx_wf (errSyntax r)" using assms(4) by (simp add: at_token_def lx_wf_def)
  then have "\<forall>m \<in> {fetchString ((sep_check r)\<lparr>lx_kind := Token_String\<rparr>), fetch_delim ((sep_check r)\<lparr>lx_first := True\<rparr>),
     fetch_delim ((if \<not> lx_first r \<and> lx_sep r \<noteq> CHR '','' then errSyntax r else r)\<lparr>lx_sep := CHR 0x00\<rparr>),
     fetchNumber ((sep_check r)\<lparr>lx_kind := Token_Number\<rparr>),
     Returned (fetch_keyword ''ull'' ((sep_check r)\<lparr>lx_kind := Token_Null\<rparr>)),
     Returned (fetch_keyword ''rue'' ((sep_check r)\<lparr>lx_kind := Token_Bool, lx_bool := True\<rparr>)),
     Returned (fetch_keyword ''alse'' ((sep_check r)\<lparr>lx_kind := Token_Bool, lx_bool := False\<rparr>)),
     Returned (errSyntax r)}. ?ok m"
    using assms(4)
    by (simp add: fetchString_returns fetch_delim_returns fetchNumber_returns fetch_keyword_wf at more)
  with fetch_one_form [OF assms(1-3), of r] show ?thesis by blast
qed

lemma fetch_loop_returns:
  assumes "lx_start r \<le> lx_pos r" "lx_pos r + length cs \<le> length (lx_data r)"
    "lx_delim r = CHR 0x00" "lx_kind r = Token_Undef"
  shows "\<exists>r'. fetch_loop cs r = Returned r' \<and> lx_wf r'"
  using assms
proof (induction cs r rule: fetch_loop.induct)
  case (1 r)
  then show ?case by (simp add: lx_wf_def)
next
  case (2 c cs r)
  consider "c = CHR '':'' \<or> c = CHR '',''" | "c \<noteq> CHR '':''" "c \<noteq> CHR '',''" "is_white c"
    | "\<not> (c = CHR '':'' \<or> c = CHR '','' \<or> is_white c)"
    by blast
  then show ?case
  proof cases
    case 1
    with 2 show ?thesis by (cases "lx_sep r = c") auto
  next
    case 2
    with "2.IH"(3) "2.prems" show ?thesis by auto
  next
    case 3
    then have "fetch_loop (c # cs) r = fetch_one c r" by (intro fetch_loop_one) auto
    moreover have "at_token r" using "2.prems" by (simp add: at_token_def)
    ultimately show ?thesis using 3 fetch_one_returns [of c r] by auto
  qed
qed

lemma FetchToken_returns:
  assumes "lx_wf r" "lx_kind r = Token_Undef"
  shows "\<exists>r'. FetchToken r = Returned r' \<and> lx_wf r'"
proof (cases "length (lx_data r) < lx_pos r")
  case True
  with assms show ?thesis by (simp add: FetchToken_def lx_wf_def)
next
  case False
  with assms show ?thesis
    unfolding FetchToken_def Let_def by (simp, intro fetch_loop_returns) (simp_all add: lx_wf_def)
qed

lemma scanToken_returns: "lx_wf r \<Longrightarrow> \<exists>r'. scanToken r = Returned r' \<and> lx_wf r'"
  by (auto simp: scanToken_def FetchToken_returns)

lemma consume_wf: "lx_wf r \<Longrightarrow> lx_wf (consume_token r)"
  by (simp add: lx_wf_def consume_token_def)

lemma lx_wf_simps [simp]:
  "lx_wf (errInvalidToken w r) = lx_wf r" "lx_wf (WantComma r) = lx_wf r" "lx_wf (WantColon r) = lx_wf r"
  by (simp_all add: lx_wf_def WantComma_def WantColon_def)

lemma new_lexer_wf: "lx_wf (new_lexer data)"
  by (simp add: lx_wf_def new_lexer_def)

lemma Delim_returns: "lx_wf r \<Longrightarrow> \<exists>r'. Delim c r = Returned r' \<and> lx_wf r'"
  using scanToken_returns [of r] by (auto simp: Delim_def consume_wf)

lemma IsDelim_returns: "lx_wf r \<Longrightarrow> \<exists>b r'. IsDelim c r = Returned (b, r') \<and> lx_wf r'"
  using scanToken_returns [of r] by (auto simp: IsDelim_def)

lemma IsNull_returns: "lx_wf r \<Longrightarrow> \<exists>b r'. IsNull r = Returned (b, r') \<and> lx_wf r'"
  using scanToken_returns [of r] by (auto simp: IsNull_def)

lemma Skip_returns: "lx_wf r \<Longrightarrow> \<exists>r'. Skip r = Returned r' \<and> lx_wf r'"
  using scanToken_returns [of r] by (auto simp: Skip_def consume_wf)

lemma lexer_String_returns: "lx_wf r \<Longrightarrow> \<exists>s r'. lexer_String r = Returned (s, r') \<and> lx_wf r'"
  using scanToken_returns [of r] by (auto simp: lexer_String_def consume_wf)

lemma lexer_Bool_returns: "lx_wf r \<Longrightarrow> \<exists>b r'. lexer_Bool r = Returned (b, r') \<and> lx_wf r'"
  using scanToken_returns [of r] by (auto simp: lexer_Bool_def consume_wf)

lemma skip_loop_bound: "skip_loop b e cs i level q w = Some j \<Longrightarrow> i \<le> j \<and> j < i + length cs"
proof (induction cs arbitrary: i level q w)
  case (Cons x cs)
  from Cons.prems have "(\<exists>level q w. skip_loop b e cs (i + 1) level q w = Some j) \<or> j = i"
    by (simp only: skip_loop.simps split: if_split_asm) blast+
  with Cons.IH show ?case by fastforce
qed simp

lemma skip_to_returns:
  assumes "lx_wf r" "lx_delim r \<noteq> CHR 0x00"
  shows "\<exists>r'. skip_to b e r = Returned r' \<and> lx_wf r'"
proof -
  have wf: "lx_start r \<le> lx_pos r" "lx_pos r \<le> length (lx_data r)"
    using assms by (auto simp: lx_wf_def)
  show ?thesis
  proof (cases "skip_loop b e (drop (lx_pos r) (lx_data r)) 0 1 False False")
    case None
    with wf show ?thesis by (simp add: skip_to_def consume_token_def lx_wf_def slice_def Let_def)
  next
    case (Some i)
    then have "i < length (lx_data r) - lx_pos r" using skip_loop_bound by fastforce
    with Some wf show ?thesis by (simp add: skip_to_def consume_token_def lx_wf_def slice_def Let_def)
  qed
qed

lemma SkipRecursive_returns:
  assumes "lx_wf r"
  shows "\<exists>r'. SkipRecursive r = Returned r' \<and> lx_wf r'"
proof -
  obtain r0 where "scanToken r = Returned r0" "lx_wf r0" using scanToken_returns [OF assms] by blast
  then show ?thesis
    using skip_to_returns [of r0] by (auto simp: SkipRecursive_def consume_wf)
qed

lemma consumed_loop_wf:
  "lx_wf r \<Longrightarrow> lx_kind r \<noteq> Token_Delim \<Longrightarrow> lx_pos r + length cs \<le> length (lx_data r) \<Longrightarrow> lx_wf (consumed_loop cs r)"
  by (induction cs r rule: consumed_loop.induct) (auto simp: lx_wf_def AddError_def)

lemma Consumed_wf:
  assumes "lx_wf r" "lx_fatal r = None \<Longrightarrow> lx_kind r \<noteq> Token_Delim"
  shows "lx_wf (Consumed r)"
  using assms by (auto simp: Consumed_def intro!: consumed_loop_wf)

end
