(* ===== verification/Message_Json.thy ===== *)
theory Message_Json
  imports Json_Tokens Producer
begin

text \<open>
  The codec of messages that easyjson has generated
  (\<open>kafka/clickstream/clickstream_producer_easyjson.go\<close>): \<open>UnmarshalJSON\<close> over the lexer of
  \<open>Json_Lexer\<close>, and \<open>MarshalJSON\<close> over the writer of \<open>jwriter\<close>. The map of integrations of a message
  may be nil here, which the writer tells from an empty one; a message of the producer is what is left
  when the two are not told apart.
\<close>

record wire_message =
  wm_AppId :: string
  wm_MessageID :: string
  wm_Integrations :: "(string \<rightharpoonup> bool) option"

definition zero_message :: wire_message where
  "zero_message = \<lparr>wm_AppId = '''', wm_MessageID = '''', wm_Integrations = None\<rparr>"

definition message_of :: "wire_message \<Rightarrow> message" where
  "message_of v =
     \<lparr>AppId = wm_AppId v, MessageID = wm_MessageID v,
      msg_integrations = (case wm_Integrations v of None \<Rightarrow> Map.empty | Some m \<Rightarrow> m)\<rparr>"


section \<open>The decoder\<close>

lemma and_then_cong [fundef_cong]:
  "m = m' \<Longrightarrow> (\<And>x. m' = Returned x \<Longrightarrow> f x = f' x) \<Longrightarrow> and_then m f = and_then m' f'"
  by (cases m') auto

text \<open>The entries of the object of integrations. An assignment to an entry of a nil map panics.\<close>

function decode_entries :: "lexer \<Rightarrow> wire_message \<Rightarrow> (lexer \<times> wire_message) outcome" where
  "decode_entries r v =
     and_then (IsDelim (CHR ''}'') r) (\<lambda>(closed, r).
       if closed then Returned (r, v)
       else
         and_then (lexer_String r) (\<lambda>(key, r).
         and_then (lexer_Bool (WantColon r)) (\<lambda>(v1, r).
           case wm_Integrations v of
             None \<Rightarrow> Panicked ''assignment to entry in nil map''
           | Some m \<Rightarrow> decode_entries (WantComma r) (v\<lparr>wm_Integrations := Some (m(key \<mapsto> v1))\<rparr>))))"
  by pat_completeness auto
termination
proof (relation "measure (\<lambda>(r, v). work r)", simp, clarsimp)
  fix r r1 key r2 b r3
  assume a: "IsDelim (CHR ''}'') r = Returned (False, r1)" "lexer_String r1 = Returned (key, r2)"
    "lexer_Bool (WantColon r2) = Returned (b, r3)"
  from IsDelim_work [OF a(1)] lexer_String_work [OF a(2)] lexer_Bool_work [OF a(3)]
  show "work r3 < work r" by simp
qed

declare decode_entries.simps [simp del]

definition decode_integrations :: "lexer \<Rightarrow> wire_message \<Rightarrow> (lexer \<times> wire_message) outcome" where
  "decode_integrations r v =
     and_then (IsNull r) (\<lambda>(null, r).
       if null then and_then (Skip r) (\<lambda>r. Returned (r, v))
       else
         and_then (Delim (CHR ''{'') r) (\<lambda>r.
         and_then (IsDelim (CHR ''}'') r) (\<lambda>(closed, r).
         and_then (decode_entries r (v\<lparr>wm_Integrations := (if closed then None else Some Map.empty)\<rparr>)) (\<lambda>(r, v).
         and_then (Delim (CHR ''}'') r) (\<lambda>r.
           Returned (r, v))))))"

definition decode_field :: "string \<Rightarrow> lexer \<Rightarrow> wire_message \<Rightarrow> (lexer \<times> wire_message) outcome" where
  "decode_field key r v =
     (if key = ''appId''
      then and_then (lexer_String r) (\<lambda>(s, r). Returned (r, v\<lparr>wm_AppId := s\<rparr>))
      else if key = ''messageId''
      then and_then (lexer_String r) (\<lambda>(s, r). Returned (r, v\<lparr>wm_MessageID := s\<rparr>))
      else if key = ''integrations'' then decode_integrations r v
      else and_then (SkipRecursive r) (\<lambda>r. Returned (r, v)))"

lemma decode_entries_work:
  "decode_entries r v = Returned (r', v') \<Longrightarrow> work r' \<le> work r"
proof (induction r v rule: decode_entries.induct)
  case (1 r v)
  from "1.prems" [unfolded decode_entries.simps [of r v]] obtain closed r1
    where delim: "IsDelim (CHR ''}'') r = Returned (closed, r1)"
      and cont: "if closed then r' = r1 else \<exists>key r2 b r3 m. lexer_String r1 = Returned (key, r2)
        \<and> lexer_Bool (WantColon r2) = Returned (b, r3) \<and> wm_Integrations v = Some m
        \<and> decode_entries (WantComma r3) (v\<lparr>wm_Integrations := Some (m(key \<mapsto> b))\<rparr>) = Returned (r', v')"
    by (auto simp: outcome_simps split: if_splits option.splits)
  show ?case
  proof (cases closed)
    case True
    with delim cont IsDelim_work show ?thesis by auto
  next
    case False
    with cont obtain key r2 b r3 m where calls: "lexer_String r1 = Returned (key, r2)"
      "lexer_Bool (WantColon r2) = Returned (b, r3)" "wm_Integrations v = Some m"
      and rest: "decode_entries (WantComma r3) (v\<lparr>wm_Integrations := Some (m(key \<mapsto> b))\<rparr>) = Returned (r', v')"
      by auto
    have "work r' \<le> work (WantComma r3)"
      by (rule "1.IH" [OF delim refl _ calls(1) refl calls(2) refl calls(3) rest]) (simp add: False)
    with IsDelim_work [OF delim] lexer_String_work [OF calls(1)] lexer_Bool_work [OF calls(2)]
    show ?thesis by simp
  qed
qed

lemma decode_integrations_work:
  "decode_integrations r v = Returned (r', v') \<Longrightarrow> work r' \<le> work r"
  unfolding decode_integrations_def
  by (force simp: outcome_simps split: if_splits
      dest!: IsNull_work IsDelim_work Delim_work Skip_work decode_entries_work)

lemma decode_field_work: "decode_field key r v = Returned (r', v') \<Longrightarrow> work r' \<le> work r"
  unfolding decode_field_def
  by (auto simp: outcome_simps split: if_splits
      dest!: lexer_String_work SkipRecursive_work decode_integrations_work)

text \<open>The loop over the fields of the message.\<close>

function decode_fields :: "lexer \<Rightarrow> wire_message \<Rightarrow> (lexer \<times> wire_message) outcome" where
  "decode_fields r v =
     and_then (IsDelim (CHR ''}'') r) (\<lambda>(closed, r).
       if closed then Returned (r, v)
       else
         and_then (lexer_String r) (\<lambda>(key, r).
         and_then (IsNull (WantColon r)) (\<lambda>(null, r).
           if null then and_then (Skip r) (\<lambda>r. decode_fields (WantComma r) v)
           else and_then (decode_field key r v) (\<lambda>(r, v). decode_fields (WantComma r) v))))"
  by pat_completeness auto
termination
proof (relation "measure (\<lambda>(r, v). work r)", goal_cases)
  case 1
  show ?case by simp
next
  case (2 r v x closed r1 y key r2 z null r3 r4)
  then have calls: "IsDelim (CHR ''}'') r = Returned (False, r1)" "lexer_String r1 = Returned (key, r2)"
    "IsNull (WantColon r2) = Returned (null, r3)" "Skip r3 = Returned r4"
    by auto
  from IsDelim_work [OF calls(1)] lexer_String_work [OF calls(2)] IsNull_work [OF calls(3)] Skip_work [OF calls(4)]
  show ?case by simp
next
  case (3 r v x closed r1 y key r2 z null r3 u r4 v4)
  then have calls: "IsDelim (CHR ''}'') r = Returned (False, r1)" "lexer_String r1 = Returned (key, r2)"
    "IsNull (WantColon r2) = Returned (null, r3)" "decode_field key r3 v = Returned (r4, v4)"
    by auto
  from IsDelim_work [OF calls(1)] lexer_String_work [OF calls(2)] IsNull_work [OF calls(3)]
    decode_field_work [OF calls(4)]
  show ?case by simp
qed

declare decode_fields.simps [simp del]

definition decode_message :: "lexer \<Rightarrow> wire_message \<Rightarrow> (lexer \<times> wire_message) outcome" where
  "decode_message r v =
     (let isTopLevel = IsStart r
      in and_then (IsNull r) (\<lambda>(null, r).
           if null
           then and_then (Skip (if isTopLevel then Consumed r else r)) (\<lambda>r. Returned (r, v))
           else
             and_then (Delim (CHR ''{'') r) (\<lambda>r.
             and_then (decode_fields r v) (\<lambda>(r, v).
             and_then (Delim (CHR ''}'') r) (\<lambda>r.
               Returned (if isTopLevel then Consumed r else r, v))))))"

definition UnmarshalJSON :: "bytes \<Rightarrow> wire_message \<Rightarrow> (wire_message \<times> go_error option) outcome" where
  "UnmarshalJSON data v =
     and_then (decode_message (new_lexer data) v) (\<lambda>(r, v). Returned (v, lx_fatal r))"

text \<open>The message the producer works with, as \<open>HandleMessage\<close> and \<open>handleEvents\<close> get it.\<close>

definition json_decode :: "bytes \<Rightarrow> message result" where
  "json_decode data =
     (case UnmarshalJSON data zero_message of
        Returned (v, None) \<Rightarrow> Inr (message_of v)
      | Returned (v, Some err) \<Rightarrow> Inl err
      | Panicked p \<Rightarrow> Inl (Error_String p))"


section \<open>Every input is decoded\<close>

lemma IsDelim_again:
  assumes "IsDelim c r = Returned (True, r')" "lx_wf r'" "c \<noteq> CHR 0x00"
  shows "IsDelim c r' = Returned (True, r')"
proof -
  have "lx_fatal r' \<noteq> None \<or> lx_delim r' = c" using assms(1) by (auto simp: IsDelim_def outcome_simps)
  with assms(2,3) have "scanToken r' = Returned r'" by (auto simp: scanToken_def lx_wf_def)
  with \<open>lx_fatal r' \<noteq> None \<or> lx_delim r' = c\<close> show ?thesis by (simp add: IsDelim_def)
qed

lemma decode_entries_returns:
  assumes "lx_wf r" "wm_Integrations v \<noteq> None"
  shows "\<exists>r' v'. decode_entries r v = Returned (r', v') \<and> lx_wf r'"
  using assms
proof (induction r v rule: decode_entries.induct)
  case (1 r v)
  obtain closed r1 where delim: "IsDelim (CHR ''}'') r = Returned (closed, r1)" "lx_wf r1"
    using IsDelim_returns [OF "1.prems"(1)] by blast
  obtain key r2 where key: "lexer_String r1 = Returned (key, r2)" "lx_wf r2"
    using lexer_String_returns [OF delim(2)] by blast
  from key(2) have "lx_wf (WantColon r2)" by simp
  then obtain b r3 where val: "lexer_Bool (WantColon r2) = Returned (b, r3)" "lx_wf r3"
    using lexer_Bool_returns by blast
  obtain m where m: "wm_Integrations v = Some m" using "1.prems"(2) by blast
  show ?case
  proof (cases closed)
    case True
    with delim show ?thesis by (subst decode_entries.simps) simp
  next
    case False
    have "\<exists>r' v'. decode_entries (WantComma r3) (v\<lparr>wm_Integrations := Some (m(key \<mapsto> b))\<rparr>) = Returned (r', v')
        \<and> lx_wf r'"
      by (rule "1.IH" [OF delim(1) refl _ key(1) refl val(1) refl m]) (use False val(2) in simp_all)
    with False delim(1) key(1) val(1) m show ?thesis by (subst decode_entries.simps) simp
  qed
qed

lemma decode_integrations_returns:
  assumes "lx_wf r"
  shows "\<exists>r' v'. decode_integrations r v = Returned (r', v') \<and> lx_wf r'"
proof -
  obtain null r1 where null: "IsNull r = Returned (null, r1)" "lx_wf r1"
    using IsNull_returns [OF assms] by blast
  obtain r2 where skip: "Skip r1 = Returned r2" "lx_wf r2" using Skip_returns [OF null(2)] by blast
  obtain r3 where delim: "Delim (CHR ''{'') r1 = Returned r3" "lx_wf r3" using Delim_returns [OF null(2)] by blast
  obtain closed r4 where closed: "IsDelim (CHR ''}'') r3 = Returned (closed, r4)" "lx_wf r4"
    using IsDelim_returns [OF delim(2)] by blast
  let ?v = "v\<lparr>wm_Integrations := (if closed then None else Some Map.empty)\<rparr>"
  have "\<exists>r' v'. decode_entries r4 ?v = Returned (r', v') \<and> lx_wf r'"
  proof (cases closed)
    case True
    with closed have "IsDelim (CHR ''}'') r4 = Returned (True, r4)" by (intro IsDelim_again) simp_all
    with closed(2) show ?thesis by (subst decode_entries.simps) simp
  qed (use decode_entries_returns [OF closed(2)] in simp)
  then obtain r5 v5 where entries: "decode_entries r4 ?v = Returned (r5, v5)" "lx_wf r5" by blast
  obtain r6 where "Delim (CHR ''}'') r5 = Returned r6" "lx_wf r6" using Delim_returns [OF entries(2)] by blast
  then show ?thesis
    using null skip delim closed entries by (cases null) (simp_all add: decode_integrations_def)
qed

lemma decode_field_returns:
  assumes "lx_wf r"
  shows "\<exists>r' v'. decode_field key r v = Returned (r', v') \<and> lx_wf r'"
  using lexer_String_returns [OF assms] decode_integrations_returns [OF assms] SkipRecursive_returns [OF assms]
  unfolding decode_field_def by (auto simp: outcome_simps)

lemma decode_fields_returns:
  assumes "lx_wf r"
  shows "\<exists>r' v'. decode_fields r v = Returned (r', v') \<and> lx_wf r'"
  using assms
proof (induction r v rule: decode_fields.induct)
  case (1 r v)
  obtain closed r1 where delim: "IsDelim (CHR ''}'') r = Returned (closed, r1)" "lx_wf r1"
    using IsDelim_returns [OF "1.prems"] by blast
  obtain key r2 where key: "lexer_String r1 = Returned (key, r2)" "lx_wf r2"
    using lexer_String_returns [OF delim(2)] by blast
  from key(2) have "lx_wf (WantColon r2)" by simp
  then obtain null r3 where null: "IsNull (WantColon r2) = Returned (null, r3)" "lx_wf r3"
    using IsNull_returns by blast
  obtain r4 where skip: "Skip r3 = Returned r4" "lx_wf r4" using Skip_returns [OF null(2)] by blast
  obtain r5 v5 where field: "decode_field key r3 v = Returned (r5, v5)" "lx_wf r5"
    using decode_field_returns [OF null(2)] by blast
  consider "closed" | "\<not> closed" "null" | "\<not> closed" "\<not> null" by blast
  then show ?case
  proof cases
    case 1
    with delim show ?thesis by (subst decode_fields.simps) simp
  next
    case 2
    have "\<exists>r' v'. decode_fields (WantComma r4) v = Returned (r', v') \<and> lx_wf r'"
      by (rule "1.IH"(1) [OF delim(1) refl _ key(1) refl null(1) refl _ skip(1)]) (use 2 skip(2) in simp_all)
    with 2 delim(1) key(1) null(1) skip(1) show ?thesis by (subst decode_fields.simps) simp
  next
    case 3
    have "\<exists>r' v'. decode_fields (WantComma r5) v5 = Returned (r', v') \<and> lx_wf r'"
      by (rule "1.IH"(2) [OF delim(1) refl _ key(1) refl null(1) refl _ field(1) refl]) (use 3 field(2) in simp_all)
    with 3 delim(1) key(1) null(1) field(1) show ?thesis by (subst decode_fields.simps) simp
  qed
qed

lemma decode_message_returns:
  assumes "lx_wf r"
  shows "\<exists>r' v'. decode_message r v = Returned (r', v') \<and> lx_wf r'"
proof -
  obtain null r1 where null: "IsNull r = Returned (null, r1)" "lx_wf r1"
    using IsNull_returns [OF assms] by blast
  have "lx_wf (if IsStart r then Consumed r1 else r1)" if "null"
    using null that by (auto simp: IsNull_def outcome_simps intro!: Consumed_wf)
  then have "\<exists>r2. Skip (if IsStart r then Consumed r1 else r1) = Returned r2 \<and> lx_wf r2" if "null"
    using that Skip_returns by blast
  moreover obtain r3 where delim: "Delim (CHR ''{'') r1 = Returned r3" "lx_wf r3"
    using Delim_returns [OF null(2)] by blast
  moreover obtain r4 v4 where fields: "decode_fields r3 v = Returned (r4, v4)" "lx_wf r4"
    using decode_fields_returns [OF delim(2)] by blast
  moreover obtain r5 where last: "Delim (CHR ''}'') r4 = Returned r5" "lx_wf r5"
    using Delim_returns [OF fields(2)] by blast
  moreover have "lx_wf (Consumed r5)"
    using last by (intro Consumed_wf) (auto simp: Delim_def outcome_simps consume_token_def split: if_splits)
  ultimately show ?thesis
    using null by (cases null) (auto simp: decode_message_def)
qed

lemma UnmarshalJSON_returns: "\<exists>v' err. UnmarshalJSON data v = Returned (v', err)"
  using decode_message_returns [OF new_lexer_wf, of data v] by (auto simp: UnmarshalJSON_def)

section \<open>The writer\<close>

text \<open>\<open>utf8.DecodeRuneInString\<close>: the character at the start and its width; (0xFFFD, 1) is the answer for
  bytes that are not UTF-8.\<close>

definition continues :: "char \<Rightarrow> bool" where
  "continues c \<longleftrightarrow> 0x80 \<le> code c \<and> code c \<le> 0xBF"

definition second_ok :: "nat \<Rightarrow> nat \<Rightarrow> bool" where
  "second_ok x0 x1 \<longleftrightarrow>
     (if x0 = 0xE0 then 0xA0 else if x0 = 0xF0 then 0x90 else 0x80) \<le> x1
     \<and> x1 \<le> (if x0 = 0xED then 0x9F else if x0 = 0xF4 then 0x8F else 0xBF)"

definition DecodeRune :: "bytes \<Rightarrow> nat \<times> nat" where
  "DecodeRune s =
     (case s of
        [] \<Rightarrow> (0xFFFD, 0)
      | c0 # s \<Rightarrow>
          (let x0 = code c0
           in if x0 < 0x80 then (x0, 1)
              else if x0 < 0xC2 \<or> 0xF4 < x0 then (0xFFFD, 1)
              else
                (case s of
                   [] \<Rightarrow> (0xFFFD, 1)
                 | c1 # s \<Rightarrow>
                     if \<not> second_ok x0 (code c1) then (0xFFFD, 1)
                     else if x0 < 0xE0 then (x0 mod 32 * 64 + code c1 mod 64, 2)
                     else
                       (case s of
                          [] \<Rightarrow> (0xFFFD, 1)
                        | c2 # s \<Rightarrow>
                            if \<not> continues c2 then (0xFFFD, 1)
                            else if x0 < 0xF0
                            then (x0 mod 16 * 4096 + code c1 mod 64 * 64 + code c2 mod 64, 3)
                            else
                              (case s of
                                 [] \<Rightarrow> (0xFFFD, 1)
                               | c3 # _ \<Rightarrow>
                                   if \<not> continues c3 then (0xFFFD, 1)
                                   else (x0 mod 8 * 262144 + code c1 mod 64 * 4096 + code c2 mod 64 * 64
                                         + code c3 mod 64, 4))))))"

definition hex_chars :: string where
  "hex_chars = ''0123456789abcdef''"

definition isNotEscapedSingleChar :: "char \<Rightarrow> bool \<Rightarrow> bool" where
  "isNotEscapedSingleChar c escapeHTML \<longleftrightarrow>
     (escapeHTML \<longrightarrow> c \<noteq> CHR ''<'' \<and> c \<noteq> CHR ''>'' \<and> c \<noteq> CHR ''&'')
     \<and> c \<noteq> CHR 0x5C \<and> c \<noteq> CHR 0x22 \<and> 0x20 \<le> code c \<and> code c < 0x80"

definition escaped :: "char \<Rightarrow> bytes" where
  "escaped c =
     (if c = CHR 0x09 then [CHR 0x5C, CHR ''t'']
      else if c = CHR 0x0D then [CHR 0x5C, CHR ''r'']
      else if c = CHR 0x0A then [CHR 0x5C, CHR ''n'']
      else if c = CHR 0x5C then [CHR 0x5C, CHR 0x5C]
      else if c = CHR 0x22 then [CHR 0x5C, CHR 0x22]
      else [CHR 0x5C, CHR ''u'', CHR ''0'', CHR ''0'', hex_chars ! (code c div 16), hex_chars ! (code c mod 16)])"

text \<open>The loop of \<open>String\<close>, on what is left of the text; the writer is the zero one, which escapes HTML.\<close>

function write_chars :: "bytes \<Rightarrow> bytes" where
  "write_chars [] = []"
| "write_chars (c # cs) =
     (if isNotEscapedSingleChar c True then c # write_chars cs
      else if code c < 0x80 then escaped c @ write_chars cs
      else
        (let (runeValue, runeWidth) = DecodeRune (c # cs)
         in if runeValue = 0xFFFD \<and> runeWidth = 1
            then CHR 0x5C # ''ufffd'' @ write_chars cs
            else if runeValue = 0x2028 \<or> runeValue = 0x2029
            then CHR 0x5C # ''u202'' @ [hex_chars ! (runeValue mod 16)] @ write_chars (drop (runeWidth - 1) cs)
            else take runeWidth (c # cs) @ write_chars (drop (runeWidth - 1) cs)))"
  by pat_completeness auto
termination by (relation "measure length") auto

definition write_string :: "string \<Rightarrow> bytes" where
  "write_string s = [CHR 0x22] @ write_chars s @ [CHR 0x22]"

definition write_bool :: "bool \<Rightarrow> bytes" where
  "write_bool b = (if b then ''true'' else ''false'')"

text \<open>The entries of the map in the order \<open>ks\<close> of the range, the first without a comma before it.\<close>

fun write_entries :: "bool \<Rightarrow> string list \<Rightarrow> (string \<rightharpoonup> bool) \<Rightarrow> bytes" where
  "write_entries first [] m = []"
| "write_entries first (k # ks) m =
     (if first then [] else '','') @ write_string k @ '':'' @ write_bool (the (m k)) @ write_entries False ks m"

definition MarshalJSON :: "((string \<rightharpoonup> bool) \<Rightarrow> string list) \<Rightarrow> wire_message \<Rightarrow> bytes" where
  "MarshalJSON order v =
     ''{'' @ [CHR 0x22] @ ''appId'' @ [CHR 0x22] @ '':'' @ write_string (wm_AppId v)
     @ '','' @ [CHR 0x22] @ ''messageId'' @ [CHR 0x22] @ '':'' @ write_string (wm_MessageID v)
     @ '','' @ [CHR 0x22] @ ''integrations'' @ [CHR 0x22] @ '':''
     @ (case wm_Integrations v of
          None \<Rightarrow> ''null''
        | Some m \<Rightarrow> ''{'' @ write_entries True (order m) m @ ''}'')
     @ ''}''"

end
