(* ===== verification/Json_Literals.thy ===== *)
theory Json_Literals
  imports Message_Json
begin

text \<open>
  String literals: which texts are the body of a literal, and of which value; that the lexer gives this
  value and that the writer writes such texts; and that the buffer the lexer makes for the value is
  large enough.
\<close>

section \<open>String literals\<close>

text \<open>The body of a string literal and its value: bytes that stand for themselves, and escape
  sequences, each the backslash, a byte and bytes that are neither a quote nor a backslash.\<close>

definition plain_char :: "char \<Rightarrow> bool" where
  "plain_char c \<longleftrightarrow> c \<noteq> CHR 0x22 \<and> c \<noteq> CHR 0x5C"

inductive literal :: "bytes \<Rightarrow> bytes \<Rightarrow> bool" where
  literal_Nil: "literal [] []"
| literal_plain: "plain_char c \<Longrightarrow> literal xs v \<Longrightarrow> literal (c # xs) (c # v)"
| literal_escape: "\<forall>zs. processEscape (CHR 0x5C # d # ds @ zs) = Inr (w, length ds + 2) \<Longrightarrow>
     list_all plain_char ds \<Longrightarrow> literal xs v \<Longrightarrow> literal (CHR 0x5C # d # ds @ xs) (w @ v)"

lemma literal_plain_append: "list_all plain_char p \<Longrightarrow> literal xs v \<Longrightarrow> literal (p @ xs) (p @ v)"
  by (induction p) (auto intro: literal_plain)

lemma unescape_plain:
  "list_all plain_char xs \<Longrightarrow> unescape (xs @ ys) i acc segment = unescape ys (i + length xs) acc (segment @ xs)"
  by (induction xs arbitrary: i segment) (simp_all add: plain_char_def)

lemma findStringLen_plain:
  "list_all plain_char xs \<Longrightarrow> findStringLen n (xs @ ys) i delta = findStringLen n ys (i + length xs) delta"
  by (induction xs arbitrary: i) (simp_all add: plain_char_def)

lemma unescape_literal:
  "literal xs v \<Longrightarrow>
   unescape (xs @ CHR 0x22 # ys) i acc segment = Closed (acc @ segment @ v) (i + length xs)"
proof (induction arbitrary: i acc segment rule: literal.induct)
  case (literal_escape d ds w xs v)
  have "drop (length ds + 2 - 1) (d # ds @ xs @ CHR 0x22 # ys) = xs @ CHR 0x22 # ys" by simp
  with literal_escape show ?case by simp
qed (simp_all add: plain_char_def)

lemma findStringLen_literal:
  "literal xs v \<Longrightarrow> findStringLen n (xs @ CHR 0x22 # ys) i delta = (h, k) \<Longrightarrow> 
   (h \<longleftrightarrow> 0 < delta \<or> CHR 0x5C \<in> set xs) \<and> (\<not> h \<longrightarrow> k = int (i + length xs) \<and> v = xs)"
proof (induction arbitrary: i delta rule: literal.induct)
  case (literal_escape d ds w xs v)
  from literal_escape.hyps(2) literal_escape.prems have
    "findStringLen n (xs @ CHR 0x22 # ys) (i + 2 + length ds) (delta + (if d = CHR ''u'' then 2 else 1)) = (h, k)"
    by (simp add: findStringLen_plain)
  from literal_escape.IH [OF this] show ?case by auto
next
  case (literal_plain c xs v)
  then show ?case by (fastforce simp: plain_char_def)
qed auto

text \<open>The scan of a literal gives its value and stops behind the closing quote.\<close>

lemma fetchString_literal:
  assumes "literal xs v" "drop (lx_pos r) (lx_data r) = CHR 0x22 # xs @ CHR 0x22 # ys"
  shows "fetchString r = Returned (r\<lparr>lx_bytes := v, lx_pos := lx_pos r + length xs + 2\<rparr>)"
proof -
  have pos: "lx_pos r < length (lx_data r)"
    using assms(2) by (metis drop_all leI list.distinct(1))
  have data: "drop (Suc (lx_pos r)) (lx_data r) = xs @ CHR 0x22 # ys"
    using assms(2) by (metis drop_Suc list.sel(3) tl_drop)
  let ?n = "length (xs @ CHR 0x22 # ys)"
  obtain h k where len: "findStringLen ?n (xs @ CHR 0x22 # ys) 0 0 = (h, k)" by fastforce
  from findStringLen_literal [OF assms(1) len] have "\<not> h \<Longrightarrow> k = int (length xs) \<and> v = xs" by simp
  moreover have "0 \<le> k" using findStringLen_bounds [of 0 "xs @ CHR 0x22 # ys" 0 h k] len by simp
  moreover have "slice (Suc (lx_pos r)) (length (lx_data r)) (lx_data r) = Returned (xs @ CHR 0x22 # ys)"
    unfolding data [symmetric] using pos by simp
  ultimately show ?thesis
    using len unescape_literal [OF assms(1), of ys 0 "[]" "[]"] data pos
    by (cases h) (simp_all add: fetchString_def slice_def Let_def)
qed

section \<open>UTF-8\<close>

text \<open>A text with every byte that is not part of a character replaced by the replacement character.\<close>

function to_valid :: "bytes \<Rightarrow> bytes" where
  "to_valid [] = []"
| "to_valid (c # cs) =
     (let (r, w) = DecodeRune (c # cs)
      in if r = 0xFFFD \<and> w = 1 then EncodeRune 0xFFFD @ to_valid cs
         else take w (c # cs) @ to_valid (drop (w - 1) cs))"
  by pat_completeness auto
termination by (relation "measure length") auto

function valid_utf8 :: "bytes \<Rightarrow> bool" where
  "valid_utf8 [] = True"
| "valid_utf8 (c # cs) =
     (let (r, w) = DecodeRune (c # cs) in \<not> (r = 0xFFFD \<and> w = 1) \<and> valid_utf8 (drop (w - 1) cs))"
  by pat_completeness auto
termination by (relation "measure length") auto

lemma code_char_of [simp]: "char_of (code c) = c"
  by (simp add: code_def)

lemma code_less [simp]: "code c < 256"
  unfolding code_def by (metis of_char_mod_256 mod_less_divisor zero_less_numeral)

lemma encode_two:
  assumes "2 \<le> a" "a < 32" "b < 64"
  shows "EncodeRune (a * 64 + b) = [char_of (0xC0 + a), char_of (0x80 + b :: nat)]"
  using assms by (simp add: EncodeRune_def Let_def)

lemma sixes: "r < 64 \<Longrightarrow> (q * 64 + r) div 64 = q \<and> (q * 64 + r) mod 64 = (r :: nat)"
  by simp

lemma encode_three:
  assumes "a < 16" "b < 64" "c < 64" "a = 0 \<longrightarrow> 32 \<le> b" "a = 13 \<longrightarrow> b < 32"
  shows "EncodeRune (a * 4096 + b * 64 + c) = [char_of (0xE0 + a), char_of (0x80 + b), char_of (0x80 + c :: nat)]"
proof -
  define r where "r = (a * 64 + b) * 64 + c"
  have "0x800 \<le> r" "r < 0x10000" using assms by (auto simp: r_def)
  moreover have "\<not> (0xD800 \<le> r \<and> r < 0xE000)"
  proof -
    consider "a \<le> 12" | "a = 13" | "14 \<le> a" by linarith
    then show ?thesis using assms by cases (auto simp: r_def)
  qed
  moreover have "r mod 64 = c" "r div 64 mod 64 = b" "r div 64 div 64 = a"
    using assms(2,3) by (simp_all only: r_def sixes)
  moreover have "r div 4096 = r div 64 div 64" by (simp add: div_mult2_eq [symmetric])
  ultimately have "EncodeRune r = [char_of (0xE0 + a), char_of (0x80 + b), char_of (0x80 + c)]"
    by (auto simp: EncodeRune_def Let_def)
  then show ?thesis by (simp add: r_def algebra_simps)
qed

lemma encode_four:
  assumes "a \<le> 4" "b < 64" "c < 64" "d < 64" "a = 0 \<longrightarrow> 16 \<le> b" "a = 4 \<longrightarrow> b < 16"
  shows "EncodeRune (a * 262144 + b * 4096 + c * 64 + d) =
    [char_of (0xF0 + a), char_of (0x80 + b), char_of (0x80 + c), char_of (0x80 + d :: nat)]"
proof -
  define r where "r = ((a * 64 + b) * 64 + c) * 64 + d"
  have "0x10000 \<le> r" using assms by (cases "a = 0") (auto simp: r_def)
  moreover have "r \<le> 0x10FFFF"
  proof (cases "a = 4")
    case True
    with assms show ?thesis by (simp add: r_def)
  next
    case False
    with assms have "a \<le> 3" by linarith
    with assms show ?thesis by (simp add: r_def)
  qed
  moreover have "r mod 64 = d" "r div 64 mod 64 = c" "r div 64 div 64 mod 64 = b" "r div 64 div 64 div 64 = a"
    using assms(2-4) by (simp_all only: r_def sixes)
  moreover have "r div 4096 = r div 64 div 64" "r div 262144 = r div 64 div 64 div 64"
    by (simp_all add: div_mult2_eq [symmetric])
  ultimately have "EncodeRune r = [char_of (0xF0 + a), char_of (0x80 + b), char_of (0x80 + c), char_of (0x80 + d)]"
    by (simp add: EncodeRune_def Let_def)
  then show ?thesis by (simp add: r_def algebra_simps)
qed

text \<open>What \<open>DecodeRune\<close> takes for a character is the encoding of that character.\<close>

lemma mod_lead: "n \<le> x \<Longrightarrow> x < n + k \<Longrightarrow> n mod k = 0 \<Longrightarrow> x mod k = x - n" for x :: nat
proof -
  assume a: "n \<le> x" "x < n + k" "n mod k = 0"
  then have "x mod k = (n + (x - n)) mod k" by simp
  also have "\<dots> = (x - n) mod k" using a(3) by (metis mod_add_left_eq add.left_neutral)
  also have "\<dots> = x - n" using a by simp
  finally show ?thesis .
qed

lemma DecodeRune_valid:
  assumes "DecodeRune (c # cs) = (r, w)" "\<not> (r = 0xFFFD \<and> w = 1)"
  shows "1 \<le> w \<and> w \<le> Suc (length cs) \<and> EncodeRune r = take w (c # cs)
    \<and> (0x80 \<le> code c \<longrightarrow> list_all (\<lambda>c. 0x80 \<le> code c) (take w (c # cs)))"
proof -
  let ?x0 = "code c"
  have char: "char_of (n + (code c - n)) = c" if "n \<le> code c" for n c using that by simp
  note dec = assms(1) [unfolded DecodeRune_def list.case Let_def]
  consider (one) "?x0 < 0x80" | (no) "0x80 \<le> ?x0" "?x0 < 0xC2 \<or> 0xF4 < ?x0" | (multi) "0xC2 \<le> ?x0" "?x0 \<le> 0xF4"
    by linarith
  then show ?thesis
  proof cases
    case one
    with dec have "r = ?x0" "w = 1" by auto
    with one show ?thesis by (simp add: EncodeRune_def)
  next
    case no
    with dec assms(2) show ?thesis by auto
  next
    case multi
    with dec assms(2) obtain c1 cs1 where cs: "cs = c1 # cs1" and x1: "second_ok ?x0 (code c1)"
      by (auto split: list.splits if_splits)
    from x1 have b: "0x80 \<le> code c1" "code c1 < 0x80 + 64" "?x0 = 0xE0 \<longrightarrow> 0xA0 \<le> code c1"
      "?x0 = 0xF0 \<longrightarrow> 0x90 \<le> code c1" "?x0 = 0xED \<longrightarrow> code c1 \<le> 0x9F" "?x0 = 0xF4 \<longrightarrow> code c1 \<le> 0x8F"
      by (auto simp: second_ok_def split: if_splits)
    have m1: "code c1 mod 64 = code c1 - 0x80" using b by (intro mod_lead) simp_all
    show ?thesis
    proof (cases "?x0 < 0xE0")
      case True
      with dec multi cs x1 have rw: "r = ?x0 mod 32 * 64 + code c1 mod 64" "w = 2" by auto
      have m0: "?x0 mod 32 = ?x0 - 0xC0" using multi True by (intro mod_lead) simp_all
      have "EncodeRune r = [c, c1]"
        unfolding rw m0 m1 using multi True b by (subst encode_two) (auto simp: char)
      with rw cs multi b show ?thesis by simp
    next
      case ge: False
      with dec assms(2) multi cs x1 obtain c2 cs2 where cs1: "cs1 = c2 # cs2" and x2: "continues c2"
        by (auto split: list.splits if_splits)
      have m2: "code c2 mod 64 = code c2 - 0x80" using x2 by (intro mod_lead) (simp_all add: continues_def)
      show ?thesis
      proof (cases "?x0 < 0xF0")
        case True
        with dec multi ge cs cs1 x1 x2
        have rw: "r = ?x0 mod 16 * 4096 + code c1 mod 64 * 64 + code c2 mod 64" "w = 3" by auto
        have m0: "?x0 mod 16 = ?x0 - 0xE0" using ge True by (intro mod_lead) simp_all
        have "EncodeRune r = [c, c1, c2]"
          unfolding rw m0 m1 m2 using ge True b x2
          by (subst encode_three) (auto simp: char continues_def)
        with rw cs cs1 multi b x2 show ?thesis by (simp add: continues_def)
      next
        case ge4: False
        with dec assms(2) multi ge cs cs1 x1 x2 obtain c3 cs3 where cs2: "cs2 = c3 # cs3" and x3: "continues c3"
          by (auto split: list.splits if_splits)
        have m3: "code c3 mod 64 = code c3 - 0x80" using x3 by (intro mod_lead) (simp_all add: continues_def)
        from dec multi ge ge4 cs cs1 cs2 x1 x2 x3
        have rw: "r = ?x0 mod 8 * 262144 + code c1 mod 64 * 4096 + code c2 mod 64 * 64 + code c3 mod 64" "w = 4"
          by auto
        have m0: "?x0 mod 8 = ?x0 - 0xF0" using ge4 multi by (intro mod_lead) simp_all
        have "EncodeRune r = [c, c1, c2, c3]"
          unfolding rw m0 m1 m2 m3 using ge4 multi b x2 x3
          by (subst encode_four) (auto simp: char continues_def)
        with rw cs cs1 cs2 multi b x2 x3 show ?thesis by (simp add: continues_def)
      qed
    qed
  qed
qed

lemma to_valid_valid: "valid_utf8 s \<Longrightarrow> to_valid s = s"
proof (induction s rule: to_valid.induct)
  case (2 c cs)
  obtain r w where d: "DecodeRune (c # cs) = (r, w)" by fastforce
  with "2.prems" have ok: "\<not> (r = 0xFFFD \<and> w = 1)" "valid_utf8 (drop (w - 1) cs)" by auto
  with 2 d DecodeRune_valid [OF d ok(1)] have "to_valid (drop (w - 1) cs) = drop (w - 1) cs" by auto
  moreover have "take w (c # cs) @ drop (w - 1) cs = c # cs"
    using DecodeRune_valid [OF d ok(1)] by (cases w) auto
  ultimately show ?case using d ok by auto
qed simp

section \<open>What the writer writes\<close>

lemma hex_digit:
  assumes "n < 16"
  shows "hex_value (hex_chars ! n) = Some n" "plain_char (hex_chars ! n)"
proof -
  have "\<forall>n \<in> {..<16}. hex_value (hex_chars ! n) = Some n \<and> plain_char (hex_chars ! n)"
    by code_simp
  with assms show "hex_value (hex_chars ! n) = Some n" "plain_char (hex_chars ! n)" by auto
qed

lemma literal_unicode:
  assumes "hex_value a = Some x" "hex_value b = Some y" "hex_value c = Some z" "hex_value d = Some u"
    and "n = ((x * 16 + y) * 16 + z) * 16 + u" "\<not> IsSurrogate n"
    and "list_all plain_char [a, b, c, d]" "literal xs v"
  shows "literal (CHR 0x5C # CHR ''u'' # a # b # c # d # xs) (EncodeRune n @ v)"
proof -
  have "\<forall>zs. processEscape (CHR 0x5C # CHR ''u'' # [a, b, c, d] @ zs) = Inr (EncodeRune n, length [a, b, c, d] + 2)"
    using assms(1-6) by (simp add: processEscape_def)
  from literal_escape [OF this assms(7,8)] show ?thesis by simp
qed

lemma escaped_literal:
  assumes "code c < 0x80" "literal xs v"
  shows "literal (escaped c @ xs) (c # v)"
proof -
  have short: "literal (CHR 0x5C # d # xs) (e # v)"
    if "\<forall>zs. processEscape (CHR 0x5C # d # zs) = Inr ([e], 2)" for d e
    using literal_escape [of d "[]" "[e]", OF _ _ assms(2)] that by simp
  show ?thesis
  proof (cases "c \<in> {CHR 0x09, CHR 0x0D, CHR 0x0A, CHR 0x5C, CHR 0x22}")
    case True
    then show ?thesis by (elim insertE emptyE) (simp_all add: escaped_def short processEscape_def)
  next
    case False
    have digits: "code c div 16 < 16" "code c mod 16 < 16" using assms(1) by simp_all
    have "EncodeRune (code c) = [c]" using assms(1) by (simp add: EncodeRune_def)
    moreover have "literal (CHR 0x5C # CHR ''u'' # CHR ''0'' # CHR ''0'' # hex_chars ! (code c div 16)
        # hex_chars ! (code c mod 16) # xs) (EncodeRune (code c) @ v)"
      by (rule literal_unicode [OF _ _ hex_digit(1) [OF digits(1)] hex_digit(1) [OF digits(2)]])
        (use assms hex_digit(2) [OF digits(1)] hex_digit(2) [OF digits(2)] in
          \<open>simp_all add: hex_value_def code_def plain_char_def IsSurrogate_def\<close>)
    ultimately show ?thesis using False by (simp add: escaped_def)
  qed
qed

lemma write_chars_literal: "literal (write_chars s) (to_valid s)"
proof (induction s rule: write_chars.induct)
  case 1
  show ?case by (simp add: literal_Nil)
next
  case (2 c cs)
  obtain r w where dec: "DecodeRune (c # cs) = (r, w)" by fastforce
  have ascii: "to_valid (c # cs) = c # to_valid cs" if "code c < 0x80"
    using that by (simp add: DecodeRune_def)
  consider (plain) "isNotEscapedSingleChar c True"
    | (escape) "\<not> isNotEscapedSingleChar c True" "code c < 0x80"
    | (bad) "\<not> isNotEscapedSingleChar c True" "\<not> code c < 0x80" "r = 0xFFFD \<and> w = 1"
    | (line) "\<not> isNotEscapedSingleChar c True" "\<not> code c < 0x80" "r = 0x2028 \<or> r = 0x2029"
    | (multi) "\<not> isNotEscapedSingleChar c True" "\<not> code c < 0x80" "\<not> (r = 0xFFFD \<and> w = 1)"
        "\<not> (r = 0x2028 \<or> r = 0x2029)"
    by blast
  then show ?case
  proof cases
    case plain
    then have "code c < 0x80" "plain_char c" by (simp_all add: isNotEscapedSingleChar_def plain_char_def)
    with plain 2(1) ascii show ?thesis by (simp add: literal_plain)
  next
    case escape
    with 2(2) ascii escaped_literal show ?thesis by simp
  next
    case bad
    have "literal (write_chars cs) (to_valid cs)"
      by (rule 2(3)) (use bad dec in simp_all)
    then have "literal (CHR 0x5C # ''ufffd'' @ write_chars cs) (EncodeRune 0xFFFD @ to_valid cs)"
      by (simp add: literal_unicode [where x = 15 and y = 15 and z = 15 and u = 13] hex_value_def code_def
          plain_char_def IsSurrogate_def)
    with bad dec show ?thesis by simp
  next
    case line
    then have ok: "\<not> (r = 0xFFFD \<and> w = 1)" by auto
    have "literal (write_chars (drop (w - 1) cs)) (to_valid (drop (w - 1) cs))"
      by (rule 2(4)) (use line dec ok in simp_all)
    then have "literal (CHR 0x5C # ''u202'' @ [hex_chars ! (r mod 16)] @ write_chars (drop (w - 1) cs))
        (EncodeRune r @ to_valid (drop (w - 1) cs))"
      using line(3)
      by (auto simp: hex_chars_def hex_value_def code_def plain_char_def IsSurrogate_def
          intro: literal_unicode [where x = 2 and y = 0 and z = 2 and u = 8]
            literal_unicode [where x = 2 and y = 0 and z = 2 and u = 9])
    moreover have "r \<noteq> 0xFFFD" using line(3) by auto
    ultimately show ?thesis using line dec DecodeRune_valid [OF dec ok] by simp
  next
    case multi
    have "literal (write_chars (drop (w - 1) cs)) (to_valid (drop (w - 1) cs))"
      by (rule 2(5)) (use multi dec in simp_all)
    moreover have "list_all plain_char (take w (c # cs))"
      using DecodeRune_valid [OF dec multi(3)] multi(2)
      by (auto simp: list_all_iff plain_char_def code_def)
    ultimately have "literal (take w (c # cs) @ write_chars (drop (w - 1) cs))
        (take w (c # cs) @ to_valid (drop (w - 1) cs))"
      by (intro literal_plain_append)
    with multi dec show ?thesis by auto
  qed
qed

section \<open>The size of the buffer for a value\<close>

lemma hex_value_plain: "hex_value c = Some n \<Longrightarrow> plain_char c \<and> n < 16"
  by (auto simp: hex_value_def plain_char_def code_def Let_def split: if_splits)

lemma getu4_digits:
  assumes "getu4 xs = Some r"
  shows "\<exists>a b c d zs. xs = CHR 0x5C # CHR ''u'' # a # b # c # d # zs \<and> list_all plain_char [a, b, c, d]
    \<and> r < 0x10000"
  using assms by (cases xs rule: getu4.cases) (auto split: if_splits option.splits dest!: hex_value_plain)

lemma EncodeRune_length: "length (EncodeRune r) \<le> (if r < 0x10000 then 3 else 4)"
  by (simp add: EncodeRune_def Let_def)

text \<open>What an escape gives is no longer than what \<open>findStringLen\<close> counts for it.\<close>

lemma processEscape_counted:
  assumes "processEscape (CHR 0x5C # cs) = Inr (bs, off)"
  shows "\<exists>m. length bs + m \<le> off \<and> 1 \<le> off \<and> off \<le> Suc (length cs)
    \<and> (\<forall>n i d. findStringLen n (CHR 0x5C # cs) i d = findStringLen n (drop (off - 1) cs) (i + off) (d + m))"
proof -
  obtain x ds where cs: "cs = x # ds" using assms by (cases cs) (auto simp: processEscape_def)
  show ?thesis
  proof (cases "x = CHR ''u''")
    case False
    with assms cs have "length bs = 1 \<and> off = 2"
      by (auto simp: processEscape_def split: if_splits)
    with cs False show ?thesis by (intro exI [of _ 1]) simp
  next
    case True
    with assms cs obtain r where r: "getu4 (CHR 0x5C # CHR ''u'' # ds) = Some r"
      by (cases "getu4 (CHR 0x5C # CHR ''u'' # ds)") (auto simp: processEscape_def)
    then obtain a b c d zs where ds: "ds = [a, b, c, d] @ zs" "list_all plain_char [a, b, c, d]" "r < 0x10000"
      by (auto dest: getu4_digits)
    have six: "findStringLen n (CHR 0x5C # CHR ''u'' # [a, b, c, d] @ ys) i e = findStringLen n ys (i + 6) (e + 2)"
      if "list_all plain_char [a, b, c, d]" for n a b c d ys i e
      using that by (simp add: plain_char_def eval_nat_numeral)
    show ?thesis
    proof (cases "IsSurrogate r \<and> DecodeSurrogates r (getu4 zs) \<noteq> 0xFFFD")
      case False
      with assms cs True r ds have "off = 6" "bs \<in> {EncodeRune 0xFFFD, EncodeRune r}"
        by (auto simp: processEscape_def Let_def split: if_splits)
      moreover from this(2) have "length bs \<le> 3"
        using EncodeRune_length [of r] EncodeRune_length [of "0xFFFD"] ds(3) by auto
      ultimately show ?thesis using six [OF ds(2)] cs ds True
        by (intro exI [of _ 2]) auto
    next
      case pair: True
      with assms cs True r ds have off: "off = 12" "bs = EncodeRune (DecodeSurrogates r (getu4 zs))"
        by (auto simp: processEscape_def Let_def)
      from pair obtain r2 where "getu4 zs = Some r2"
        by (auto simp: DecodeSurrogates_def split: option.splits)
      then obtain a' b' c' d' ys where zs: "zs = CHR 0x5C # CHR ''u'' # [a', b', c', d'] @ ys"
        "list_all plain_char [a', b', c', d']"
        by (auto dest: getu4_digits)
      have "length bs \<le> 4" using EncodeRune_length [of "DecodeSurrogates r (getu4 zs)"] off(2) by (simp split: if_splits)
      moreover have "findStringLen n (CHR 0x5C # cs) i e = findStringLen n (drop (off - 1) cs) (i + off) (e + 4)" for n i e
      proof -
        have "findStringLen n (CHR 0x5C # cs) i e = findStringLen n zs (i + 6) (e + 2)"
          unfolding cs True ds(1) by (rule six [OF ds(2)])
        also have "\<dots> = findStringLen n ys (i + 6 + 6) (e + 2 + 2)"
          unfolding zs(1) by (rule six [OF zs(2)])
        finally show ?thesis using cs ds(1) zs(1) off(1) by (simp only: add.assoc) simp
      qed
      ultimately show ?thesis using off(1) cs ds(1) zs(1) by (intro exI [of _ 4]) auto
    qed
  qed
qed

lemma unescape_counted:
  assumes "unescape cs i acc segment = Closed v j" "findStringLen n cs i d = (h, k)"
  shows "int (length v) \<le> int (length acc + length segment) + k - int i + int d"
  using assms
proof (induction cs i acc segment arbitrary: d rule: unescape.induct)
  case (1 i acc segment)
  then show ?case by simp
next
  case (2 c cs i acc segment)
  consider "c = CHR 0x22" | "c = CHR 0x5C" | "plain_char c" by (auto simp: plain_char_def)
  then show ?case
  proof cases
    case 1
    with "2.prems" show ?thesis by auto
  next
    case 2
    with "2.prems"(1) obtain bs off where esc: "processEscape (c # cs) = Inr (bs, off)"
      and rest: "unescape (drop (off - 1) cs) (i + off) (acc @ segment @ bs) [] = Closed v j"
      by (auto split: sum.splits)
    obtain m where m: "length bs + m \<le> off"
      "findStringLen n (c # cs) i d = findStringLen n (drop (off - 1) cs) (i + off) (d + m)"
      using processEscape_counted [of cs bs off] esc 2 by auto
    have "int (length v) \<le> int (length (acc @ segment @ bs) + length []) + k - int (i + off) + int (d + m)"
      using "2.IH"(1) [OF _ 2 esc, of bs off "d + m"] rest m(2) "2.prems"(2) 2 by simp
    with m(1) show ?thesis by simp
  next
    case 3
    with "2.prems" have "unescape cs (i + 1) acc (segment @ [c]) = Closed v j"
      "findStringLen n cs (i + 1) d = (h, k)"
      by (simp_all add: plain_char_def)
    with "2.IH"(2) 3 have "int (length v) \<le> int (length acc + length (segment @ [c])) + k - int (i + 1) + int d"
      by (simp add: plain_char_def)
    then show ?thesis by simp
  qed
qed

end
