(* ===== verification/Json_Text.thy ===== *)
theory Json_Text
  imports Json_Literals
begin

text \<open>
  What the lexer makes of a text: the states of a lexer before and after a token, and the scan of each
  kind of token, with the white space and the separator before it; values that are skipped; and the
  objects of integrations, whose entries may come in any order and number.
\<close>

section \<open>Where a lexer stands\<close>

text \<open>
  Before a token: no token has been scanned, a separator \<open>s\<close> is wanted (the byte 0 for none), \<open>f\<close> says
  whether the next element is the first one, and \<open>ys\<close> is what is left. Holding a token: it has been
  scanned, and \<open>ys\<close> is what is left behind it.
\<close>

definition before :: "lexer \<Rightarrow> char \<Rightarrow> bool \<Rightarrow> bytes \<Rightarrow> bool" where
  "before r s f ys \<longleftrightarrow>
     lx_fatal r = None \<and> lx_kind r = Token_Undef \<and> lx_delim r = CHR 0x00 \<and> lx_sep r = s \<and> lx_first r = f
     \<and> lx_pos r \<le> length (lx_data r) \<and> drop (lx_pos r) (lx_data r) = ys"

definition holding :: "lexer \<Rightarrow> token_kind \<Rightarrow> char \<Rightarrow> bool \<Rightarrow> bytes \<Rightarrow> bool" where
  "holding r k d f ys \<longleftrightarrow>
     lx_fatal r = None \<and> lx_kind r = k \<and> k \<noteq> Token_Undef \<and> lx_delim r = d \<and> lx_sep r = CHR 0x00
     \<and> lx_first r = f \<and> lx_pos r \<le> length (lx_data r) \<and> drop (lx_pos r) (lx_data r) = ys"

definition gap :: "char \<Rightarrow> bytes \<Rightarrow> bool" where
  "gap s g \<longleftrightarrow>
     (if s = CHR 0x00 then list_all is_white g
      else \<exists>a b. g = a @ s # b \<and> list_all is_white a \<and> list_all is_white b)"

definition token_byte :: "char \<Rightarrow> bool" where
  "token_byte c \<longleftrightarrow> c \<noteq> CHR '':'' \<and> c \<noteq> CHR '','' \<and> \<not> is_white c"

lemma drop_behind: "drop n xs = a @ b \<Longrightarrow> drop (n + length a) xs = b"
  by (metis add.commute append_eq_conv_conj drop_drop)

lemma pos_behind: "n \<le> length xs \<Longrightarrow> drop n xs = a @ b \<Longrightarrow> n + length a \<le> length xs"
  by (metis add_le_cancel_left le_add_diff_inverse length_append length_drop le_add1)

lemma holding_scanned: "holding r k d f ys \<Longrightarrow> scanToken r = Returned r"
  by (simp add: holding_def scanToken_def)

lemma holding_consume: "holding r k d f ys \<Longrightarrow> before (consume_token r) (CHR 0x00) f ys"
  by (simp add: holding_def before_def consume_token_def)

lemma before_WantComma: "before r s f ys \<Longrightarrow> before (WantComma r) (CHR '','') False ys"
  by (simp add: before_def WantComma_def)

lemma before_WantColon: "before r s f ys \<Longrightarrow> before (WantColon r) (CHR '':'') False ys"
  by (simp add: before_def WantColon_def)

lemma fetch_white:
  "list_all is_white g \<Longrightarrow> fetch_loop (g @ cs) r =
     fetch_loop cs (r\<lparr>lx_pos := lx_pos r + length g, lx_start := lx_start r + length g\<rparr>)"
proof (induction g arbitrary: r)
  case (Cons c g)
  then have "c \<noteq> CHR '':''" "c \<noteq> CHR '',''" by (auto simp: is_white_def)
  with Cons show ?case by simp
qed simp

lemma scan_white:
  assumes "before r s f (g @ c # ys)" "list_all is_white g" "token_byte c"
  shows "\<exists>r'. scanToken r = fetch_one c r' \<and> before r' s f (c # ys) \<and> lx_start r' = lx_pos r'"
proof -
  let ?r = "r\<lparr>lx_kind := Token_Undef, lx_start := lx_pos r\<rparr>"
  let ?r' = "?r\<lparr>lx_pos := lx_pos r + length g, lx_start := lx_pos r + length g\<rparr>"
  have "scanToken r = fetch_loop (g @ c # ys) ?r"
    using assms(1) by (auto simp: before_def scanToken_def FetchToken_def)
  also have "\<dots> = fetch_loop (c # ys) ?r'" using assms(2) by (simp add: fetch_white del: fetch_loop.simps)
  also have "\<dots> = fetch_one c ?r'" using assms(3) by (intro fetch_loop_one) (simp_all add: token_byte_def)
  finally show ?thesis
    using assms(1) by (intro exI [of _ ?r']) (auto simp: before_def drop_behind dest: pos_behind)
qed

lemma scan_gap:
  assumes "before r s f (g @ c # ys)" "gap s g" "token_byte c" "s \<in> {CHR 0x00, CHR '':'', CHR '',''}"
  shows "\<exists>r'. scanToken r = fetch_one c r' \<and> before r' (CHR 0x00) f (c # ys) \<and> lx_start r' = lx_pos r'"
proof (cases "s = CHR 0x00")
  case True
  with assms scan_white show ?thesis by (auto simp: gap_def)
next
  case False
  then obtain a b where g: "g = a @ s # b" and white: "list_all is_white a" "list_all is_white b"
    using assms(2) by (auto simp: gap_def)
  let ?r = "r\<lparr>lx_kind := Token_Undef, lx_start := lx_pos r\<rparr>"
  let ?n = "lx_pos r + length g"
  let ?r' = "?r\<lparr>lx_sep := CHR 0x00, lx_pos := ?n, lx_start := ?n\<rparr>"
  have "scanToken r = fetch_loop (a @ s # b @ c # ys) ?r"
    using assms(1) g by (auto simp: before_def scanToken_def FetchToken_def)
  also have "\<dots> = fetch_loop (b @ c # ys)
      (?r\<lparr>lx_pos := Suc (lx_pos r + length a), lx_start := Suc (lx_pos r + length a), lx_sep := CHR 0x00\<rparr>)"
    using white(1) False assms(1,4) by (auto simp: fetch_white before_def)
  also have "\<dots> = fetch_loop (c # ys) ?r'"
    using white(2) by (simp add: fetch_white g add.assoc del: fetch_loop.simps)
  also have "\<dots> = fetch_one c ?r'" using assms(3) by (intro fetch_loop_one) (simp_all add: token_byte_def)
  finally show ?thesis
    using assms(1) drop_behind [of "lx_pos r" "lx_data r" g "c # ys"] pos_behind [of "lx_pos r" "lx_data r" g "c # ys"]
    by (intro exI [of _ ?r']) (simp add: before_def)
qed

section \<open>Tokens of a text\<close>

lemma before_sep_check: "before r (CHR 0x00) f ys \<Longrightarrow> sep_check r = r"
  by (simp add: before_def sep_check_def)

lemma scan_string:
  assumes "before r s f (g @ CHR 0x22 # b @ CHR 0x22 # ys)" "gap s g" "literal b v"
    and "s \<in> {CHR 0x00, CHR '':'', CHR '',''}"
  shows "\<exists>r'. scanToken r = Returned r' \<and> holding r' Token_String (CHR 0x00) f ys \<and> lx_bytes r' = v"
proof -
  obtain r1 where scan: "scanToken r = fetch_one (CHR 0x22) r1"
    and r1: "before r1 (CHR 0x00) f (CHR 0x22 # b @ CHR 0x22 # ys)"
    using scan_gap [OF assms(1,2) _ assms(4)] by (auto simp: token_byte_def is_white_def)
  let ?r = "r1\<lparr>lx_kind := Token_String\<rparr>"
  have "fetch_one (CHR 0x22) r1 = fetchString ?r"
    using before_sep_check [OF r1] by (simp add: fetch_one_def is_white_def)
  also have "\<dots> = Returned (?r\<lparr>lx_bytes := v, lx_pos := lx_pos ?r + length b + 2\<rparr>)"
    using r1 by (intro fetchString_literal [OF assms(3)]) (simp add: before_def)
  finally show ?thesis
    using scan r1 drop_behind [of "lx_pos r1" "lx_data r1" "CHR 0x22 # b @ [CHR 0x22]" ys]
      pos_behind [of "lx_pos r1" "lx_data r1" "CHR 0x22 # b @ [CHR 0x22]" ys]
    by (simp add: before_def holding_def)
qed

lemma scan_open:
  assumes "before r s f (g @ c # ys)" "gap s g" "c \<in> {CHR ''{'', CHR ''[''}"
    and "s \<in> {CHR 0x00, CHR '':'', CHR '',''}"
  shows "\<exists>r'. scanToken r = Returned r' \<and> holding r' Token_Delim c True ys"
proof -
  have tok: "token_byte c" using assms(3) by (auto simp: token_byte_def is_white_def)
  obtain r1 where scan: "scanToken r = fetch_one c r1" and r1: "before r1 (CHR 0x00) f (c # ys)"
    using scan_gap [OF assms(1,2) tok assms(4)] by blast
  have "fetch_one c r1 = fetch_delim (r1\<lparr>lx_first := True\<rparr>)"
    using before_sep_check [OF r1] assms(3) by (auto simp: fetch_one_def is_white_def)
  moreover have "lx_pos r1 < length (lx_data r1)" "lx_data r1 ! lx_pos r1 = c"
    using r1 pos_behind [of "lx_pos r1" "lx_data r1" "[c]" ys]
    by (simp_all add: before_def nth_via_drop)
  ultimately show ?thesis
    using scan r1 drop_behind [of "lx_pos r1" "lx_data r1" "[c]" ys]
    by (simp add: before_def holding_def fetch_delim_def byte_at_def)
qed

lemma scan_close:
  assumes "before r s f (g @ CHR ''}'' # ys)" "list_all is_white g" "f \<or> s = CHR '',''"
  shows "\<exists>r'. scanToken r = Returned r' \<and> holding r' Token_Delim (CHR ''}'') f ys"
proof -
  have tok: "token_byte (CHR ''}'')" by (simp add: token_byte_def is_white_def)
  obtain r1 where scan: "scanToken r = fetch_one (CHR ''}'') r1" and r1: "before r1 s f (CHR ''}'' # ys)"
    using scan_white [OF assms(1,2) tok] by blast
  have "fetch_one (CHR ''}'') r1 = fetch_delim (r1\<lparr>lx_sep := CHR 0x00\<rparr>)"
    using r1 assms(3) by (auto simp: fetch_one_def is_white_def before_def)
  moreover have "lx_pos r1 < length (lx_data r1)" "lx_data r1 ! lx_pos r1 = CHR ''}''"
    using r1 pos_behind [of "lx_pos r1" "lx_data r1" "[CHR ''}'']" ys]
    by (simp_all add: before_def nth_via_drop)
  ultimately show ?thesis
    using scan r1 drop_behind [of "lx_pos r1" "lx_data r1" "[CHR ''}'']" ys]
    by (simp add: before_def holding_def fetch_delim_def byte_at_def)
qed

text \<open>What follows a keyword or a number.\<close>

definition ends_token :: "bytes \<Rightarrow> bool" where
  "ends_token ys \<longleftrightarrow> (case ys of [] \<Rightarrow> False | c # _ \<Rightarrow> isTokenEnd c)"

lemma keyword_fetched:
  assumes "before r (CHR 0x00) f (c # w @ ys)" "ys = [] \<or> ends_token ys"
  shows "fetch_keyword w (r\<lparr>lx_kind := k\<rparr>) = r\<lparr>lx_kind := k, lx_pos := lx_pos r + length w + 1\<rparr>"
    and "drop (lx_pos r + length w + 1) (lx_data r) = ys" "lx_pos r + length w + 1 \<le> length (lx_data r)"
proof -
  have data: "drop (lx_pos r) (lx_data r) = (c # w) @ ys" and pos: "lx_pos r \<le> length (lx_data r)"
    using assms(1) by (simp_all add: before_def)
  show ys: "drop (lx_pos r + length w + 1) (lx_data r) = ys"
    using drop_behind [OF data] by simp
  show "lx_pos r + length w + 1 \<le> length (lx_data r)" using pos_behind [OF pos data] by simp
  have "ys = [] \<or> isTokenEnd (lx_data r ! (lx_pos r + length w + 1))"
    using assms(2) ys by (auto simp: ends_token_def nth_via_drop split: list.splits)
  moreover have "take (length w) (drop (lx_pos r + 1) (lx_data r)) = w"
    using drop_behind [of "lx_pos r" "lx_data r" "[c]" "w @ ys"] data by simp
  ultimately show "fetch_keyword w (r\<lparr>lx_kind := k\<rparr>) = r\<lparr>lx_kind := k, lx_pos := lx_pos r + length w + 1\<rparr>"
    using pos_behind [OF pos data] ys by (auto simp: fetch_keyword_def Let_def)
qed

lemma scan_bool:
  assumes "before r s f (g @ write_bool b @ ys)" "gap s g" "ends_token ys"
    and "s \<in> {CHR 0x00, CHR '':'', CHR '',''}"
  shows "\<exists>r'. scanToken r = Returned r' \<and> holding r' Token_Bool (CHR 0x00) f ys \<and> lx_bool r' = b"
proof -
  let ?c = "if b then CHR ''t'' else CHR ''f''" and ?w = "if b then ''rue'' else ''alse''"
  have form: "write_bool b @ ys = ?c # ?w @ ys" by (simp add: write_bool_def)
  have tok: "token_byte ?c" by (simp add: token_byte_def is_white_def)
  obtain r1 where scan: "scanToken r = fetch_one ?c r1" and r1: "before r1 (CHR 0x00) f (?c # ?w @ ys)"
    using scan_gap [OF assms(1) [unfolded form] assms(2) tok assms(4)] by blast
  have r2: "before (r1\<lparr>lx_bool := b\<rparr>) (CHR 0x00) f (?c # ?w @ ys)" using r1 by (simp add: before_def)
  have "fetch_one ?c r1 = Returned (fetch_keyword ?w (r1\<lparr>lx_kind := Token_Bool, lx_bool := b\<rparr>))"
    using before_sep_check [OF r1] by (simp add: fetch_one_def is_white_def is_digit_char_def code_def)
  moreover have "r1\<lparr>lx_kind := Token_Bool, lx_bool := b\<rparr> = r1\<lparr>lx_bool := b\<rparr>\<lparr>lx_kind := Token_Bool\<rparr>" by simp
  ultimately have "scanToken r = Returned (fetch_keyword ?w (r1\<lparr>lx_bool := b\<rparr>\<lparr>lx_kind := Token_Bool\<rparr>))"
    using scan by simp
  with keyword_fetched(1) [OF r2 disjI2 [OF assms(3)], of Token_Bool]
    keyword_fetched(2,3) [OF r2 disjI2 [OF assms(3)]] r1 show ?thesis
    by (simp add: before_def holding_def)
qed

lemma scan_null:
  assumes "before r s f (g @ ''null'' @ ys)" "gap s g" "ys = [] \<or> ends_token ys"
    and "s \<in> {CHR 0x00, CHR '':'', CHR '',''}"
  shows "\<exists>r'. scanToken r = Returned r' \<and> holding r' Token_Null (CHR 0x00) f ys"
proof -
  have tok: "token_byte (CHR ''n'')" by (simp add: token_byte_def is_white_def)
  obtain r1 where scan: "scanToken r = fetch_one (CHR ''n'') r1"
    and r1: "before r1 (CHR 0x00) f (CHR ''n'' # ''ull'' @ ys)"
    using scan_gap [OF _ assms(2) tok assms(4), of r f "''ull'' @ ys"] assms(1) by auto
  have "fetch_one (CHR ''n'') r1 = Returned (fetch_keyword ''ull'' (r1\<lparr>lx_kind := Token_Null\<rparr>))"
    using before_sep_check [OF r1] by (simp add: fetch_one_def is_white_def is_digit_char_def code_def)
  with scan keyword_fetched(1) [OF r1 assms(3), of Token_Null] keyword_fetched(2,3) [OF r1 assms(3)] r1 show ?thesis
    by (simp add: before_def holding_def)
qed

section \<open>Numbers\<close>

definition digits :: "bytes \<Rightarrow> bool" where
  "digits ds \<longleftrightarrow> ds \<noteq> [] \<and> list_all is_digit_char ds"

inductive number_text :: "bytes \<Rightarrow> bool" where
  "sign = '''' \<or> sign = ''-'' \<Longrightarrow> digits ds \<Longrightarrow>
   fraction = [] \<or> (\<exists>fs. digits fs \<and> fraction = CHR ''.'' # fs) \<Longrightarrow>
   exponent = [] \<or> (\<exists>e s es. e \<in> {CHR ''e'', CHR ''E''} \<and> (s = '''' \<or> s = ''+'' \<or> s = ''-'') \<and> digits es
     \<and> exponent = e # s @ es) \<Longrightarrow>
   number_text (sign @ ds @ fraction @ exponent)"

lemma number_end_steps:
  "number_end (CHR ''.'' # cs) i e a False = number_end cs (Suc i) e a True"
  "x \<in> {CHR ''e'', CHR ''E''} \<Longrightarrow> number_end (x # cs) i False a d = number_end cs (Suc i) True True True"
  "s \<in> {CHR ''+'', CHR ''-''} \<Longrightarrow> number_end (s # cs) i e True d = number_end cs (Suc i) e False d"
  "is_digit_char c \<Longrightarrow> number_end (c # cs) i e a d = number_end cs (Suc i) e False d"
  by (auto simp: is_digit_char_def code_def)

lemma number_end_stop:
  assumes "isTokenEnd t"
  shows "number_end (t # ys) i e False d = Some (i, t)"
  using assms unfolding isTokenEnd_def is_white_def
  by (elim disjE) (simp_all add: is_digit_char_def code_def)

lemma number_end_digits:
  "list_all is_digit_char ds \<Longrightarrow> a \<longrightarrow> ds \<noteq> [] \<Longrightarrow>
   number_end (ds @ cs) i e a d = number_end cs (i + length ds) e False d"
proof (induction ds arbitrary: i a)
  case (Cons x ds)
  then show ?case by (simp add: number_end_steps(4) del: number_end.simps)
qed simp

lemma number_end_exponent:
  assumes "x = [] \<or> (\<exists>e s es. e \<in> {CHR ''e'', CHR ''E''} \<and> (s = '''' \<or> s = ''+'' \<or> s = ''-'') \<and> digits es
      \<and> x = e # s @ es)" "isTokenEnd t"
  shows "number_end (x @ t # ys) i False False d = Some (i + length x, t)"
  using assms(1)
proof (elim disjE exE conjE)
  fix e s es assume *: "e \<in> {CHR ''e'', CHR ''E''}" "digits es" "x = e # s @ es"
  note eval = number_end_steps(2,3) number_end_digits digits_def number_end_stop
  show ?thesis if "s = ''''"
    using * that assms(2) by (simp add: eval del: number_end.simps)
  show ?thesis if "s = ''+''"
    using * that assms(2) by (simp add: eval del: number_end.simps)
  show ?thesis if "s = ''-''"
    using * that assms(2) by (simp add: eval del: number_end.simps)
qed (simp add: number_end_stop assms(2) del: number_end.simps)

lemma number_end_fraction:
  assumes "b = [] \<or> (\<exists>fs. digits fs \<and> b = CHR ''.'' # fs)"
  shows "\<exists>d. number_end (b @ cs) i False False False = number_end cs (i + length b) False False d"
  using assms
proof (elim disjE exE conjE)
  fix fs assume "digits fs" "b = CHR ''.'' # fs"
  then show ?thesis
    by (intro exI [of _ True]) (simp add: number_end_steps(1) number_end_digits digits_def del: number_end.simps)
qed auto

lemma digit_not:
  "is_digit_char c \<Longrightarrow> token_byte c \<and> c \<notin> {CHR 0x22, CHR ''{'', CHR ''['', CHR ''}'', CHR '']''}"
  by (rule ccontr) (auto simp: is_digit_char_def code_def token_byte_def is_white_def)

lemma fetch_one_number:
  assumes "is_digit_char c \<or> c = CHR ''-''"
  shows "token_byte c" "fetch_one c r = fetchNumber ((sep_check r)\<lparr>lx_kind := Token_Number\<rparr>)"
proof -
  have not: "token_byte c \<and> c \<notin> {CHR 0x22, CHR ''{'', CHR ''['', CHR ''}'', CHR '']''}"
    using assms
  proof
    assume "is_digit_char c"
    then show ?thesis by (rule digit_not)
  next
    assume "c = CHR ''-''"
    then show ?thesis by (simp add: token_byte_def is_white_def)
  qed
  then show "token_byte c" by blast
  from not assms show "fetch_one c r = fetchNumber ((sep_check r)\<lparr>lx_kind := Token_Number\<rparr>)"
    by (simp add: fetch_one_def token_byte_def)
qed

lemma slice_rest: "p \<le> length d \<Longrightarrow> slice p (length d) d = Returned (drop p d)"
  by simp

lemma number_text_rest:
  assumes "number_text n" "isTokenEnd t"
  shows "\<exists>c cs. n = c # cs \<and> (is_digit_char c \<or> c = CHR ''-'')
    \<and> number_end (cs @ t # ys) 0 False False False = Some (length cs, t)"
  using assms(1)
proof cases
  case (1 sign ds b x)
  have rest: "number_end (es @ b @ x @ t # ys) 0 False False False = Some (length (es @ b @ x), t)"
    if es: "list_all is_digit_char es" for es
  proof -
    obtain d where "number_end (b @ x @ t # ys) (length es) False False False =
        number_end (x @ t # ys) (length es + length b) False False d"
      using number_end_fraction [OF 1(4)] by blast
    with es number_end_exponent [OF 1(5) assms(2)] show ?thesis
      by (simp add: number_end_digits add.assoc del: number_end.simps)
  qed
  obtain z zs where ds: "ds = z # zs" "is_digit_char z" "list_all is_digit_char zs" "list_all is_digit_char ds"
    using 1(3) by (cases ds) (auto simp: digits_def)
  from 1(2) show ?thesis
  proof
    assume "sign = ''''"
    with 1(1) rest [of zs] ds show ?thesis by (simp del: number_end.simps)
  next
    assume "sign = ''-''"
    with 1(1) rest [of ds] ds(4) show ?thesis by (simp del: number_end.simps)
  qed
qed

lemma scan_number:
  assumes "before r s f (g @ n @ ys)" "gap s g" "number_text n" "ends_token ys"
    and "s \<in> {CHR 0x00, CHR '':'', CHR '',''}"
  shows "\<exists>r'. scanToken r = Returned r' \<and> holding r' Token_Number (CHR 0x00) f ys"
proof -
  obtain t zs where ys: "ys = t # zs" "isTokenEnd t"
    using assms(4) by (auto simp: ends_token_def split: list.splits)
  obtain c cs where n: "n = c # cs" "is_digit_char c \<or> c = CHR ''-''"
    and stop: "number_end (cs @ t # zs) 0 False False False = Some (length cs, t)"
    using number_text_rest [OF assms(3) ys(2)] by blast
  note tok = fetch_one_number(1) [OF n(2)]
  obtain r1 where scan: "scanToken r = fetch_one c r1" and r1: "before r1 (CHR 0x00) f (c # cs @ ys)"
    and start: "lx_start r1 = lx_pos r1"
    using scan_gap [OF _ assms(2) tok assms(5), of r f "cs @ ys"] assms(1) n(1) by auto
  have "fetch_one c r1 = fetchNumber (r1\<lparr>lx_kind := Token_Number\<rparr>)"
    using before_sep_check [OF r1] fetch_one_number(2) [OF n(2)] by simp
  moreover have "drop (Suc (lx_pos r1)) (lx_data r1) = cs @ ys"
    using r1 drop_behind [of "lx_pos r1" "lx_data r1" "[c]" "cs @ ys"] by (simp add: before_def)
  moreover have "drop (lx_pos r1 + length n) (lx_data r1) = ys" "lx_pos r1 + length n \<le> length (lx_data r1)"
    using r1 drop_behind [of "lx_pos r1" "lx_data r1" "n" ys] pos_behind [of "lx_pos r1" "lx_data r1" n ys] n(1)
    by (simp_all add: before_def)
  ultimately show ?thesis
    using scan r1 start stop ys n(1)
    by (simp add: before_def holding_def fetchNumber_def Let_def slice_rest) (simp add: slice_def)
qed


section \<open>Values that are skipped\<close>

inductive quoted :: "bytes \<Rightarrow> bool" where
  quoted_Nil: "quoted []"
| quoted_plain: "plain_char c \<Longrightarrow> quoted q \<Longrightarrow> quoted (c # q)"
| quoted_escape: "quoted q \<Longrightarrow> quoted (CHR 0x5C # d # q)"

text \<open>A text in which the brackets \<open>b\<close> and \<open>e\<close> are balanced, those within quotes apart. Nothing else is asked
  of it.\<close>

inductive nested :: "char \<Rightarrow> char \<Rightarrow> bytes \<Rightarrow> bool" for b e where
  nested_Nil: "nested b e []"
| nested_other: "c \<notin> {b, e, CHR 0x22} \<Longrightarrow> nested b e xs \<Longrightarrow> nested b e (c # xs)"
| nested_quote: "quoted q \<Longrightarrow> nested b e xs \<Longrightarrow> nested b e (CHR 0x22 # q @ CHR 0x22 # xs)"
| nested_nest: "nested b e xs \<Longrightarrow> nested b e ys \<Longrightarrow> nested b e (b # xs @ e # ys)"

lemma skip_quoted:
  "quoted q \<Longrightarrow> b \<notin> {CHR 0x22, CHR 0x5C} \<Longrightarrow> e \<notin> {CHR 0x22, CHR 0x5C} \<Longrightarrow>
   skip_loop b e (q @ CHR 0x22 # ys) i l True False = skip_loop b e ys (i + length q + 1) l False False"
  by (induction arbitrary: i rule: quoted.induct) (auto simp: plain_char_def)

lemma skip_nested:
  assumes "nested b e xs" "b \<noteq> e" "b \<notin> {CHR 0x22, CHR 0x5C}" "e \<notin> {CHR 0x22, CHR 0x5C}" "0 < l"
  shows "skip_loop b e (xs @ e # ys) i l False False =
    (if l = 1 then Some (i + length xs) else skip_loop b e ys (i + length xs + 1) (l - 1) False False)"
  using assms(1,5)
proof (induction arbitrary: i l ys rule: nested.induct)
  case nested_Nil
  with assms(2-4) show ?case by auto
next
  case (nested_other c xs)
  with assms(2-4) show ?case by simp
next
  case (nested_quote q xs)
  moreover have "CHR 0x22 \<noteq> b" "CHR 0x22 \<noteq> e" using assms(3,4) by auto
  ultimately show ?case using assms(2-4) skip_quoted by (simp add: add.assoc)
next
  case (nested_nest xs zs)
  with assms(2-4) show ?case by (simp add: add.assoc)
qed

inductive skipped_text :: "bytes \<Rightarrow> bool" where
  skipped_string: "literal b v \<Longrightarrow> skipped_text (CHR 0x22 # b @ [CHR 0x22])"
| skipped_number: "number_text n \<Longrightarrow> skipped_text n"
| skipped_bool: "skipped_text (write_bool b)"
| skipped_object: "nested (CHR ''{'') (CHR ''}'') xs \<Longrightarrow> skipped_text (CHR ''{'' # xs @ ''}'')"
| skipped_array: "nested (CHR ''['') (CHR '']'') xs \<Longrightarrow> skipped_text (CHR ''['' # xs @ '']'')"

lemma skip_to_nested:
  assumes "holding r Token_Delim b f (xs @ e # ys)" "nested b e xs" "b \<noteq> e"
    and "b \<notin> {CHR 0x22, CHR 0x5C}" "e \<notin> {CHR 0x22, CHR 0x5C}"
  shows "\<exists>r'. skip_to b e r = Returned r' \<and> before r' (CHR 0x00) f ys"
proof -
  have "skip_loop b e (drop (lx_pos r) (lx_data r)) 0 1 False False = Some (length xs)"
    using assms skip_nested [OF assms(2-5), of 1 ys 0] by (simp add: holding_def)
  then show ?thesis
    using assms(1) drop_behind [of "lx_pos r" "lx_data r" "xs @ [e]" ys]
      pos_behind [of "lx_pos r" "lx_data r" "xs @ [e]" ys]
    by (simp add: skip_to_def holding_def before_def consume_token_def slice_rest Let_def)
qed

text \<open>The scan of the first token of a value that is skipped, and the skipping from there.\<close>

lemma skip_value:
  assumes "before r s f (g @ x @ ys)" "gap s g" "skipped_text x" "ends_token ys"
    and "s \<in> {CHR 0x00, CHR '':'', CHR '',''}"
  shows "\<exists>r1 r2 f'. scanToken r = Returned r1 \<and> lx_fatal r1 = None \<and> lx_kind r1 \<noteq> Token_Undef
    \<and> lx_kind r1 \<noteq> Token_Null \<and> SkipRecursive r1 = Returned r2 \<and> before r2 (CHR 0x00) f' ys"
proof -
  have scalar: ?thesis if "scanToken r = Returned r1" "holding r1 k (CHR 0x00) f ys" "k \<noteq> Token_Null" for r1 k
    using that holding_scanned [OF that(2)] holding_consume [OF that(2)]
    by (auto simp: SkipRecursive_def holding_def)
  have bracket: ?thesis if "scanToken r = Returned r1" "holding r1 Token_Delim b True (xs @ e # ys)" "nested b e xs"
      "(b, e) \<in> {(CHR ''{'', CHR ''}''), (CHR ''['', CHR '']'')}" for r1 b e xs
  proof -
    note facts = that
    obtain r2 where "skip_to b e r1 = Returned r2" "before r2 (CHR 0x00) True ys"
      using skip_to_nested [OF facts(2,3)] facts(4) by auto
    then show ?thesis using facts holding_scanned [OF facts(2)] by (auto simp: SkipRecursive_def holding_def)
  qed
  from assms(3) show ?thesis
  proof cases
    case (skipped_string b v)
    with scan_string [of r s f g b ys v] assms scalar show ?thesis by auto
  next
    case skipped_number
    with scan_number [of r s f g x ys] assms scalar show ?thesis by blast
  next
    case (skipped_bool b)
    with scan_bool [of r s f g b ys] assms scalar show ?thesis by auto
  next
    case (skipped_object xs)
    with scan_open [of r s f g "CHR ''{''" "xs @ CHR ''}'' # ys"] assms
      bracket [of _ "CHR ''{''" xs "CHR ''}''"] show ?thesis by auto
  next
    case (skipped_array xs)
    with scan_open [of r s f g "CHR ''[''" "xs @ CHR '']'' # ys"] assms
      bracket [of _ "CHR ''[''" xs "CHR '']''"] show ?thesis by auto
  qed
qed

section \<open>Objects\<close>

text \<open>Members with commas between them: with the first one there is no comma, so \<open>s\<close> is the byte 0.\<close>

fun members :: "char \<Rightarrow> bytes list \<Rightarrow> bytes" where
  "members s [] = []"
| "members s (x # xs) = (if s = CHR 0x00 then [] else [s]) @ x @ members (CHR '','') xs"

inductive entry_text :: "bytes \<Rightarrow> string \<times> bool \<Rightarrow> bool" where
  entry: "list_all is_white w1 \<Longrightarrow> list_all is_white w2 \<Longrightarrow> list_all is_white w3 \<Longrightarrow> list_all is_white w4 \<Longrightarrow>
   literal b k \<Longrightarrow> entry_text (w1 @ CHR 0x22 # b @ CHR 0x22 # w2 @ CHR '':'' # w3 @ write_bool v @ w4) (k, v)"

lemma gap_lead:
  "list_all is_white w \<Longrightarrow> list_all is_white w1 \<Longrightarrow> s = CHR 0x00 \<or> s = CHR '','' \<Longrightarrow>
   gap s (w @ (if s = CHR 0x00 then [] else [s]) @ w1)"
  by (auto simp: gap_def)

lemma gap_colon: "list_all is_white w \<Longrightarrow> list_all is_white w1 \<Longrightarrow> gap (CHR '':'') (w @ CHR '':'' # w1)"
  by (auto simp: gap_def)

lemma ends_white: "list_all is_white w \<Longrightarrow> ends_token ys \<Longrightarrow> ends_token (w @ ys)"
  by (cases w) (auto simp: ends_token_def isTokenEnd_def)

lemma ends_members: "ends_token (members (CHR '','') xs @ CHR ''}'' # ys)"
  by (cases xs) (simp_all add: ends_token_def isTokenEnd_def)

text \<open>The end of the object, met by \<open>IsDelim\<close> and then taken by \<open>Delim\<close>.\<close>

lemma close_object:
  assumes "before r s f (w @ CHR ''}'' # ys)" "list_all is_white w" "f \<or> s = CHR '',''"
  shows "\<exists>r1. IsDelim (CHR ''}'') r = Returned (True, r1) \<and> IsDelim (CHR ''}'') r1 = Returned (True, r1)
    \<and> (\<exists>r2. Delim (CHR ''}'') r1 = Returned r2 \<and> before r2 (CHR 0x00) f ys)"
proof -
  obtain r1 where "scanToken r = Returned r1" and r1: "holding r1 Token_Delim (CHR ''}'') f ys"
    using scan_close [OF assms] by blast
  moreover have "lx_fatal r1 = None" "lx_delim r1 = CHR ''}''" using r1 by (simp_all add: holding_def)
  moreover note holding_scanned [OF r1] holding_consume [OF r1]
  ultimately show ?thesis by (simp add: IsDelim_def Delim_def)
qed

text \<open>A key, met by \<open>IsDelim\<close> and then taken by \<open>String\<close>.\<close>

lemma take_key:
  assumes "before r s f (g @ CHR 0x22 # b @ CHR 0x22 # ys)" "gap s g" "literal b k"
    and "s \<in> {CHR 0x00, CHR '':'', CHR '',''}"
  shows "\<exists>r1 r2. IsDelim (CHR ''}'') r = Returned (False, r1) \<and> IsDelim (CHR ''}'') r1 = Returned (False, r1)
    \<and> lexer_String r1 = Returned (k, r2) \<and> before r2 (CHR 0x00) f ys"
proof -
  obtain r1 where "scanToken r = Returned r1" and r1: "holding r1 Token_String (CHR 0x00) f ys" "lx_bytes r1 = k"
    using scan_string [OF assms] by blast
  moreover have "lx_fatal r1 = None" "lx_delim r1 = CHR 0x00" "lx_kind r1 = Token_String"
    using r1(1) by (simp_all add: holding_def)
  moreover note holding_scanned [OF r1(1)] holding_consume [OF r1(1)]
  ultimately show ?thesis by (simp add: IsDelim_def lexer_String_def)
qed

lemma decode_entries_text:
  assumes "list_all2 entry_text xs kvs" "list_all is_white w" "s = CHR 0x00 \<or> s = CHR '',''"
    and "before r s (s = CHR 0x00) (w @ members s xs @ CHR ''}'' # ys)" "xs = [] \<or> wm_Integrations v = Some m"
  shows "\<exists>r1 r2 f. decode_entries r v = Returned (r1, if xs = [] then v
        else v\<lparr>wm_Integrations := Some (m ++ map_of (rev kvs))\<rparr>)
    \<and> Delim (CHR ''}'') r1 = Returned r2 \<and> before r2 (CHR 0x00) f ys"
  using assms
proof (induction xs kvs arbitrary: w s r v m rule: list_all2_induct)
  case Nil
  then have "before r s (s = CHR 0x00) (w @ CHR ''}'' # ys)" "s = CHR 0x00 \<or> s = CHR '',''" by simp_all
  with close_object [OF this(1) Nil.prems(1)] show ?case
    by (subst decode_entries.simps) auto
next
  case (Cons x xs kv kvs)
  from Cons.hyps(1) show ?case
  proof cases
    case (entry w1 w2 w3 w4 b k u)
    let ?g = "w @ (if s = CHR 0x00 then [] else [s]) @ w1"
    let ?rest = "w2 @ CHR '':'' # w3 @ write_bool u @ w4 @ members (CHR '','') xs @ CHR ''}'' # ys"
    have "before r s (s = CHR 0x00) (?g @ CHR 0x22 # b @ CHR 0x22 # ?rest)"
      using Cons.prems(3) entry(1) by simp
    from take_key [OF this gap_lead [OF Cons.prems(1) entry(3) Cons.prems(2)] entry(7)] Cons.prems(2)
    obtain r1 r2 where key: "IsDelim (CHR ''}'') r = Returned (False, r1)" "lexer_String r1 = Returned (k, r2)"
      and r2: "before r2 (CHR 0x00) (s = CHR 0x00) ?rest"
      by blast
    have "before (WantColon r2) (CHR '':'') False ((w2 @ CHR '':'' # w3) @ write_bool u @ w4
        @ members (CHR '','') xs @ CHR ''}'' # ys)"
      using before_WantColon [OF r2] by simp
    from scan_bool [OF this gap_colon [OF entry(4,5)] ends_white [OF entry(6) ends_members]]
    obtain r3 where scan: "scanToken (WantColon r2) = Returned r3"
      and r3: "holding r3 Token_Bool (CHR 0x00) False (w4 @ members (CHR '','') xs @ CHR ''}'' # ys)" "lx_bool r3 = u"
      by auto
    have val: "lexer_Bool (WantColon r2) = Returned (u, consume_token r3)"
      using scan r3 by (simp add: lexer_Bool_def holding_def)
    let ?v = "v\<lparr>wm_Integrations := Some (m(k \<mapsto> u))\<rparr>"
    have m: "wm_Integrations v = Some m" using Cons.prems(4) by simp
    have sel: "wm_Integrations ?v = Some (m(k \<mapsto> u))" by simp
    have "before (WantComma (consume_token r3)) (CHR '','') ((CHR '','') = CHR 0x00)
        (w4 @ members (CHR '','') xs @ CHR ''}'' # ys)"
      using before_WantComma [OF holding_consume [OF r3(1)]] by simp
    then have "\<exists>r4 r5 f. decode_entries (WantComma (consume_token r3)) ?v = Returned (r4, if xs = [] then ?v
        else ?v\<lparr>wm_Integrations := Some (m(k \<mapsto> u) ++ map_of (rev kvs))\<rparr>)
      \<and> Delim (CHR ''}'') r4 = Returned r5 \<and> before r5 (CHR 0x00) f ys"
      by (rule Cons.IH [OF entry(6) disjI2 [OF refl] _ disjI2 [OF sel]])
    then obtain r4 r5 f where "decode_entries (WantComma (consume_token r3)) ?v = Returned (r4, if xs = [] then ?v
        else ?v\<lparr>wm_Integrations := Some (m(k \<mapsto> u) ++ map_of (rev kvs))\<rparr>)"
      and last: "Delim (CHR ''}'') r4 = Returned r5" "before r5 (CHR 0x00) f ys"
      by blast
    moreover have "m ++ map_of (rev kvs @ [(k, u)]) = m(k \<mapsto> u) ++ map_of (rev kvs)"
      by (simp add: map_add_def fun_eq_iff split: option.splits)
    moreover have "kvs = [] \<longleftrightarrow> xs = []" using Cons.hyps(2) by auto
    ultimately have "decode_entries r v =
        Returned (r4, v\<lparr>wm_Integrations := Some (m ++ map_of (rev kvs @ [(k, u)]))\<rparr>)"
      using key val m by (subst decode_entries.simps) auto
    with last entry(2) show ?thesis by auto
  qed
qed

end
