(* ===== verification/Message_Text.thy ===== *)
theory Message_Text
  imports Json_Text
begin

text \<open>
  The texts of messages, as a grammar over bytes, and that the decoder gives for each the message it
  describes; the text that \<open>MarshalJSON\<close> writes is one of them.
\<close>

section \<open>Messages\<close>

inductive value_text :: "string \<Rightarrow> bytes \<Rightarrow> (wire_message \<Rightarrow> wire_message) \<Rightarrow> bool" where
  value_app: "literal b s \<Longrightarrow> value_text ''appId'' (CHR 0x22 # b @ [CHR 0x22]) (\<lambda>v. v\<lparr>wm_AppId := s\<rparr>)"
| value_id: "literal b s \<Longrightarrow> value_text ''messageId'' (CHR 0x22 # b @ [CHR 0x22]) (\<lambda>v. v\<lparr>wm_MessageID := s\<rparr>)"
| value_null: "value_text key ''null'' (\<lambda>v. v)"
| value_empty: "list_all is_white w \<Longrightarrow>
    value_text ''integrations'' (''{'' @ w @ ''}'') (\<lambda>v. v\<lparr>wm_Integrations := None\<rparr>)"
| value_map: "list_all2 entry_text xs kvs \<Longrightarrow> xs \<noteq> [] \<Longrightarrow>
    value_text ''integrations'' (''{'' @ members (CHR 0x00) xs @ ''}'')
      (\<lambda>v. v\<lparr>wm_Integrations := Some (map_of (rev kvs))\<rparr>)"
| value_skip: "key \<notin> {''appId'', ''messageId'', ''integrations''} \<Longrightarrow> skipped_text x \<Longrightarrow>
    value_text key x (\<lambda>v. v)"

lemma decode_entries_scanned:
  assumes "IsDelim (CHR ''}'') r = Returned (b, r1)" "IsDelim (CHR ''}'') r1 = Returned (b, r1)"
  shows "decode_entries r1 v = decode_entries r v"
  using assms by (subst (1 2) decode_entries.simps) simp

lemma open_object:
  assumes "holding r Token_Delim (CHR ''{'') True ys"
  shows "IsNull r = Returned (False, r)" "Delim (CHR ''{'') r = Returned (consume_token r)"
    "before (consume_token r) (CHR 0x00) True ys"
  using assms holding_scanned [OF assms] holding_consume [OF assms]
  by (simp_all add: IsNull_def Delim_def holding_def)

lemma decode_integrations_text:
  assumes "holding r Token_Delim (CHR ''{'') True (w @ members (CHR 0x00) xs @ CHR ''}'' # ys)"
    and "list_all is_white w" "list_all2 entry_text xs kvs"
  shows "\<exists>r' f. decode_integrations r v = Returned (r', v\<lparr>wm_Integrations :=
      if xs = [] then None else Some (map_of (rev kvs))\<rparr>) \<and> before r' (CHR 0x00) f ys"
proof -
  let ?r = "consume_token r"
  note start = open_object [OF assms(1)]
  have "\<exists>r1. IsDelim (CHR ''}'') ?r = Returned (xs = [], r1) \<and> IsDelim (CHR ''}'') r1 = Returned (xs = [], r1)"
  proof (cases xs)
    case Nil
    with close_object [of ?r "CHR 0x00" True w ys] start(3) assms(2) show ?thesis by auto
  next
    case (Cons x xs')
    with assms(3) obtain kv where "entry_text x kv" by (auto simp: list_all2_Cons1)
    then show ?thesis
    proof cases
      case (entry w1 w2 w3 w4 b k u)
      with start(3) Cons have "before ?r (CHR 0x00) True ((w @ w1) @ CHR 0x22 # b @ CHR 0x22 # w2 @ CHR '':'' # w3
          @ write_bool u @ w4 @ members (CHR '','') xs' @ CHR ''}'' # ys)"
        by simp
      from take_key [OF this _ entry(7)] entry(3) assms(2) Cons show ?thesis by (auto simp: gap_def)
    qed
  qed
  then obtain r1 where delim: "IsDelim (CHR ''}'') ?r = Returned (xs = [], r1)"
    "IsDelim (CHR ''}'') r1 = Returned (xs = [], r1)"
    by blast
  let ?v = "v\<lparr>wm_Integrations := (if xs = [] then None else Some Map.empty)\<rparr>"
  have "\<exists>r2 r3 f. decode_entries ?r ?v = Returned (r2, if xs = [] then ?v
        else ?v\<lparr>wm_Integrations := Some (Map.empty ++ map_of (rev kvs))\<rparr>)
      \<and> Delim (CHR ''}'') r2 = Returned r3 \<and> before r3 (CHR 0x00) f ys"
    by (rule decode_entries_text [OF assms(3,2), where s = "CHR 0x00"]) (use start(3) in simp_all)
  then obtain r2 r3 f where "decode_entries r1 ?v = Returned (r2, v\<lparr>wm_Integrations :=
      if xs = [] then None else Some (map_of (rev kvs))\<rparr>)"
    "Delim (CHR ''}'') r2 = Returned r3" "before r3 (CHR 0x00) f ys"
    unfolding decode_entries_scanned [OF delim] by (auto split: if_splits)
  with start delim(1) show ?thesis by (auto simp: decode_integrations_def)
qed

lemma decode_value:
  assumes "value_text key x upd" "before r s f (g @ x @ ys)" "gap s g" "ends_token ys"
    and "s \<in> {CHR 0x00, CHR '':'', CHR '',''}"
  shows "\<exists>null r1 r2 f'. IsNull r = Returned (null, r1)
    \<and> (if null then Skip r1 = Returned r2 \<and> upd v = v else decode_field key r1 v = Returned (r2, upd v))
    \<and> before r2 (CHR 0x00) f' ys"
proof -
  have string: "\<exists>r1. IsNull r = Returned (False, r1) \<and> lexer_String r1 = Returned (w, consume_token r1)
      \<and> before (consume_token r1) (CHR 0x00) f ys" if x: "x = CHR 0x22 # b @ [CHR 0x22]" and b: "literal b w" for b w
  proof -
    obtain r1 where "scanToken r = Returned r1" and r1: "holding r1 Token_String (CHR 0x00) f ys" "lx_bytes r1 = w"
      using scan_string [OF _ assms(3) b assms(5), of r f ys] assms(2) x by auto
    then show ?thesis
      using holding_scanned [OF r1(1)] holding_consume [OF r1(1)]
      by (simp add: IsNull_def lexer_String_def holding_def)
  qed
  have object: "\<exists>r1 r2 f'. IsNull r = Returned (False, r1) \<and> decode_field ''integrations'' r1 v = Returned (r2,
      v\<lparr>wm_Integrations := if xs = [] then None else Some (map_of (rev kvs))\<rparr>) \<and> before r2 (CHR 0x00) f' ys"
    if x: "x = ''{'' @ w @ members (CHR 0x00) xs @ ''}''" and xs: "list_all is_white w" "list_all2 entry_text xs kvs"
    for w xs kvs
  proof -
    obtain r1 where scan: "scanToken r = Returned r1"
      and r1: "holding r1 Token_Delim (CHR ''{'') True (w @ members (CHR 0x00) xs @ CHR ''}'' # ys)"
      using scan_open [OF _ assms(3) _ assms(5), of r f "CHR ''{''" "w @ members (CHR 0x00) xs @ CHR ''}'' # ys"]
        assms(2) x by auto
    then have "IsNull r = Returned (False, r1)" by (simp add: IsNull_def holding_def)
    with decode_integrations_text [OF r1 xs] show ?thesis by (auto simp: decode_field_def)
  qed
  have other: ?thesis if "IsNull r = Returned (False, r1)" "decode_field key r1 v = Returned (r2, upd v)"
      "before r2 (CHR 0x00) f' ys" for r1 r2 f'
    using that by (intro exI [of _ False] exI [of _ r1] exI [of _ r2] exI [of _ f']) simp
  from assms(1) show ?thesis
  proof cases
    case (value_app b w)
    from string [OF this(2,4)] obtain r1 where "IsNull r = Returned (False, r1)"
      "lexer_String r1 = Returned (w, consume_token r1)" "before (consume_token r1) (CHR 0x00) f ys"
      by blast
    then show ?thesis
      by (intro other [of r1 "consume_token r1" f]) (simp_all add: value_app decode_field_def)
  next
    case (value_id b w)
    from string [OF this(2,4)] obtain r1 where "IsNull r = Returned (False, r1)"
      "lexer_String r1 = Returned (w, consume_token r1)" "before (consume_token r1) (CHR 0x00) f ys"
      by blast
    then show ?thesis
      by (intro other [of r1 "consume_token r1" f]) (simp_all add: value_id decode_field_def)
  next
    case value_null
    obtain r1 where "scanToken r = Returned r1" and r1: "holding r1 Token_Null (CHR 0x00) f ys"
      using scan_null [of r s f g ys] assms value_null by auto
    then show ?thesis
      using value_null holding_scanned [OF r1] holding_consume [OF r1]
      by (intro exI [of _ True] exI [of _ r1] exI [of _ "consume_token r1"] exI [of _ f])
        (simp add: IsNull_def Skip_def holding_def)
  next
    case (value_empty w)
    from object [of w "[]" "[]"] this obtain r1 r2 f' where "IsNull r = Returned (False, r1)"
      "decode_field ''integrations'' r1 v = Returned (r2, v\<lparr>wm_Integrations := None\<rparr>)" "before r2 (CHR 0x00) f' ys"
      by auto
    then show ?thesis by (intro other [of r1 r2 f']) (simp_all add: value_empty)
  next
    case (value_map xs kvs)
    from object [of "[]" xs kvs] this obtain r1 r2 f' where "IsNull r = Returned (False, r1)"
      "decode_field ''integrations'' r1 v = Returned (r2, v\<lparr>wm_Integrations := Some (map_of (rev kvs))\<rparr>)"
      "before r2 (CHR 0x00) f' ys"
      by auto
    then show ?thesis by (intro other [of r1 r2 f']) (simp_all add: value_map)
  next
    case value_skip
    from skip_value [OF assms(2,3) value_skip(3) assms(4,5)] obtain r1 r2 f' where
      "scanToken r = Returned r1" "lx_kind r1 \<noteq> Token_Null" "SkipRecursive r1 = Returned r2"
      "before r2 (CHR 0x00) f' ys"
      by blast
    with value_skip show ?thesis by (intro other [of r1 r2 f']) (auto simp: IsNull_def decode_field_def)
  qed
qed

inductive field_text :: "bytes \<Rightarrow> (wire_message \<Rightarrow> wire_message) \<Rightarrow> bool" where
  field: "list_all is_white w1 \<Longrightarrow> list_all is_white w2 \<Longrightarrow> list_all is_white w3 \<Longrightarrow> list_all is_white w4 \<Longrightarrow>
   literal b key \<Longrightarrow> value_text key x upd \<Longrightarrow>
   field_text (w1 @ CHR 0x22 # b @ CHR 0x22 # w2 @ CHR '':'' # w3 @ x @ w4) upd"

inductive message_text :: "bytes \<Rightarrow> (wire_message \<Rightarrow> wire_message) \<Rightarrow> bool" where
  message_null: "list_all is_white w1 \<Longrightarrow> list_all is_white w2 \<Longrightarrow> message_text (w1 @ ''null'' @ w2) (\<lambda>v. v)"
| message_object: "list_all is_white w1 \<Longrightarrow> list_all is_white w2 \<Longrightarrow> list_all is_white w3 \<Longrightarrow>
   list_all2 field_text xs upds \<Longrightarrow>
   message_text (w1 @ ''{'' @ w2 @ members (CHR 0x00) xs @ ''}'' @ w3) (fold (\<lambda>upd. upd) upds)"

lemma decode_fields_text:
  assumes "list_all2 field_text xs upds" "list_all is_white w" "s = CHR 0x00 \<or> s = CHR '',''"
    and "before r s (s = CHR 0x00) (w @ members s xs @ CHR ''}'' # ys)"
  shows "\<exists>r1 r2 f. decode_fields r v = Returned (r1, fold (\<lambda>upd. upd) upds v)
    \<and> Delim (CHR ''}'') r1 = Returned r2 \<and> before r2 (CHR 0x00) f ys"
  using assms
proof (induction xs upds arbitrary: w s r v rule: list_all2_induct)
  case Nil
  then have "before r s (s = CHR 0x00) (w @ CHR ''}'' # ys)" "s = CHR 0x00 \<or> s = CHR '',''" by simp_all
  with close_object [OF this(1) Nil.prems(1)] show ?case
    by (subst decode_fields.simps) auto
next
  case (Cons x xs upd upds)
  from Cons.hyps(1) show ?case
  proof cases
    case (field w1 w2 w3 w4 b key y)
    let ?g = "w @ (if s = CHR 0x00 then [] else [s]) @ w1"
    let ?tail = "w4 @ members (CHR '','') xs @ CHR ''}'' # ys"
    let ?rest = "w2 @ CHR '':'' # w3 @ y @ ?tail"
    have "before r s (s = CHR 0x00) (?g @ CHR 0x22 # b @ CHR 0x22 # ?rest)"
      using Cons.prems(3) field(1) by simp
    from take_key [OF this gap_lead [OF Cons.prems(1) field(2) Cons.prems(2)] field(6)] Cons.prems(2)
    obtain r1 r2 where key: "IsDelim (CHR ''}'') r = Returned (False, r1)" "lexer_String r1 = Returned (key, r2)"
      and r2: "before r2 (CHR 0x00) (s = CHR 0x00) ?rest"
      by blast
    have "before (WantColon r2) (CHR '':'') False ((w2 @ CHR '':'' # w3) @ y @ ?tail)"
      using before_WantColon [OF r2] by simp
    from decode_value [OF field(7) this gap_colon [OF field(3,4)] ends_white [OF field(5) ends_members], of v]
    obtain null r3 r4 f where null: "IsNull (WantColon r2) = Returned (null, r3)"
      and val: "if null then Skip r3 = Returned r4 \<and> upd v = v else decode_field key r3 v = Returned (r4, upd v)"
      and r4: "before r4 (CHR 0x00) f ?tail"
      by auto
    have "before (WantComma r4) (CHR '','') ((CHR '','') = CHR 0x00) ?tail"
      using before_WantComma [OF r4] by simp
    then have "\<exists>r5 r6 f. decode_fields (WantComma r4) (upd v) = Returned (r5, fold (\<lambda>upd. upd) upds (upd v))
      \<and> Delim (CHR ''}'') r5 = Returned r6 \<and> before r6 (CHR 0x00) f ys"
      by (rule Cons.IH [OF field(5) disjI2 [OF refl]])
    then obtain r5 r6 f where "decode_fields (WantComma r4) (upd v) = Returned (r5, fold (\<lambda>upd. upd) upds (upd v))"
      and last: "Delim (CHR ''}'') r5 = Returned r6" "before r6 (CHR 0x00) f ys"
      by blast
    then have "decode_fields r v = Returned (r5, fold (\<lambda>upd. upd) (upd # upds) v)"
      using key null val by (subst decode_fields.simps) (cases null, simp_all)
    with last show ?thesis by blast
  qed
qed

lemma consumed_white:
  "list_all is_white cs \<Longrightarrow> lx_fatal (consumed_loop cs r) = lx_fatal r \<and> lx_kind (consumed_loop cs r) = lx_kind r"
  by (induction cs arbitrary: r) simp_all

lemma UnmarshalJSON_text:
  assumes "message_text data upd"
  shows "UnmarshalJSON data v = Returned (upd v, None)"
proof -
  have start: "before (new_lexer data) (CHR 0x00) False data" "IsStart (new_lexer data)"
    by (simp_all add: before_def new_lexer_def IsStart_def)
  from assms show ?thesis
  proof cases
    case (message_null w1 w2)
    have "w2 = [] \<or> ends_token w2"
      using message_null(4) by (cases w2) (auto simp: ends_token_def isTokenEnd_def)
    with scan_null [of "new_lexer data" "CHR 0x00" False w1 w2] start(1) message_null
    obtain r1 where scan: "scanToken (new_lexer data) = Returned r1" and r1: "holding r1 Token_Null (CHR 0x00) False w2"
      by (auto simp: gap_def)
    let ?r = "consumed_loop w2 r1"
    have r: "Consumed r1 = ?r" using r1 by (simp add: Consumed_def holding_def)
    have "lx_fatal ?r = None" "lx_kind ?r = Token_Null"
      using consumed_white [OF message_null(4)] r1 by (simp_all add: holding_def)
    then have "Skip (Consumed r1) = Returned (consume_token ?r)" "lx_fatal (consume_token ?r) = None"
      unfolding r by (simp_all add: Skip_def scanToken_def consume_token_def)
    with scan r1 start message_null(2) show ?thesis
      by (simp add: UnmarshalJSON_def decode_message_def IsNull_def holding_def)
  next
    case (message_object w1 w2 w3 xs upds)
    have "before (new_lexer data) (CHR 0x00) False
        (w1 @ CHR ''{'' # w2 @ members (CHR 0x00) xs @ CHR ''}'' # w3)"
      using start(1) message_object(1) by simp
    from scan_open [OF this, of] message_object(3) obtain r1 where scan: "scanToken (new_lexer data) = Returned r1"
      and r1: "holding r1 Token_Delim (CHR ''{'') True (w2 @ members (CHR 0x00) xs @ CHR ''}'' # w3)"
      by (auto simp: gap_def)
    note obj = open_object [OF r1]
    have null: "IsNull (new_lexer data) = Returned (False, r1)"
      using scan r1 by (simp add: IsNull_def holding_def)
    from decode_fields_text [OF message_object(6,4), of "CHR 0x00" "consume_token r1" w3 v] obj(3)
    obtain r2 r3 f where fields: "decode_fields (consume_token r1) v = Returned (r2, upd v)"
      "Delim (CHR ''}'') r2 = Returned r3" and r3: "before r3 (CHR 0x00) f w3"
      using message_object(2) by auto
    have "lx_fatal (Consumed r3) = None"
      using consumed_white [OF message_object(5)] r3 by (simp add: Consumed_def before_def)
    with null obj(2) fields start(2) show ?thesis
      by (simp add: UnmarshalJSON_def decode_message_def)
  qed
qed

section \<open>The text of a message written\<close>

definition valid_message :: "wire_message \<Rightarrow> bool" where
  "valid_message v \<longleftrightarrow> valid_utf8 (wm_AppId v) \<and> valid_utf8 (wm_MessageID v)
     \<and> (\<forall>m. wm_Integrations v = Some m \<longrightarrow> (\<forall>k \<in> dom m. valid_utf8 k))"

definition nil_if_empty :: "(string \<rightharpoonup> bool) option \<Rightarrow> (string \<rightharpoonup> bool) option" where
  "nil_if_empty i = (if i = Some Map.empty then None else i)"

lemma write_string_eq: "write_string s = CHR 0x22 # write_chars s @ [CHR 0x22]"
  by (simp add: write_string_def)

lemma field_plain:
  assumes "list_all plain_char key" "value_text key x upd"
  shows "field_text (CHR 0x22 # key @ CHR 0x22 # CHR '':'' # x) upd"
  using field [of "[]" "[]" "[]" "[]", OF _ _ _ _ literal_plain_append [OF assms(1) literal_Nil], of x upd] assms(2)
  by simp

lemma write_entries_members:
  "write_entries first ks m =
     members (if first then CHR 0x00 else CHR '','') (map (\<lambda>k. write_string k @ '':'' @ write_bool (the (m k))) ks)"
  by (induction ks arbitrary: first) simp_all

lemma entries_text:
  "\<forall>k \<in> set ks. valid_utf8 k \<Longrightarrow>
   list_all2 entry_text (map (\<lambda>k. write_string k @ '':'' @ write_bool (the (m k))) ks) (map (\<lambda>k. (k, the (m k))) ks)"
proof (induction ks)
  case (Cons k ks)
  have "literal (write_chars k) k" using write_chars_literal [of k] Cons.prems to_valid_valid by simp
  from entry [of "[]" "[]" "[]" "[]", OF _ _ _ _ this, of "the (m k)"] Cons show ?case
    by (simp add: write_string_eq)
qed simp

lemma map_of_enumerated:
  assumes "enumerates ks m"
  shows "map_of (rev (map (\<lambda>k. (k, the (m k))) ks)) = m"
proof
  fix x
  have "map_of (map (\<lambda>k. (k, the (m k))) (rev ks)) x = (if x \<in> set ks then Some (the (m x)) else None)"
    by (simp add: map_of_map_restrict restrict_map_def)
  also have "\<dots> = m x" using assms by (auto simp: enumerates_def)
  finally show "map_of (rev (map (\<lambda>k. (k, the (m k))) ks)) x = m x" by (simp add: rev_map)
qed

lemma integrations_value:
  assumes "\<And>m. i = Some m \<Longrightarrow> enumerates (order m) m \<and> (\<forall>k \<in> dom m. valid_utf8 k)"
  shows "\<exists>upd. value_text ''integrations'' (case i of None \<Rightarrow> ''null''
      | Some m \<Rightarrow> ''{'' @ write_entries True (order m) m @ ''}'') upd
    \<and> (\<forall>v. wm_Integrations v = None \<longrightarrow> upd v = v\<lparr>wm_Integrations := nil_if_empty i\<rparr>)"
proof (cases i)
  case None
  then show ?thesis
    by (intro exI [of _ "\<lambda>v. v"]) (simp add: nil_if_empty_def value_null)
next
  case (Some m)
  let ?xs = "map (\<lambda>k. write_string k @ '':'' @ write_bool (the (m k))) (order m)"
  have order: "enumerates (order m) m" "\<forall>k \<in> set (order m). valid_utf8 k"
    using assms [OF Some] by (auto simp: enumerates_def)
  show ?thesis
  proof (cases "order m = []")
    case True
    then have "m = Map.empty" using order(1) unfolding enumerates_def by (metis dom_eq_empty_conv list.set(1))
    with Some True value_empty [of "[]"] show ?thesis
      by (intro exI [of _ "\<lambda>v. v\<lparr>wm_Integrations := None\<rparr>"]) (simp add: nil_if_empty_def)
  next
    case False
    have "m \<noteq> Map.empty" using order(1) False by (auto simp: enumerates_def)
    with Some value_map [OF entries_text [OF order(2), of m]] False map_of_enumerated [OF order(1)] show ?thesis
      by (intro exI [of _ "\<lambda>v. v\<lparr>wm_Integrations := Some m\<rparr>"]) (simp add: nil_if_empty_def write_entries_members)
  qed
qed

lemma MarshalJSON_text:
  assumes "valid_message v" "\<And>m. wm_Integrations v = Some m \<Longrightarrow> enumerates (order m) m"
  shows "\<exists>upd. message_text (MarshalJSON order v) upd
    \<and> upd zero_message = v\<lparr>wm_Integrations := nil_if_empty (wm_Integrations v)\<rparr>"
proof -
  let ?i = "case wm_Integrations v of None \<Rightarrow> ''null'' | Some m \<Rightarrow> ''{'' @ write_entries True (order m) m @ ''}''"
  let ?q = "\<lambda>key x. CHR 0x22 # key @ CHR 0x22 # CHR '':'' # x"
  have lits: "literal (write_chars (wm_AppId v)) (wm_AppId v)" "literal (write_chars (wm_MessageID v)) (wm_MessageID v)"
    using write_chars_literal [of "wm_AppId v"] write_chars_literal [of "wm_MessageID v"] assms(1) to_valid_valid
    by (simp_all add: valid_message_def)
  have names: "list_all plain_char ''appId''" "list_all plain_char ''messageId''"
    by (simp_all add: plain_char_def)
  have app: "field_text (?q ''appId'' (write_string (wm_AppId v))) (\<lambda>u. u\<lparr>wm_AppId := wm_AppId v\<rparr>)"
    and ident: "field_text (?q ''messageId'' (write_string (wm_MessageID v))) (\<lambda>u. u\<lparr>wm_MessageID := wm_MessageID v\<rparr>)"
    unfolding write_string_eq
    by (rule field_plain [OF names(1) value_app [OF lits(1)]], rule field_plain [OF names(2) value_id [OF lits(2)]])
  obtain upd where upd: "value_text ''integrations'' ?i upd"
    "\<forall>u. wm_Integrations u = None \<longrightarrow> upd u = u\<lparr>wm_Integrations := nil_if_empty (wm_Integrations v)\<rparr>"
    using integrations_value [of "wm_Integrations v" order] assms by (auto simp: valid_message_def)
  then have "field_text (?q ''integrations'' ?i) upd" by (intro field_plain) (simp_all add: plain_char_def)
  with app ident have "list_all2 field_text
      [?q ''appId'' (write_string (wm_AppId v)), ?q ''messageId'' (write_string (wm_MessageID v)), ?q ''integrations'' ?i]
      [\<lambda>u. u\<lparr>wm_AppId := wm_AppId v\<rparr>, \<lambda>u. u\<lparr>wm_MessageID := wm_MessageID v\<rparr>, upd]"
    by simp
  from message_object [of "[]" "[]" "[]", OF _ _ _ this]
  have "message_text (MarshalJSON order v) (fold (\<lambda>upd. upd)
      [\<lambda>u. u\<lparr>wm_AppId := wm_AppId v\<rparr>, \<lambda>u. u\<lparr>wm_MessageID := wm_MessageID v\<rparr>, upd])"
    by (simp add: MarshalJSON_def)
  moreover have "fold (\<lambda>upd. upd) [\<lambda>u. u\<lparr>wm_AppId := wm_AppId v\<rparr>, \<lambda>u. u\<lparr>wm_MessageID := wm_MessageID v\<rparr>, upd]
      zero_message = v\<lparr>wm_Integrations := nil_if_empty (wm_Integrations v)\<rparr>"
    using upd(2) by (cases v) (simp add: zero_message_def)
  ultimately show ?thesis by blast
qed

text \<open>The text null is a message without any field.\<close>

lemma json_null:
  "list_all is_white w1 \<Longrightarrow> list_all is_white w2 \<Longrightarrow>
   json_decode (w1 @ ''null'' @ w2) = Inr (message_of zero_message)"
  using UnmarshalJSON_text [OF message_null] by (simp add: json_decode_def)

section \<open>Properties\<close>

text \<open>C9: The decoder of messages comes to an end on every input, with a message or an error: it never
  loops, no index or slice of the lexer is out of range, and no entry is assigned in a nil map.\<close>

theorem UnmarshalJSON_total: "\<exists>v' err. UnmarshalJSON data v = Returned (v', err)"
  by (rule UnmarshalJSON_returns)

text \<open>C10: The decoder takes every text that is a JSON object with its fields in any order, white space between
  any two tokens, strings with escapes, the last of a field or of an entry winning, and whatever
  has balanced brackets as the value of a field it does not know; and it takes null. The message is
  then the one the text describes.\<close>

theorem texts_decoded:
  assumes "message_text data upd"
  shows "UnmarshalJSON data v = Returned (upd v, None)"
  using assms by (rule UnmarshalJSON_text)

definition sample_text :: bytes where
  "sample_text = ''{ '' @ members (CHR 0x00)
     [CHR 0x22 # ''x'' @ CHR 0x22 # '':[}{]'', CHR 0x22 # ''appId'' @ CHR 0x22 # '' : '' @ CHR 0x22 # ''a'' @ [CHR 0x22]]
     @ ''}''"

lemma sample_text_fields: "message_text sample_text (\<lambda>v. v\<lparr>wm_AppId := ''a''\<rparr>)"
proof -
  have plain: "literal x x" if "list_all plain_char x" for x
    using literal_plain_append [OF that literal_Nil] by simp
  have lits: "literal ''x'' ''x''" "literal ''appId'' ''appId''" "literal ''a'' ''a''"
    by (simp_all add: plain plain_char_def)
  have "nested (CHR ''['') (CHR '']'') ''}{''"
    by (intro nested_other nested_Nil) simp_all
  then have "value_text ''x'' ''[}{]'' (\<lambda>v. v)"
    using value_skip [of "''x''" "''[}{]''"] skipped_array by fastforce
  then have "field_text (CHR 0x22 # ''x'' @ CHR 0x22 # '':[}{]'') (\<lambda>v. v)"
    using field [of "[]" "[]" "[]" "[]", OF _ _ _ _ lits(1)] by fastforce
  moreover have "value_text ''appId'' (CHR 0x22 # ''a'' @ [CHR 0x22]) (\<lambda>v. v\<lparr>wm_AppId := ''a''\<rparr>)"
    by (rule value_app [OF lits(3)])
  then have "field_text (CHR 0x22 # ''appId'' @ CHR 0x22 # '' : '' @ CHR 0x22 # ''a'' @ [CHR 0x22])
      (\<lambda>v. v\<lparr>wm_AppId := ''a''\<rparr>)"
    using field [of "[]" "'' ''" "'' ''" "[]", OF _ _ _ _ lits(2)] by (fastforce simp: is_white_def)
  ultimately have "list_all2 field_text
      [CHR 0x22 # ''x'' @ CHR 0x22 # '':[}{]'', CHR 0x22 # ''appId'' @ CHR 0x22 # '' : '' @ CHR 0x22 # ''a'' @ [CHR 0x22]]
      [\<lambda>v. v, \<lambda>v. v\<lparr>wm_AppId := ''a''\<rparr>]"
    by (simp only: list_all2_Cons list_all2_Nil simp_thms)
  from message_object [of "[]" "'' ''" "[]", OF _ _ _ this] show ?thesis
    by (simp add: sample_text_def is_white_def comp_def)
qed

theorem texts_decoded_witness:
  "UnmarshalJSON sample_text zero_message = Returned (zero_message\<lparr>wm_AppId := ''a''\<rparr>, None)"
  using texts_decoded [OF sample_text_fields] .

text \<open>C11: What MarshalJSON writes for a message of valid UTF-8, in any order of its integrations, is read back by
  UnmarshalJSON as the same message, but for an empty map of integrations, which comes back as
  a nil one; the producer does not tell the two apart.\<close>

theorem message_round_trip:
  assumes "valid_message v" "\<And>m. wm_Integrations v = Some m \<Longrightarrow> enumerates (order m) m"
  shows "UnmarshalJSON (MarshalJSON order v) zero_message =
      Returned (v\<lparr>wm_Integrations := nil_if_empty (wm_Integrations v)\<rparr>, None)
    \<and> json_decode (MarshalJSON order v) = Inr (message_of v)"
proof -
  obtain upd where "message_text (MarshalJSON order v) upd"
    and upd: "upd zero_message = v\<lparr>wm_Integrations := nil_if_empty (wm_Integrations v)\<rparr>"
    using MarshalJSON_text [OF assms] by blast
  from UnmarshalJSON_text [OF this(1), of zero_message] upd show ?thesis
    by (simp add: json_decode_def message_of_def nil_if_empty_def)
qed

theorem message_round_trip_witness:
  "json_decode (MarshalJSON (\<lambda>_. [''b'', ''a'']) \<lparr>wm_AppId = CHR 0x22 # ''<x>'', wm_MessageID = ''m1'',
      wm_Integrations = Some [''a'' \<mapsto> True, ''b'' \<mapsto> False]\<rparr>) =
   Inr \<lparr>AppId = CHR 0x22 # ''<x>'', MessageID = ''m1'', msg_integrations = [''a'' \<mapsto> True, ''b'' \<mapsto> False]\<rparr>"
proof -
  let ?v = "\<lparr>wm_AppId = CHR 0x22 # ''<x>'', wm_MessageID = ''m1'',
    wm_Integrations = Some [''a'' \<mapsto> True, ''b'' \<mapsto> False]\<rparr>"
  have "valid_message ?v"
    by (auto simp: valid_message_def DecodeRune_def code_def)
  moreover have "enumerates ((\<lambda>_. [''b'', ''a'']) m) m" if "wm_Integrations ?v = Some m" for m
    using that by (auto simp: enumerates_def split: if_splits)
  ultimately show ?thesis
    using message_round_trip [of ?v "\<lambda>_. [''b'', ''a'']"] by (simp add: message_of_def)
qed

text \<open>C12: The size with which the buffer for the value of a string literal is made is never negative, at most
  the number of bytes left, and large enough for the value, surrogate pairs included.\<close>

theorem buffer_for_literal:
  "0 \<le> snd (findStringLen (length data) data 0 0)
    \<and> snd (findStringLen (length data) data 0 0) \<le> int (length data)
    \<and> (case unescape data 0 [] [] of
         Closed v i \<Rightarrow> int (length v) \<le> snd (findStringLen (length data) data 0 0)
       | _ \<Rightarrow> True)"
proof -
  obtain h k where len: "findStringLen (length data) data 0 0 = (h, k)" by fastforce
  with findStringLen_bounds [of 0 data 0 h k] unescape_counted [of data 0 "[]" "[]", OF _ len] show ?thesis
    by (simp split: literal_end.split)
qed

end
