(* ===== verification/Cache_Locks.thy ===== *)
theory Cache_Locks
  imports Integrations
begin

text \<open>
  The cache of \<open>integrations/integrations.go\<close> under concurrency: the consumer looks apps up and
  updates them after a miss, the SSE listener updates them, the TTL goroutine resets the cache, and a
  request for \<open>/integrations\<close> (\<open>api/v1/integrations_handlers.go\<close>) goes through all of it, all at once. The steps are those at which another goroutine can get between: taking and releasing
  \<open>globalLock\<close>, the lock of an app in \<open>syncMap\<close>, and the beginning and end of an access to the map.

  A goroutine is an index into \<open>pcs\<close>; what it does next is its program counter. A lock of an app is an
  object, known by a number; \<open>held\<close> says which goroutine has it for writing. \<open>generation\<close> counts the
  maps \<open>resetCache\<close> has made, since a write under way when the map is replaced goes to the old one.
  The second part of \<open>Get_Global\<close> and its successors is what the goroutine will store after the
  lookup: nothing for \<open>GetIntegrations\<close>, the answer of Houston for \<open>UpdateIntegrationsForApp\<close>.
  \<open>GetAllIntegrations\<close> returns the map itself, which gin then reads without a lock: \<open>Web_Reading\<close>.

  Three faults end the program: a nil pointer taken from \<open>syncMap\<close>, unlocking a lock nobody has, and
  two accesses to the same map at once of which one writes, which the run-time system reports. The
  accesses to \<open>syncMap\<close> itself are taken as atomic. A goroutine that waits for the lock of an app looks
  it up when it gets it, and \<open>Get\<close> reads the map that is current when it has the locks; the code looks
  both up before it waits, which is another lock or map only after a reset.
\<close>

datatype pc =
    Idle
  | Get_Global string "strmap option option"
  | Get_Shared string "strmap option option"
  | Get_Reading string "strmap option option"
  | Upd_Lock string "strmap option"
  | Upd_Writing string "strmap option" nat
  | Upd_Unlock string
  | Web_Reading nat

datatype fault = Nil_Lock | Unlock_Of_Unlocked | Concurrent_Map_Access

record lock_world =
  global_lock :: "nat option"
  locks :: "string \<rightharpoonup> nat"
  held :: "nat \<rightharpoonup> nat"
  next_lock :: nat
  generation :: nat
  cells :: "string \<rightharpoonup> strmap option"
  pcs :: "pc list"
  fault_seen :: "fault option"

definition lock_start :: "nat \<Rightarrow> lock_world" where
  "lock_start n =
     \<lparr>global_lock = None, locks = Map.empty, held = Map.empty, next_lock = 0, generation = 0,
      cells = NewMap, pcs = replicate n Idle, fault_seen = None\<rparr>"

definition goto :: "nat \<Rightarrow> pc \<Rightarrow> lock_world \<Rightarrow> lock_world" where
  "goto t p w = w\<lparr>pcs := (pcs w)[t := p]\<rparr>"

definition fail_with :: "fault \<Rightarrow> lock_world \<Rightarrow> lock_world" where
  "fail_with f w = w\<lparr>fault_seen := Some f\<rparr>"

fun is_idle :: "pc \<Rightarrow> bool" where
  "is_idle Idle = True"
| "is_idle _ = False"

fun reads_map :: "nat \<Rightarrow> pc \<Rightarrow> bool" where
  "reads_map g (Get_Reading a k) = True"
| "reads_map g (Web_Reading h) = (h = g)"
| "reads_map g _ = False"

fun reads_app :: "string \<Rightarrow> pc \<Rightarrow> bool" where
  "reads_app a (Get_Reading b k) = (a = b)"
| "reads_app a _ = False"

fun writes_map :: "nat \<Rightarrow> pc \<Rightarrow> bool" where
  "writes_map g (Upd_Writing a v h) = (h = g)"
| "writes_map g _ = False"

text \<open>An access to the current map begins; \<open>clash\<close> is what may not be going on at the same time.\<close>

definition start_access :: "(pc \<Rightarrow> bool) \<Rightarrow> nat \<Rightarrow> pc \<Rightarrow> lock_world \<Rightarrow> lock_world" where
  "start_access clash t p w =
     (if list_ex clash (pcs w) then fail_with Concurrent_Map_Access (goto t p w) else goto t p w)"

text \<open>The next step of goroutine \<open>t\<close>; \<open>None\<close> where it has to wait.\<close>

definition proceed :: "nat \<Rightarrow> lock_world \<Rightarrow> lock_world option" where
  "proceed t w =
     (case pcs w ! t of
        Idle \<Rightarrow> None
      | Get_Global a k \<Rightarrow>
          if global_lock w = None
          then Some (goto t (Get_Shared a k)
            (if locks w a = None
             then w\<lparr>global_lock := Some t, locks := (locks w)(a \<mapsto> next_lock w),
                    next_lock := Suc (next_lock w)\<rparr>
             else w\<lparr>global_lock := Some t\<rparr>))
          else None
      | Get_Shared a k \<Rightarrow>
          (case locks w a of
             None \<Rightarrow> None
           | Some l \<Rightarrow>
               if held w l = None
               then Some (start_access (writes_map (generation w)) t (Get_Reading a k) w)
               else None)
      | Get_Reading a k \<Rightarrow>
          Some (goto t (case k of None \<Rightarrow> Idle | Some v \<Rightarrow> Upd_Lock a v) (w\<lparr>global_lock := None\<rparr>))
      | Upd_Lock a v \<Rightarrow>
          (case locks w a of
             None \<Rightarrow> Some (fail_with Nil_Lock w)
           | Some l \<Rightarrow>
               if held w l = None \<and> \<not> list_ex (reads_app a) (pcs w)
               then Some (start_access (\<lambda>p. reads_map (generation w) p \<or> writes_map (generation w) p) t
                      (Upd_Writing a v (generation w)) (w\<lparr>held := (held w)(l \<mapsto> t)\<rparr>))
               else None)
      | Upd_Writing a v g \<Rightarrow>
          Some (goto t (Upd_Unlock a)
            (if g = generation w then w\<lparr>cells := (cells w)(a \<mapsto> v)\<rparr> else w))
      | Upd_Unlock a \<Rightarrow>
          (case locks w a of
             None \<Rightarrow> Some (fail_with Nil_Lock w)
           | Some l \<Rightarrow>
               if held w l = None then Some (fail_with Unlock_Of_Unlocked w)
               else Some (goto t Idle (w\<lparr>held := (held w)(l := None)\<rparr>)))
      | Web_Reading g \<Rightarrow> Some (goto t Idle w))"

text \<open>
  What can happen: an idle goroutine begins a lookup or an update, or answers a request, one goes on, or
  the TTL fires.
\<close>

datatype lock_action =
  Lookup nat string | Update nat string "strmap option" | Web_Request nat | Go nat | Reset_Cache

definition lock_step :: "lock_action \<Rightarrow> lock_world \<Rightarrow> lock_world option" where
  "lock_step act w =
     (if fault_seen w \<noteq> None then None
      else
        (case act of
           Lookup t a \<Rightarrow>
             if t < length (pcs w) \<and> is_idle (pcs w ! t) then Some (goto t (Get_Global a None) w) else None
         | Update t a v \<Rightarrow>
             if t < length (pcs w) \<and> is_idle (pcs w ! t) then Some (goto t (Get_Global a (Some v)) w) else None
         | Web_Request t \<Rightarrow>
             if t < length (pcs w) \<and> is_idle (pcs w ! t)
             then Some (start_access (writes_map (generation w)) t (Web_Reading (generation w)) w) else None
         | Go t \<Rightarrow> if t < length (pcs w) then proceed t w else None
         | Reset_Cache \<Rightarrow>
             if global_lock w = None
             then Some (w\<lparr>cells := NewMap, locks := Map.empty, generation := Suc (generation w)\<rparr>)
             else None))"

fun lock_run :: "lock_action list \<Rightarrow> lock_world \<Rightarrow> lock_world option" where
  "lock_run [] w = Some w"
| "lock_run (act # acts) w =
     (case lock_step act w of None \<Rightarrow> None | Some w' \<Rightarrow> lock_run acts w')"


section \<open>Without resets\<close>

text \<open>The apps whose lock a goroutine relies on, and the one whose lock it has for writing.\<close>

fun needs_lock :: "pc \<Rightarrow> string set" where
  "needs_lock Idle = {}"
| "needs_lock (Get_Global a k) = {}"
| "needs_lock (Get_Shared a k) = {a}"
| "needs_lock (Get_Reading a k) = {a}"
| "needs_lock (Upd_Lock a v) = {a}"
| "needs_lock (Upd_Writing a v g) = {a}"
| "needs_lock (Upd_Unlock a) = {a}"
| "needs_lock (Web_Reading g) = {}"

fun write_locks :: "pc \<Rightarrow> string set" where
  "write_locks (Upd_Writing a v g) = {a}"
| "write_locks (Upd_Unlock a) = {a}"
| "write_locks _ = {}"

definition lock_inv :: "lock_world \<Rightarrow> bool" where
  "lock_inv w \<longleftrightarrow>
     (\<forall>t < length (pcs w). needs_lock (pcs w ! t) \<subseteq> dom (locks w))
     \<and> (\<forall>t < length (pcs w). \<forall>a \<in> write_locks (pcs w ! t). \<exists>l. locks w a = Some l \<and> held w l = Some t)
     \<and> (\<forall>a b l. locks w a = Some l \<longrightarrow> locks w b = Some l \<longrightarrow> a = b)
     \<and> (\<forall>a l. locks w a = Some l \<longrightarrow> l < next_lock w)
     \<and> fault_seen w \<in> {None, Some Concurrent_Map_Access}"

lemma goto_simps [simp]:
  "global_lock (goto t p w) = global_lock w" "locks (goto t p w) = locks w"
  "held (goto t p w) = held w" "next_lock (goto t p w) = next_lock w"
  "generation (goto t p w) = generation w" "cells (goto t p w) = cells w"
  "pcs (goto t p w) = (pcs w)[t := p]" "fault_seen (goto t p w) = fault_seen w"
  by (simp_all add: goto_def)

lemma nth_list_update_in:
  "j < length xs \<Longrightarrow> xs[i := x] ! j = (if i = j then x else xs ! j)"
  by auto

lemma lock_inv_goto:
  assumes "lock_inv w" "needs_lock p \<subseteq> dom (locks w)"
    and "\<forall>a \<in> write_locks p. \<exists>l. locks w a = Some l \<and> held w l = Some t"
  shows "lock_inv (goto t p w)"
  using assms unfolding lock_inv_def
  by (auto simp: nth_list_update_in split: if_splits)

lemma lock_inv_frame:
  assumes "lock_inv w" "locks w' = locks w" "held w' = held w" "next_lock w' = next_lock w"
    "pcs w' = pcs w" "fault_seen w' \<in> {None, Some Concurrent_Map_Access}"
  shows "lock_inv w'"
  using assms unfolding lock_inv_def by simp

lemma lock_inv_access:
  assumes "lock_inv (goto t p w)"
  shows "lock_inv (start_access clash t p w)"
  using lock_inv_frame [OF assms, of "fail_with Concurrent_Map_Access (goto t p w)"] assms
  by (simp add: start_access_def fail_with_def)

lemma lock_inv_new:
  assumes "lock_inv w" "locks w a = None"
  shows "lock_inv (w\<lparr>global_lock := g, locks := (locks w)(a \<mapsto> next_lock w),
    next_lock := Suc (next_lock w)\<rparr>)"
proof -
  have fresh: "locks w b \<noteq> Some (next_lock w)" for b
    using assms(1) unfolding lock_inv_def by (metis less_irrefl)
  have kept: "b \<noteq> a" if "t < length (pcs w)" "b \<in> write_locks (pcs w ! t)" for t b
    using assms that unfolding lock_inv_def by fastforce
  show ?thesis
    using assms fresh kept unfolding lock_inv_def
    by (auto simp: less_Suc_eq subset_iff)
qed

text \<open>The locks may change hands as long as whoever relies on one keeps it.\<close>

lemma lock_inv_held:
  assumes inv: "lock_inv w"
    and kept: "\<And>t a l. t < length (pcs w) \<Longrightarrow> a \<in> write_locks (pcs w ! t) \<Longrightarrow> locks w a = Some l \<Longrightarrow>
      held w l = Some t \<Longrightarrow> h l = Some t"
  shows "lock_inv (w\<lparr>held := h\<rparr>)"
proof -
  have "\<exists>l. locks w a = Some l \<and> h l = Some t"
    if "t < length (pcs w)" "a \<in> write_locks (pcs w ! t)" for t a
    using inv that kept [OF that] unfolding lock_inv_def by blast
  with inv show ?thesis by (simp add: lock_inv_def)
qed

lemma lock_inv_take:
  "lock_inv w \<Longrightarrow> held w l = None \<Longrightarrow> lock_inv (w\<lparr>held := (held w)(l \<mapsto> t)\<rparr>)"
  by (rule lock_inv_held) auto

lemma lock_inv_release:
  assumes "lock_inv w" "locks w a = Some l"
    and "\<forall>t < length (pcs w). a \<notin> write_locks (pcs w ! t)"
  shows "lock_inv (w\<lparr>held := (held w)(l := None)\<rparr>)"
proof (rule lock_inv_held [OF assms(1)])
  fix t b m
  assume b: "t < length (pcs w)" "b \<in> write_locks (pcs w ! t)" "locks w b = Some m" "held w m = Some t"
  have "m \<noteq> l"
    using assms b unfolding lock_inv_def by blast
  with b(4) show "((held w)(l := None)) m = Some t" by simp
qed

lemma lock_inv_holder:
  assumes "lock_inv w" "t < length (pcs w)" "t' < length (pcs w)"
    and "a \<in> write_locks (pcs w ! t)" "a \<in> write_locks (pcs w ! t')"
  shows "t = t'"
proof -
  obtain l where "locks w a = Some l" "held w l = Some t"
    using assms(1,2,4) unfolding lock_inv_def by blast
  moreover obtain l' where "locks w a = Some l'" "held w l' = Some t'"
    using assms(1,3,5) unfolding lock_inv_def by blast
  ultimately show ?thesis by simp
qed

lemma lock_inv_proceed:
  assumes inv: "lock_inv w" and "fault_seen w = None" and t: "t < length (pcs w)"
    and step: "proceed t w = Some w'"
  shows "lock_inv w'"
proof (cases "pcs w ! t")
  case Idle
  with step show ?thesis by (simp add: proceed_def)
next
  case (Get_Global a k)
  show ?thesis
  proof (cases "locks w a")
    case None
    with Get_Global step lock_inv_new [OF inv None, of "Some t"] show ?thesis
      by (auto simp: proceed_def split: if_splits intro!: lock_inv_goto)
  next
    case (Some l)
    have "lock_inv (w\<lparr>global_lock := Some t\<rparr>)"
      using inv by (rule lock_inv_frame) (use assms(2) in simp_all)
    with Get_Global step Some show ?thesis
      by (auto simp: proceed_def split: if_splits intro!: lock_inv_goto)
  qed
next
  case (Get_Shared a k)
  with step inv show ?thesis
    by (auto simp: proceed_def split: option.splits if_splits
        intro!: lock_inv_access lock_inv_goto)
next
  case (Get_Reading a k)
  have "needs_lock (pcs w ! t) \<subseteq> dom (locks w)" using inv t by (simp add: lock_inv_def)
  moreover have "lock_inv (w\<lparr>global_lock := None\<rparr>)"
    using inv by (rule lock_inv_frame) (use assms(2) in simp_all)
  ultimately show ?thesis
    using Get_Reading step by (auto simp: proceed_def split: option.splits intro!: lock_inv_goto)
next
  case (Upd_Lock a v)
  have "needs_lock (pcs w ! t) \<subseteq> dom (locks w)" using inv t by (simp add: lock_inv_def)
  then obtain l where l: "locks w a = Some l" using Upd_Lock by auto
  with Upd_Lock step have "held w l = None"
    and w': "w' = start_access (\<lambda>p. reads_map (generation w) p \<or> writes_map (generation w) p) t
      (Upd_Writing a v (generation w)) (w\<lparr>held := (held w)(l \<mapsto> t)\<rparr>)"
    by (auto simp: proceed_def split: if_splits)
  with l lock_inv_take [OF inv, of l t] show ?thesis
    by (auto intro!: lock_inv_access lock_inv_goto)
next
  case (Upd_Writing a v g)
  have "needs_lock (pcs w ! t) \<subseteq> dom (locks w)"
    "\<forall>a \<in> write_locks (pcs w ! t). \<exists>l. locks w a = Some l \<and> held w l = Some t"
    using inv t by (simp_all add: lock_inv_def)
  moreover have "lock_inv (w\<lparr>cells := (cells w)(a \<mapsto> v)\<rparr>)"
    using inv by (rule lock_inv_frame) (use assms(2) in simp_all)
  ultimately show ?thesis
    using Upd_Writing step inv by (auto simp: proceed_def split: if_splits intro!: lock_inv_goto)
next
  case (Upd_Unlock a)
  have "\<forall>a \<in> write_locks (pcs w ! t). \<exists>l. locks w a = Some l \<and> held w l = Some t"
    using inv t by (simp add: lock_inv_def)
  then obtain l where l: "locks w a = Some l" "held w l = Some t" using Upd_Unlock by auto
  with Upd_Unlock step have w': "w' = (goto t Idle w)\<lparr>held := (held (goto t Idle w))(l := None)\<rparr>"
    by (auto simp: proceed_def goto_def)
  have "a \<notin> write_locks ((pcs w)[t := Idle] ! t')" if "t' < length (pcs w)" for t'
    using that lock_inv_holder [OF inv t that, of a] Upd_Unlock
    by (auto simp: nth_list_update_in split: if_splits)
  then show ?thesis
    unfolding w' using l by (intro lock_inv_release [of _ a]) (auto intro!: lock_inv_goto inv)
next
  case (Web_Reading g)
  with step inv show ?thesis by (auto simp: proceed_def intro!: lock_inv_goto)
qed

lemma lock_inv_step:
  assumes "lock_inv w" "lock_step act w = Some w'" "act \<noteq> Reset_Cache"
  shows "lock_inv w'"
proof (cases act)
  case (Go t)
  with assms show ?thesis
    by (auto simp: lock_step_def split: if_splits intro: lock_inv_proceed)
qed (use assms in \<open>auto simp: lock_step_def split: if_splits intro!: lock_inv_access lock_inv_goto\<close>)

lemma lock_inv_run:
  assumes "lock_inv w" "lock_run acts w = Some w'" "Reset_Cache \<notin> set acts"
  shows "lock_inv w'"
  using assms
proof (induction acts arbitrary: w)
  case Nil
  then show ?case by simp
next
  case (Cons act acts)
  then obtain w1 where "lock_step act w = Some w1" "lock_run acts w1 = Some w'"
    by (auto split: option.splits)
  with Cons show ?case by (auto intro: lock_inv_step)
qed

lemma lock_inv_start: "lock_inv (lock_start n)"
  by (simp add: lock_inv_def lock_start_def)


section \<open>When updates take effect\<close>

text \<open>
  The atomic cache of \<open>Integrations\<close> as the specification: an update is one \<open>Map_Put\<close> at some time between
  its beginning and its end, a reset one \<open>resetCache\<close>. A goroutine that writes into a map which has been
  replaced since loses its update. \<open>pending\<close> is the update a goroutine has begun and not yet made.
\<close>

datatype effect = Stored nat string "strmap option" | Lost nat string "strmap option" | Emptied

fun take_effect :: "effect \<Rightarrow> 'h integrations \<Rightarrow> 'h integrations" where
  "take_effect (Stored t a v) s = Map_Put a v s"
| "take_effect (Lost t a v) s = s"
| "take_effect Emptied s = resetCache s"

fun made_by :: "nat \<Rightarrow> effect \<Rightarrow> (string \<times> strmap option) list" where
  "made_by t (Stored u a v) = (if u = t then [(a, v)] else [])"
| "made_by t (Lost u a v) = (if u = t then [(a, v)] else [])"
| "made_by t Emptied = []"

fun is_lost :: "effect \<Rightarrow> bool" where
  "is_lost (Lost t a v) = True"
| "is_lost _ = False"

fun begun_by :: "nat \<Rightarrow> lock_action \<Rightarrow> (string \<times> strmap option) list" where
  "begun_by t (Update u a v) = (if u = t then [(a, v)] else [])"
| "begun_by t _ = []"

fun pending :: "pc \<Rightarrow> (string \<times> strmap option) list" where
  "pending (Get_Global a (Some v)) = [(a, v)]"
| "pending (Get_Shared a (Some v)) = [(a, v)]"
| "pending (Get_Reading a (Some v)) = [(a, v)]"
| "pending (Upd_Lock a v) = [(a, v)]"
| "pending (Upd_Writing a v g) = [(a, v)]"
| "pending _ = []"

definition pending_at :: "lock_world \<Rightarrow> nat \<Rightarrow> (string \<times> strmap option) list" where
  "pending_at w t = (if t < length (pcs w) then pending (pcs w ! t) else [])"

definition write_effect :: "nat \<Rightarrow> lock_world \<Rightarrow> effect list" where
  "write_effect t w =
     (case pcs w ! t of
        Upd_Writing a v g \<Rightarrow> [if g = generation w then Stored t a v else Lost t a v]
      | _ \<Rightarrow> [])"

definition effect_of :: "lock_action \<Rightarrow> lock_world \<Rightarrow> effect list" where
  "effect_of act w = (case act of Go t \<Rightarrow> write_effect t w | Reset_Cache \<Rightarrow> [Emptied] | _ \<Rightarrow> [])"

fun current :: "nat \<Rightarrow> pc \<Rightarrow> bool" where
  "current g (Upd_Writing a v h) = (h = g)"
| "current g _ = True"

lemma start_access_simps [simp]:
  "global_lock (start_access clash t p w) = global_lock w" "locks (start_access clash t p w) = locks w"
  "held (start_access clash t p w) = held w" "generation (start_access clash t p w) = generation w"
  "cells (start_access clash t p w) = cells w" "pcs (start_access clash t p w) = (pcs w)[t := p]"
  by (simp_all add: start_access_def fail_with_def)

lemma fail_with_simps [simp]:
  "pcs (fail_with f w) = pcs w" "cells (fail_with f w) = cells w" "generation (fail_with f w) = generation w"
  by (simp_all add: fail_with_def)

text \<open>One step of a goroutine makes its effect and leaves the rest of its update pending.\<close>

lemma proceed_effect:
  assumes "proceed t w = Some w'" "t < length (pcs w)"
  obtains p where "pcs w' = (pcs w)[t := p]"
    and "pending (pcs w ! t) = concat (map (made_by t) (write_effect t w)) @ pending p"
    and "\<And>s. cache s = cells w \<Longrightarrow> cache (fold take_effect (write_effect t w) s) = cells w'"
    and "generation w' = generation w" and "current (generation w) p \<or> p = pcs w ! t"
proof (cases "pcs w ! t")
  case Idle
  with assms show ?thesis by (simp add: proceed_def)
next
  case (Get_Global a k)
  with assms that [of "Get_Shared a k"] show ?thesis
    by (cases k) (auto simp: proceed_def write_effect_def split: if_splits)
next
  case (Get_Shared a k)
  with assms that [of "Get_Reading a k"] show ?thesis
    by (cases k) (auto simp: proceed_def write_effect_def split: if_splits option.splits)
next
  case (Get_Reading a k)
  with assms that [of "case k of None \<Rightarrow> Idle | Some v \<Rightarrow> Upd_Lock a v"] show ?thesis
    by (cases k) (auto simp: proceed_def write_effect_def)
next
  case (Upd_Lock a v)
  from Upd_Lock have same: "(pcs w)[t := Upd_Lock a v] = pcs w" by (metis list_update_id)
  with Upd_Lock assms that [of "Upd_Writing a v (generation w)"] that [of "Upd_Lock a v"] show ?thesis
    by (auto simp: proceed_def write_effect_def split: if_splits option.splits)
next
  case (Upd_Writing a v g)
  with assms that [of "Upd_Unlock a"] show ?thesis
    by (auto simp: proceed_def write_effect_def Map_Put_def split: if_splits)
next
  case (Upd_Unlock a)
  from Upd_Unlock have same: "(pcs w)[t := Upd_Unlock a] = pcs w" by (metis list_update_id)
  with Upd_Unlock assms that [of "Upd_Unlock a"] that [of Idle] show ?thesis
    by (auto simp: proceed_def write_effect_def split: if_splits option.splits)
next
  case (Web_Reading g)
  with assms that [of Idle] show ?thesis
    by (auto simp: proceed_def write_effect_def)
qed

text \<open>The detailed step and the atomic cache.\<close>

lemma step_cache:
  assumes "lock_step act w = Some w'" "cache s = cells w"
  shows "cache (fold take_effect (effect_of act w) s) = cells w'"
proof (cases act)
  case (Go t)
  with assms(1) have "proceed t w = Some w'" "t < length (pcs w)"
    by (auto simp: lock_step_def split: if_splits)
  then show ?thesis
    using assms(2) Go by (auto simp: effect_of_def elim!: proceed_effect)
qed (use assms in \<open>auto simp: lock_step_def effect_of_def resetCache_def split: if_splits\<close>)

lemma made_by_other: "t \<noteq> u \<Longrightarrow> concat (map (made_by u) (write_effect t w)) = []"
  by (cases "pcs w ! t") (simp_all add: write_effect_def)

lemma idle_pending: "is_idle p \<Longrightarrow> pending p = []"
  by (cases p) simp_all

lemma step_pending:
  assumes "lock_step act w = Some w'"
  shows "pending_at w u @ begun_by u act = concat (map (made_by u) (effect_of act w)) @ pending_at w' u"
proof (cases act)
  case (Go t)
  with assms have step: "proceed t w = Some w'" and t: "t < length (pcs w)"
    by (auto simp: lock_step_def split: if_splits)
  obtain p where "pcs w' = (pcs w)[t := p]"
    "pending (pcs w ! t) = concat (map (made_by t) (write_effect t w)) @ pending p"
    by (rule proceed_effect [OF step t])
  with Go t made_by_other [of t u w] show ?thesis
    by (cases "t = u") (auto simp: effect_of_def pending_at_def)
qed (use assms in \<open>auto simp: lock_step_def effect_of_def pending_at_def idle_pending nth_list_update split: if_splits\<close>)

lemma list_all_update: "list_all P xs \<Longrightarrow> P x \<Longrightarrow> list_all P (xs[i := x])"
  using set_update_subset_insert [of xs i x] by (auto simp: list_all_iff)

lemma written_current:
  "current (generation w) (pcs w ! t) \<Longrightarrow> \<not> list_ex is_lost (write_effect t w)"
  by (cases "pcs w ! t") (simp_all add: write_effect_def)

lemma step_current:
  assumes "lock_step act w = Some w'" "list_all (current (generation w)) (pcs w)" "act \<noteq> Reset_Cache"
  shows "list_all (current (generation w')) (pcs w') \<and> \<not> list_ex is_lost (effect_of act w)"
proof (cases act)
  case (Go t)
  with assms(1) have "proceed t w = Some w'" and t: "t < length (pcs w)"
    by (auto simp: lock_step_def split: if_splits)
  then obtain p where "pcs w' = (pcs w)[t := p]" "generation w' = generation w"
    "current (generation w) p \<or> p = pcs w ! t"
    by (rule proceed_effect)
  moreover have "current (generation w) (pcs w ! t)"
    using assms(2) t by (simp add: list_all_length)
  ultimately show ?thesis
    using assms(2) Go by (auto simp: effect_of_def written_current intro: list_all_update)
qed (use assms in \<open>auto simp: lock_step_def effect_of_def intro!: list_all_update split: if_splits\<close>)

text \<open>What an action may do: a reset empties the cache, a turn of a goroutine makes at most one update
  of its own, and nothing else does anything.\<close>

fun caused :: "lock_action \<Rightarrow> effect list \<Rightarrow> bool" where
  "caused Reset_Cache es \<longleftrightarrow> es = [Emptied]"
| "caused (Go t) es \<longleftrightarrow> es = [] \<or> (\<exists>a v. es = [Stored t a v] \<or> es = [Lost t a v])"
| "caused _ es \<longleftrightarrow> es = []"

lemma effect_caused: "caused act (effect_of act w)"
  by (cases act) (auto simp: effect_of_def write_effect_def split: pc.splits)

text \<open>What a run from \<open>w\<close> to \<open>u\<close> by \<open>acts\<close> and its effects on the cache of \<open>s\<close> have to do with each other.\<close>

definition accounted ::
    "lock_world \<Rightarrow> 'h integrations \<Rightarrow> lock_action list \<Rightarrow> effect list \<Rightarrow> lock_world \<Rightarrow> bool" where
  "accounted w s acts es u \<longleftrightarrow>
     cells u = cache (fold take_effect es s)
     \<and> (\<forall>t. pending_at w t @ concat (map (begun_by t) acts) = concat (map (made_by t) es) @ pending_at u t)
     \<and> (list_all (current (generation w)) (pcs w) \<and> Reset_Cache \<notin> set acts \<longrightarrow> \<not> list_ex is_lost es)"

lemma accounted_Nil: "cache s = cells w \<Longrightarrow> accounted w s [] [] w"
  by (simp add: accounted_def)

lemma accounted_Cons:
  assumes "lock_step act w = Some w1"
    and "accounted w1 (fold take_effect (effect_of act w) s) acts es u"
  shows "accounted w s (act # acts) (effect_of act w @ es) u"
proof -
  have made: "pending_at w1 t @ concat (map (begun_by t) acts) = concat (map (made_by t) es) @ pending_at u t" for t
    using assms(2) by (simp add: accounted_def)
  have "pending_at w t @ concat (map (begun_by t) (act # acts)) =
      concat (map (made_by t) (effect_of act w @ es)) @ pending_at u t" for t
  proof -
    have "pending_at w t @ concat (map (begun_by t) (act # acts)) =
        (pending_at w t @ begun_by t act) @ concat (map (begun_by t) acts)" by simp
    also have "\<dots> = concat (map (made_by t) (effect_of act w)) @ pending_at w1 t @ concat (map (begun_by t) acts)"
      unfolding step_pending [OF assms(1)] by simp
    finally show ?thesis using made by simp
  qed
  moreover have "list_all (current (generation w)) (pcs w) \<and> Reset_Cache \<notin> set (act # acts) \<longrightarrow>
      \<not> list_ex is_lost (effect_of act w @ es)"
    using step_current [OF assms(1)] assms(2) by (auto simp: accounted_def)
  ultimately show ?thesis using assms(2) by (simp add: accounted_def)
qed

lemma run_effects:
  assumes "lock_run acts w = Some w'" "cache s = cells w"
  shows "\<exists>log. list_all2 caused acts log \<and> (\<forall>k \<le> length acts. \<exists>u. lock_run (take k acts) w = Some u
    \<and> accounted w s (take k acts) (concat (take k log)) u)"
  using assms
proof (induction acts arbitrary: w s)
  case Nil
  then show ?case by (auto simp: accounted_Nil)
next
  case (Cons act acts)
  then obtain w1 where step: "lock_step act w = Some w1" and run: "lock_run acts w1 = Some w'"
    by (auto split: option.splits)
  let ?s = "fold take_effect (effect_of act w) s"
  from Cons.IH [OF run step_cache [OF step Cons.prems(2)]] obtain log where
      log: "list_all2 caused acts log"
    and all: "\<forall>k \<le> length acts. \<exists>u. lock_run (take k acts) w1 = Some u
      \<and> accounted w1 ?s (take k acts) (concat (take k log)) u" by blast
  have "\<exists>u. lock_run (take k (act # acts)) w = Some u
      \<and> accounted w s (take k (act # acts)) (concat (take k (effect_of act w # log))) u"
    if "k \<le> length (act # acts)" for k
  proof (cases k)
    case 0
    then show ?thesis using accounted_Nil [of s w] Cons.prems(2) by simp
  next
    case (Suc l)
    with that all obtain u where "lock_run (take l acts) w1 = Some u"
      "accounted w1 ?s (take l acts) (concat (take l log)) u" by auto
    with Suc step accounted_Cons [OF step] show ?thesis by simp
  qed
  with log effect_caused show ?case by (intro exI [of _ "effect_of act w # log"]) simp
qed

section \<open>No operation under way\<close>

text \<open>
  All goroutines are idle, no lock is taken, and the locks are different objects, as they are in every
  run: each new one is an object of its own.
\<close>

definition at_rest :: "lock_world \<Rightarrow> bool" where
  "at_rest w \<longleftrightarrow>
     fault_seen w = None \<and> global_lock w = None \<and> held w = Map.empty \<and> list_all is_idle (pcs w)
     \<and> (\<forall>a b l. locks w a = Some l \<longrightarrow> locks w b = Some l \<longrightarrow> a = b) \<and> (\<forall>a l. locks w a = Some l \<longrightarrow> l < next_lock w)"

lemma at_rest_start: "at_rest (lock_start n)"
  by (simp add: at_rest_def lock_start_def list_all_length)

lemma is_idle_iff: "is_idle p \<longleftrightarrow> p = Idle"
  by (cases p) simp_all

lemma at_rest_idle:
  assumes "at_rest w" "j < length (pcs w)"
  shows "pcs w ! j = Idle"
  using assms by (simp add: at_rest_def list_all_length is_idle_iff)

lemma at_rest_goto [simp]: "at_rest w \<Longrightarrow> goto t Idle w = w"
  using at_rest_idle [of w t] by (cases "t < length (pcs w)") (auto simp: goto_def list_update_beyond list_update_same_conv)

lemma at_rest_cells: "at_rest w \<Longrightarrow> at_rest (w\<lparr>cells := c\<rparr>)"
  by (simp add: at_rest_def)

text \<open>The lock of an app after a lookup.\<close>

definition secured :: "string \<Rightarrow> lock_world \<Rightarrow> lock_world" where
  "secured a w =
     (if locks w a = None
      then w\<lparr>locks := (locks w)(a \<mapsto> next_lock w), next_lock := Suc (next_lock w)\<rparr> else w)"

lemma secured_simps [simp]:
  "cells (secured a w) = cells w" "pcs (secured a w) = pcs w" "generation (secured a w) = generation w"
  "held (secured a w) = held w" "fault_seen (secured a w) = fault_seen w"
  by (simp_all add: secured_def)

lemma secured_locks: "\<exists>l. locks (secured a w) a = Some l"
  by (auto simp: secured_def)

lemma at_rest_secured: "at_rest w \<Longrightarrow> at_rest (secured a w)"
  by (auto simp: at_rest_def secured_def less_Suc_eq)

text \<open>The steps of a goroutine that is alone at work.\<close>

lemma clash_goto:
  assumes "at_rest w" "\<not> clash p" "\<not> clash Idle"
  shows "\<not> list_ex clash ((pcs w)[t := p])"
proof
  assume "list_ex clash ((pcs w)[t := p])"
  then obtain n where n: "n < length (pcs w)" "clash ((pcs w)[t := p] ! n)" by (auto simp: list_ex_length)
  with assms at_rest_idle [OF assms(1) n(1)] show False by (cases "n = t") simp_all
qed

lemma begin_alone:
  assumes "at_rest w" "t < length (pcs w)"
  shows "lock_step (Lookup t a) w = Some (goto t (Get_Global a None) w)"
    and "lock_step (Update t a v) w = Some (goto t (Get_Global a (Some v)) w)"
  using assms at_rest_idle [OF assms] by (simp_all add: lock_step_def at_rest_def)

lemma global_alone:
  assumes "at_rest w" "t < length (pcs w)"
  shows "lock_step (Go t) (goto t (Get_Global a k) w) =
    Some (goto t (Get_Shared a k) ((secured a w)\<lparr>global_lock := Some t\<rparr>))"
  using assms by (simp add: lock_step_def proceed_def goto_def at_rest_def secured_def)

lemma shared_alone:
  assumes "at_rest w" "t < length (pcs w)" "locks w a = Some l"
  shows "lock_step (Go t) (goto t (Get_Shared a k) (w\<lparr>global_lock := Some t\<rparr>)) =
    Some (goto t (Get_Reading a k) (w\<lparr>global_lock := Some t\<rparr>))"
  using assms clash_goto [OF assms(1), of "writes_map (generation w)" "Get_Shared a k" t]
  by (simp add: lock_step_def proceed_def start_access_def at_rest_def goto_def)

lemma reading_alone:
  assumes "at_rest w" "t < length (pcs w)"
  shows "lock_step (Go t) (goto t (Get_Reading a k) (w\<lparr>global_lock := Some t\<rparr>)) =
    Some (goto t (case k of None \<Rightarrow> Idle | Some v \<Rightarrow> Upd_Lock a v) w)"
  using assms by (simp add: lock_step_def proceed_def goto_def at_rest_def)

lemma lock_alone:
  assumes "at_rest w" "t < length (pcs w)" "locks w a = Some l"
  shows "lock_step (Go t) (goto t (Upd_Lock a v) w) =
    Some (goto t (Upd_Writing a v (generation w)) (w\<lparr>held := [l \<mapsto> t]\<rparr>))"
  using assms clash_goto [OF assms(1), of "reads_app a" "Upd_Lock a v" t]
    clash_goto [OF assms(1), of "\<lambda>p. reads_map (generation w) p \<or> writes_map (generation w) p" "Upd_Lock a v" t]
  by (simp add: lock_step_def proceed_def start_access_def at_rest_def goto_def)

lemma writing_alone:
  assumes "at_rest w" "t < length (pcs w)"
  shows "lock_step (Go t) (goto t (Upd_Writing a v (generation w)) (w\<lparr>held := h\<rparr>)) =
    Some (goto t (Upd_Unlock a) (w\<lparr>held := h, cells := (cells w)(a \<mapsto> v)\<rparr>))"
  using assms by (simp add: lock_step_def proceed_def goto_def at_rest_def)

lemma unlock_alone:
  assumes "at_rest w" "t < length (pcs w)" "locks w a = Some l"
  shows "lock_step (Go t) (goto t (Upd_Unlock a) (w\<lparr>held := [l \<mapsto> t], cells := c\<rparr>)) = Some (w\<lparr>cells := c\<rparr>)"
proof -
  have "(pcs w)[t := Idle] = pcs w"
    using at_rest_idle [OF assms(1,2)] by (metis list_update_id)
  then show ?thesis using assms by (simp add: lock_step_def proceed_def goto_def at_rest_def)
qed

lemma lock_run_append:
  "lock_run (xs @ ys) w = (case lock_run xs w of None \<Rightarrow> None | Some w' \<Rightarrow> lock_run ys w')"
  by (induction xs arbitrary: w) (simp_all split: option.split)

lemma list_ex_updated: "t < length xs \<Longrightarrow> P x \<Longrightarrow> list_ex P (xs[t := x])"
  by (auto simp: list_ex_length)

definition fault_after :: "lock_action list \<Rightarrow> lock_world \<Rightarrow> fault option" where
  "fault_after acts w = (case lock_run acts w of None \<Rightarrow> None | Some w' \<Rightarrow> fault_seen w')"

section \<open>Properties\<close>

text \<open>C31: As long as the cache is not reset, any number of lookups and updates interleaved in any way
  find the lock of every app they need and never unlock a lock they do not have, and two goroutines
  never have the lock of one app for writing at once.\<close>

theorem locks_safe_without_reset:
  assumes "lock_run acts (lock_start n) = Some w" "Reset_Cache \<notin> set acts"
  shows "fault_seen w \<noteq> Some Nil_Lock \<and> fault_seen w \<noteq> Some Unlock_Of_Unlocked
    \<and> (t < n' \<and> t' < n' \<and> n' = length (pcs w) \<and> a \<in> write_locks (pcs w ! t) \<and> a \<in> write_locks (pcs w ! t')
       \<longrightarrow> t = t')"
proof -
  have inv: "lock_inv w"
    using lock_inv_run [OF lock_inv_start assms] .
  then have "fault_seen w \<in> {None, Some Concurrent_Map_Access}"
    by (simp add: lock_inv_def)
  with inv lock_inv_holder [OF inv] show ?thesis by auto
qed

definition update_until_unlock :: "lock_action list" where
  "update_until_unlock = Update 0 ''a'' None # replicate 5 (Go 0)"

lemma update_runs: "\<not> Option.is_none (lock_run update_until_unlock (lock_start 2))"
  by code_simp

theorem locks_safe_without_reset_witness:
  "\<exists>w. lock_run update_until_unlock (lock_start 2) = Some w
    \<and> fault_seen w \<noteq> Some Nil_Lock \<and> fault_seen w \<noteq> Some Unlock_Of_Unlocked
    \<and> (0 < (2 :: nat) \<and> 1 < (2 :: nat) \<and> 2 = length (pcs w) \<and> ''a'' \<in> write_locks (pcs w ! 0)
        \<and> ''a'' \<in> write_locks (pcs w ! 1) \<longrightarrow> 0 = (1 :: nat))"
proof -
  obtain w where run: "lock_run update_until_unlock (lock_start 2) = Some w"
    using update_runs by (cases "lock_run update_until_unlock (lock_start 2)") simp_all
  have "Reset_Cache \<notin> set update_until_unlock" by (simp add: update_until_unlock_def)
  from locks_safe_without_reset [OF run this, of 0 2 1 "''a''"] run show ?thesis by blast
qed

text \<open>C29: The cache under the locks refines the atomic one. For every interleaving of lookups, updates,
  requests and resets there is an account of what each action did to the cache: a reset empties it, a
  turn of a goroutine stores one update of that goroutine, loses it or does nothing, and nothing else
  changes it. At every moment of the interleaving the cache holds what the account makes of it so far,
  every goroutine has made exactly the updates it has begun, in its order, but for the one it is in the
  middle of, and none is lost unless there has been a reset.\<close>

theorem updates_take_effect_once:
  assumes "lock_run acts (lock_start n) = Some w"
  shows "\<exists>log. list_all2 caused acts log
    \<and> (\<forall>k \<le> length acts. \<exists>u. lock_run (take k acts) (lock_start n) = Some u
         \<and> cells u = cache (fold take_effect (concat (take k log)) (NewClient h))
         \<and> (\<forall>t. concat (map (begun_by t) (take k acts)) =
               concat (map (made_by t) (concat (take k log))) @ pending_at u t)
         \<and> (list_ex is_lost (concat (take k log)) \<longrightarrow> Reset_Cache \<in> set (take k acts)))"
proof -
  have none: "pending_at (lock_start n) t = []" for t by (simp add: pending_at_def lock_start_def)
  have current: "list_all (current (generation (lock_start n))) (pcs (lock_start n))"
    by (simp add: lock_start_def list_all_length)
  have "cache (NewClient h) = cells (lock_start n)"
    by (simp add: NewClient_def lock_start_def)
  from run_effects [OF assms this] obtain log where log: "list_all2 caused acts log"
    and all: "\<forall>k \<le> length acts. \<exists>u. lock_run (take k acts) (lock_start n) = Some u
      \<and> accounted (lock_start n) (NewClient h) (take k acts) (concat (take k log)) u" by blast
  show ?thesis
    by (intro exI [of _ log] conjI log) (use all none current in \<open>force simp: accounted_def\<close>)
qed

theorem updates_take_effect_once_witness:
  "\<exists>w log. lock_run update_until_unlock (lock_start 2) = Some w \<and> length log = 6
    \<and> cells w = cache (fold take_effect (concat log) (NewClient ()))
    \<and> concat (map (made_by 0) (concat log)) @ pending_at w 0 = [(''a'', None)]
    \<and> \<not> list_ex is_lost (concat log)"
proof -
  obtain w where run: "lock_run update_until_unlock (lock_start 2) = Some w"
    using update_runs by (cases "lock_run update_until_unlock (lock_start 2)") simp_all
  have acts: "Reset_Cache \<notin> set update_until_unlock" "length update_until_unlock = 6"
    "concat (map (begun_by 0) update_until_unlock) = [(''a'', None)]"
    by (simp_all add: update_until_unlock_def)
  from updates_take_effect_once [OF run, of "()"] obtain log where
      log: "list_all2 caused update_until_unlock log"
    and all: "\<forall>k \<le> length update_until_unlock. \<exists>u. lock_run (take k update_until_unlock) (lock_start 2) = Some u
         \<and> cells u = cache (fold take_effect (concat (take k log)) (NewClient ()))
         \<and> (\<forall>t. concat (map (begun_by t) (take k update_until_unlock)) =
               concat (map (made_by t) (concat (take k log))) @ pending_at u t)
         \<and> (list_ex is_lost (concat (take k log)) \<longrightarrow> Reset_Cache \<in> set (take k update_until_unlock))"
    by blast
  have "length log = 6" using log acts(2) by (simp add: list_all2_lengthD [symmetric])
  with all [rule_format, of 6] run acts show ?thesis
    by (intro exI [of _ w] exI [of _ log]) (metis option.inject order_refl take_all)
qed

text \<open>C30: The locking is not sound. From any state in which no operation is under way, and for any app
  and answer: a reset between the lookup and the lock of an update, or between its lock and unlock, ends
  the program with a nil pointer; a lookup of the app after the latter makes it the unlock of a lock that
  is not held; and without any reset an update accesses the map while a lookup of another app does, or
  while a request for all integrations does.\<close>

theorem locking_has_faults:
  assumes "at_rest w" "t < length (pcs w)" "u < length (pcs w)" "t \<noteq> u" "a \<noteq> b"
  shows "fault_after (Update t a v # replicate 3 (Go t) @ [Reset_Cache, Go t]) w = Some Nil_Lock
    \<and> fault_after (Update t a v # replicate 5 (Go t) @ [Reset_Cache, Go t]) w = Some Nil_Lock
    \<and> fault_after (Update t a v # replicate 5 (Go t) @ [Reset_Cache, Lookup u a, Go u, Go t]) w =
        Some Unlock_Of_Unlocked
    \<and> fault_after (Update t a v # replicate 4 (Go t) @ [Lookup u b, Go u, Go u]) w =
        Some Concurrent_Map_Access
    \<and> fault_after (Web_Request u # Update t a v # replicate 4 (Go t)) w = Some Concurrent_Map_Access"
proof -
  let ?w = "secured a w"
  have rest: "at_rest ?w" using assms(1) by (rule at_rest_secured)
  obtain l where l: "locks ?w a = Some l" using secured_locks by blast
  have t: "t < length (pcs ?w)" using assms(2) by simp
  note alone = begin_alone(2) [OF assms(1,2)] global_alone [OF assms(1,2)] shared_alone [OF rest t l]
    reading_alone [OF rest t] lock_alone [OF rest t l] writing_alone [OF rest t]
  have lock: "lock_run (Update t a v # replicate 3 (Go t)) w = Some (goto t (Upd_Lock a v) ?w)"
    by (simp add: numeral_3_eq_3 alone)
  have writing: "lock_run (Update t a v # replicate 4 (Go t)) w =
      Some (goto t (Upd_Writing a v (generation w)) (?w\<lparr>held := [l \<mapsto> t]\<rparr>))"
    using alone by (simp add: numeral_eq_Suc)
  have unlock: "lock_run (Update t a v # replicate 5 (Go t)) w =
      Some (goto t (Upd_Unlock a) (?w\<lparr>held := [l \<mapsto> t], cells := (cells w)(a \<mapsto> v)\<rparr>))"
    using alone by (simp add: numeral_eq_Suc)
  have idle: "pcs w ! u = Idle" using at_rest_idle [OF assms(1,3)] .
  have run: "fault_after (xs @ ys) w = fault_after ys x" if "lock_run xs w = Some x" for xs ys x
    using that by (simp add: fault_after_def lock_run_append)
  note step = fault_after_def lock_step_def proceed_def fail_with_def start_access_def
  note rests = rest [unfolded at_rest_def]
  have reset: "fault_after (Update t a v # replicate 3 (Go t) @ [Reset_Cache, Go t]) w = Some Nil_Lock"
    using run [OF lock, of "[Reset_Cache, Go t]"] t rests by (simp add: step)
  have reset_unlock: "fault_after (Update t a v # replicate 5 (Go t) @ [Reset_Cache, Go t]) w = Some Nil_Lock"
    using run [OF unlock, of "[Reset_Cache, Go t]"] t rests by (simp add: step goto_def)
  have "l < next_lock ?w" using rests l by blast
  then have other: "fault_after (Update t a v # replicate 5 (Go t) @ [Reset_Cache, Lookup u a, Go u, Go t]) w =
      Some Unlock_Of_Unlocked"
    using run [OF unlock, of "[Reset_Cache, Lookup u a, Go u, Go t]"] t rests assms(3,4) idle
    by (simp add: step goto_def)
  have distinct: "locks ?w b = Some m \<Longrightarrow> m \<noteq> l" for m using rests l assms(5) by metis
  have new: "locks ?w b = None \<Longrightarrow> l \<noteq> next_lock ?w" using \<open>l < next_lock ?w\<close> by simp
  have gen: "generation ?w = generation w" by simp
  have lookup: "fault_after (Update t a v # replicate 4 (Go t) @ [Lookup u b, Go u, Go u]) w =
      Some Concurrent_Map_Access"
    using run [OF writing, of "[Lookup u b, Go u, Go u]"] t rests assms(3,4) idle new distinct
    by (cases "locks ?w b") (simp_all add: step goto_def list_update_swap [of t u] list_ex_updated)
  have web: "fault_after (Web_Request u # Update t a v # replicate 4 (Go t)) w = Some Concurrent_Map_Access"
  proof -
    let ?ps = "\<lambda>p. (pcs w)[u := Web_Reading (generation w), t := p]"
    have free: "\<not> list_ex (writes_map (generation w)) (pcs w)"
        "\<not> list_ex (writes_map (generation w)) (?ps (Get_Shared a (Some v)))"
        "\<not> list_ex (reads_app a) (?ps (Upd_Lock a v))"
      using at_rest_idle [OF assms(1)] by (auto simp: list_ex_length nth_list_update_in)
    have busy: "list_ex (\<lambda>p. reads_map (generation w) p \<or> writes_map (generation w) p) (?ps (Upd_Lock a v))"
      using assms(3,4) by (auto simp: list_ex_length intro!: exI [of _ u])
    from assms(1) have "global_lock w = None" "fault_seen w = None" "held w = Map.empty"
      by (simp_all add: at_rest_def)
    then show ?thesis
      using assms(2-4) idle at_rest_idle [OF assms(1,2)] free busy
      by (cases "locks w a") (simp_all add: step goto_def numeral_eq_Suc)
  qed
  show ?thesis using reset reset_unlock other lookup web by blast
qed

theorem locking_has_faults_witness:
  "fault_after (Update 0 ''a'' None # replicate 5 (Go 0) @ [Reset_Cache, Go 0]) (lock_start 2) = Some Nil_Lock
   \<and> fault_after (Web_Request 1 # Update 0 ''a'' None # replicate 4 (Go 0)) (lock_start 2) =
      Some Concurrent_Map_Access"
  using locking_has_faults [OF at_rest_start [of 2], of 0 1 "''a''" "''b''" None] by (simp add: lock_start_def)

end
