(* ===== verification/Program_Cache.thy ===== *)
theory Program_Cache
  imports Cache_Locks
begin

text \<open>
  The client of \<open>integrations/integrations.go\<close> as the running program shares it between goroutines: the
  state of the Houston client, the cache with its locks as \<open>Cache_Locks\<close> has it, and the counters.
  Goroutine 0 of the cache is the one of the consumer, which looks up the app of every message; the
  others are the listeners of the event stream and the requests to the web server. The lemmas say what
  a step of the cache keeps: what is stored satisfies what is offered to be stored, and a fault needs
  another goroutine or a reset.
\<close>

record 'h shared =
  houston_state :: 'h
  cache_locks :: lock_world
  cache_counters :: metrics

text \<open>\<open>NewClient\<close>, with \<open>n\<close> goroutines beside the consumer.\<close>

definition new_shared :: "nat \<Rightarrow> 'h \<Rightarrow> 'h shared" where
  "new_shared n h = \<lparr>houston_state = h, cache_locks = lock_start (Suc n), cache_counters = no_metrics\<rparr>"

definition count_cache :: "metric \<Rightarrow> string list \<Rightarrow> 'h shared \<Rightarrow> 'h shared" where
  "count_cache m labels i = i\<lparr>cache_counters := bump m labels 1 (cache_counters i)\<rparr>"

lemma count_cache_simps [simp]:
  "houston_state (count_cache m ls i) = houston_state i" "cache_locks (count_cache m ls i) = cache_locks i"
  by (simp_all add: count_cache_def)

lemma count_cache_houston: "(count_cache m ls i)\<lparr>houston_state := h\<rparr> = count_cache m ls (i\<lparr>houston_state := h\<rparr>)"
  by (simp add: count_cache_def)

section \<open>What a step of the cache does\<close>

lemma proceed_length: "proceed t L = Some L' \<Longrightarrow> length (pcs L') = length (pcs L)"
  by (auto simp: proceed_def split: pc.splits if_splits option.splits)

lemma lock_step_length: "lock_step act L = Some L' \<Longrightarrow> length (pcs L') = length (pcs L)"
  by (cases act) (auto simp: lock_step_def dest: proceed_length split: if_splits)

lemma lock_step_no_fault: "lock_step act L = Some L' \<Longrightarrow> fault_seen L = None"
  by (simp add: lock_step_def split: if_splits)

text \<open>What is in the cache, and what a goroutine is about to put there.\<close>

definition stores :: "(strmap option \<Rightarrow> bool) \<Rightarrow> lock_world \<Rightarrow> bool" where
  "stores P L \<longleftrightarrow> (\<forall>a v. cells L a = Some v \<longrightarrow> P v)
     \<and> (\<forall>t < length (pcs L). \<forall>(a, v) \<in> set (pending (pcs L ! t)). P v)"

fun offered :: "lock_action \<Rightarrow> strmap option list" where
  "offered (Update t a v) = [v]"
| "offered _ = []"

lemma stores_goto:
  assumes "stores P L" "\<forall>a v. cells L' a = Some v \<longrightarrow> P v" "pcs L' = (pcs L)[t := p]"
    and "\<forall>(a, v) \<in> set (pending p). P v"
  shows "stores P L'"
  using assms by (auto simp: stores_def nth_list_update_in)

lemma write_effect_pending:
  "concat (map (made_by t) (write_effect t L)) = [] \<and> write_effect t L = []
    \<or> (\<exists>a v. pending (pcs L ! t) = [(a, v)] \<and> write_effect t L \<in> {[Stored t a v], [Lost t a v]})"
  by (cases "pcs L ! t") (auto simp: write_effect_def)

lemma stores_proceed:
  assumes "stores P L" "proceed t L = Some L'" "t < length (pcs L)"
  shows "stores P L'"
proof -
  from assms(2,3) obtain p where p: "pcs L' = (pcs L)[t := p]"
    "pending (pcs L ! t) = concat (map (made_by t) (write_effect t L)) @ pending p"
    and cells: "\<And>s :: unit integrations. cache s = cells L \<Longrightarrow> cache (fold take_effect (write_effect t L) s) = cells L'"
    by (rule proceed_effect) blast
  have now: "\<forall>(a, v) \<in> set (pending (pcs L ! t)). P v" using assms(1,3) by (simp add: stores_def)
  let ?s = "(NewClient ())\<lparr>cache := cells L\<rparr>"
  have "cells L' = cache (fold take_effect (write_effect t L) ?s)" by (rule cells [symmetric]) simp
  then have "\<forall>a v. cells L' a = Some v \<longrightarrow> P v"
    using write_effect_pending [of t L] now assms(1)
    by (auto simp: stores_def Map_Put_def split: if_splits)
  with p now show ?thesis by (intro stores_goto [OF assms(1)]) auto
qed

lemma stores_step:
  assumes "stores P L" "lock_step act L = Some L'" "list_all P (offered act)"
  shows "stores P L'"
proof (cases act)
  case (Lookup t a)
  with assms show ?thesis
    by (intro stores_goto [OF assms(1), of L' t "Get_Global a None"])
      (auto simp: lock_step_def stores_def split: if_splits)
next
  case (Update t a v)
  with assms show ?thesis
    by (intro stores_goto [OF assms(1), of L' t "Get_Global a (Some v)"])
      (auto simp: lock_step_def stores_def split: if_splits)
next
  case (Web_Request t)
  with assms show ?thesis
    by (intro stores_goto [OF assms(1), of L' t "Web_Reading (generation L)"])
      (auto simp: lock_step_def stores_def split: if_splits)
next
  case (Go t)
  with assms show ?thesis by (auto simp: lock_step_def intro: stores_proceed split: if_splits)
next
  case Reset_Cache
  with assms(2) have "cells L' = NewMap" "pcs L' = pcs L" by (auto simp: lock_step_def split: if_splits)
  with assms(1) show ?thesis by (simp add: stores_def NewMap_def)
qed

lemma stores_start: "stores P (lock_start n)"
  by (simp add: stores_def lock_start_def NewMap_def)

section \<open>What a fault needs\<close>

text \<open>The consumer is alone with the cache, and what may happen then.\<close>

definition others_idle :: "lock_world \<Rightarrow> bool" where
  "others_idle L \<longleftrightarrow> (\<forall>t < length (pcs L). t \<noteq> 0 \<longrightarrow> pcs L ! t = Idle)"

fun of_consumer :: "lock_action \<Rightarrow> bool" where
  "of_consumer (Lookup t a) = (t = 0)"
| "of_consumer (Update t a v) = (t = 0)"
| "of_consumer (Web_Request t) = False"
| "of_consumer (Go t) = True"
| "of_consumer Reset_Cache = True"

lemma others_idle_clash:
  "others_idle L \<Longrightarrow> \<not> clash Idle \<Longrightarrow> \<not> clash (pcs L ! 0) \<Longrightarrow> \<not> list_ex clash (pcs L)"
  unfolding others_idle_def list_ex_length by metis

lemma others_idle_goto: "others_idle L \<Longrightarrow> pcs L' = (pcs L)[0 := p] \<Longrightarrow> others_idle L'"
  by (simp add: others_idle_def nth_list_update)

lemma alone_proceed:
  assumes "others_idle L" "proceed 0 L = Some L'" "fault_seen L = None" "0 < length (pcs L)"
  shows "others_idle L' \<and> fault_seen L' \<noteq> Some Concurrent_Map_Access"
proof -
  from assms(2,4) obtain p where "pcs L' = (pcs L)[0 := p]" by (rule proceed_effect) blast
  then have "others_idle L'" by (rule others_idle_goto [OF assms(1)])
  moreover have "fault_seen L' \<noteq> Some Concurrent_Map_Access"
  proof (cases "pcs L ! 0")
    case (Get_Shared a k)
    have "\<not> list_ex (writes_map (generation L)) (pcs L)"
      using assms(1) Get_Shared by (intro others_idle_clash) simp_all
    with Get_Shared assms(2,3) show ?thesis
      by (auto simp: proceed_def start_access_def split: if_splits option.splits)
  next
    case (Upd_Lock a v)
    have "\<not> list_ex (\<lambda>p. reads_map (generation L) p \<or> writes_map (generation L) p) (pcs L)"
      using assms(1) Upd_Lock by (intro others_idle_clash) simp_all
    with Upd_Lock assms(2,3) show ?thesis
      by (auto simp: proceed_def start_access_def fail_with_def split: if_splits option.splits)
  qed (use assms(2,3) in \<open>auto simp: proceed_def fail_with_def split: if_splits option.splits\<close>)
  ultimately show ?thesis by blast
qed

lemma alone_step:
  assumes "others_idle L" "lock_step act L = Some L'" "of_consumer act"
  shows "others_idle L' \<and> fault_seen L' \<noteq> Some Concurrent_Map_Access"
proof (cases act)
  case (Go t)
  with assms(2) have go: "proceed t L = Some L'" "fault_seen L = None" "t < length (pcs L)"
    by (auto simp: lock_step_def split: if_splits)
  then have "pcs L ! t \<noteq> Idle" by (auto simp: proceed_def)
  with assms(1) go(3) have "t = 0" by (auto simp: others_idle_def)
  with go alone_proceed [OF assms(1), of L'] show ?thesis by simp
qed (use assms in \<open>auto simp: lock_step_def others_idle_def nth_list_update split: if_splits\<close>)

lemma others_idle_start: "others_idle (lock_start n)"
  by (simp add: others_idle_def lock_start_def)

text \<open>Without a reset the only fault is that of two accesses at once.\<close>

lemma unreset_fault: "lock_inv L \<Longrightarrow> fault_seen L = Some f \<Longrightarrow> f = Concurrent_Map_Access"
  by (simp add: lock_inv_def)

section \<open>The invariant of the client\<close>

definition good_pointer :: "strmap option \<Rightarrow> bool" where
  "good_pointer v \<longleftrightarrow> (\<exists>m. v = Some m \<and> finite (dom m))"

text \<open>
  Every pointer in the cache leads to a map; if the consumer is alone, so it is in the cache; and if
  nothing resets the cache, every lock that is relied on is there.
\<close>

definition shared_ok :: "('h \<Rightarrow> bool) \<Rightarrow> bool \<Rightarrow> bool \<Rightarrow> 'h shared \<Rightarrow> bool" where
  "shared_ok houston_inv alone unreset i \<longleftrightarrow>
     houston_inv (houston_state i) \<and> stores good_pointer (cache_locks i)
     \<and> (alone \<longrightarrow> others_idle (cache_locks i)) \<and> (unreset \<longrightarrow> lock_inv (cache_locks i))"

lemma shared_ok_start: "houston_inv h \<Longrightarrow> shared_ok houston_inv alone unreset (new_shared n h)"
  by (simp add: shared_ok_def new_shared_def stores_start others_idle_start lock_inv_start)

lemma shared_ok_count [simp]:
  "shared_ok houston_inv alone unreset (count_cache m ls i) = shared_ok houston_inv alone unreset i"
  by (simp add: shared_ok_def)

lemma shared_ok_houston:
  "shared_ok houston_inv alone unreset i \<Longrightarrow> houston_inv h \<Longrightarrow>
     shared_ok houston_inv alone unreset (i\<lparr>houston_state := h\<rparr>)"
  by (simp add: shared_ok_def)

lemma shared_ok_step:
  assumes "shared_ok houston_inv alone unreset i" "lock_step act (cache_locks i) = Some L"
    and "list_all good_pointer (offered act)" "alone \<longrightarrow> of_consumer act" "unreset \<longrightarrow> act \<noteq> Reset_Cache"
  shows "shared_ok houston_inv alone unreset (i\<lparr>cache_locks := L\<rparr>)"
  using assms stores_step [OF _ assms(2,3)] alone_step [OF _ assms(2)] lock_inv_step [OF _ assms(2)]
  by (simp add: shared_ok_def)

lemma shared_ok_fault:
  assumes "shared_ok houston_inv alone unreset i" "lock_step act (cache_locks i) = Some L"
    and "alone \<longrightarrow> of_consumer act" "unreset \<longrightarrow> act \<noteq> Reset_Cache" "fault_seen L = Some f"
  shows "if f = Concurrent_Map_Access then \<not> alone else \<not> unreset"
  using assms alone_step [OF _ assms(2)] lock_inv_step [OF _ assms(2)] unreset_fault [of L f]
  by (auto simp: shared_ok_def)

text \<open>
  The rest of a call of \<open>HandleMessage\<close> runs over the answer it has got, which is an integrations client of
  its own.
\<close>

definition answer_ok :: "strmap option result \<Rightarrow> bool" where
  "answer_ok r \<longleftrightarrow> (\<forall>m. r = Inr (Some m) \<longrightarrow> finite (dom m))"

lemma answered_api:
  assumes "answer_ok r"
  shows "integrations_api (\<lambda>i a. Returned (i, r)) (\<lambda>i a. Returned (i, None)) (\<lambda>i d. Returned i) ints_inv"
  by unfold_locales (use assms in \<open>auto simp: answer_ok_def\<close>)

end
