(* ===== verification/Sse_Stream.thy ===== *)
theory Sse_Stream
  imports Http
begin

text \<open>
  The client library for server-sent events (\<open>vendor/github.com/astronomerio/sse/sse.go\<close>): the
  request of \<open>Listen\<close>, the reader that makes events of the body of the response, and the loop of \<open>Listen\<close>
  that hands them to the subscribers. The body is the sequence of its bytes and how it ends: at end of file, or with an
  error of the connection.
\<close>

record sse_event =
  ev_ID :: string
  ev_Event :: string
  ev_Data :: bytes

definition new_event :: sse_event where
  "new_event = \<lparr>ev_ID = '''', ev_Event = '''', ev_Data = []\<rparr>"


section \<open>Functions of the package bytes\<close>

text \<open>\<open>ReadBytes('\n')\<close> until the end: the lines with their newline, and what follows the last.\<close>

fun read_lines :: "bytes \<Rightarrow> bytes list \<times> bytes" where
  "read_lines [] = ([], [])"
| "read_lines (c # cs) =
     (let (ls, rest) = read_lines cs
      in if c = CHR 0x0A then ([c] # ls, rest)
         else (case ls of [] \<Rightarrow> ([], c # rest) | l # ls' \<Rightarrow> ((c # l) # ls', rest)))"

text \<open>\<open>bytes.Split\<close> at the delimiter of the library, a colon and a space.\<close>

fun split_colon :: "bytes \<Rightarrow> bytes list" where
  "split_colon [] = [[]]"
| "split_colon [c] = [[c]]"
| "split_colon (c # d # cs) =
     (if c = CHR '':'' \<and> d = CHR '' '' then [] # split_colon cs
      else (case split_colon (d # cs) of [] \<Rightarrow> [[c]] | l # ls \<Rightarrow> (c # l) # ls))"

text \<open>\<open>bytes.TrimSpace\<close>: the encodings in UTF-8 of the characters that are white space.\<close>

definition space_codes :: "bytes list" where
  "space_codes =
     [[CHR 0x09], [CHR 0x0A], [CHR 0x0B], [CHR 0x0C], [CHR 0x0D], [CHR 0x20],
      [CHR 0xC2, CHR 0x85], [CHR 0xC2, CHR 0xA0], [CHR 0xE1, CHR 0x9A, CHR 0x80],
      [CHR 0xE2, CHR 0x80, CHR 0x80], [CHR 0xE2, CHR 0x80, CHR 0x81], [CHR 0xE2, CHR 0x80, CHR 0x82],
      [CHR 0xE2, CHR 0x80, CHR 0x83], [CHR 0xE2, CHR 0x80, CHR 0x84], [CHR 0xE2, CHR 0x80, CHR 0x85],
      [CHR 0xE2, CHR 0x80, CHR 0x86], [CHR 0xE2, CHR 0x80, CHR 0x87], [CHR 0xE2, CHR 0x80, CHR 0x88],
      [CHR 0xE2, CHR 0x80, CHR 0x89], [CHR 0xE2, CHR 0x80, CHR 0x8A], [CHR 0xE2, CHR 0x80, CHR 0xA8],
      [CHR 0xE2, CHR 0x80, CHR 0xA9], [CHR 0xE2, CHR 0x80, CHR 0xAF], [CHR 0xE2, CHR 0x81, CHR 0x9F],
      [CHR 0xE3, CHR 0x80, CHR 0x80]]"

definition has_prefix :: "bytes \<Rightarrow> bytes \<Rightarrow> bool" where
  "has_prefix p s \<longleftrightarrow> take (length p) s = p"

function trim_left :: "bytes list \<Rightarrow> bytes \<Rightarrow> bytes" where
  "trim_left codes s =
     (case find (\<lambda>p. p \<noteq> [] \<and> has_prefix p s) codes of
        None \<Rightarrow> s
      | Some p \<Rightarrow> trim_left codes (drop (length p) s))"
  by auto
termination
proof (relation "measure (\<lambda>(codes, s). length s)")
  fix codes s p
  assume "find (\<lambda>p. p \<noteq> [] \<and> has_prefix p s) codes = Some p"
  then have "p \<noteq> []" "take (length p) s = p"
    by (auto simp: find_Some_iff has_prefix_def)
  then have "0 < length p" "s \<noteq> []" by auto
  then show "((codes, drop (length p) s), codes, s) \<in> measure (\<lambda>(codes, s). length s)"
    by simp
qed simp

declare trim_left.simps [simp del]

definition trim_space :: "bytes \<Rightarrow> bytes" where
  "trim_space s = rev (trim_left (map rev space_codes) (rev (trim_left space_codes s)))"


section \<open>The reader\<close>

text \<open>
  One line. \<open>spl[1]\<close> is out of range for a line that is a marker and nothing else, which only the last
  line, without a newline, can be.
\<close>

definition second_part :: "bytes list \<Rightarrow> bytes outcome" where
  "second_part spl = (if length spl < 2 then Panicked ''index out of range'' else Returned (trim_space (spl ! 1)))"

definition read_line :: "bytes \<Rightarrow> sse_event \<Rightarrow> sse_event outcome" where
  "read_line bs e =
     (let spl = split_colon bs
      in if hd spl = ''id'' then and_then (second_part spl) (\<lambda>s. Returned (e\<lparr>ev_ID := s\<rparr>))
         else if hd spl = ''event'' then and_then (second_part spl) (\<lambda>s. Returned (e\<lparr>ev_Event := s\<rparr>))
         else if hd spl = ''data'' then and_then (second_part spl) (\<lambda>s. Returned (e\<lparr>ev_Data := s\<rparr>))
         else Returned e)"

text \<open>The lines that end with a newline; an empty one delivers the event.\<close>

fun read_events :: "bytes list \<Rightarrow> sse_event \<Rightarrow> (sse_event list \<times> sse_event) outcome" where
  "read_events [] e = Returned ([], e)"
| "read_events (bs # lines) e =
     (if bs = [CHR 0x0A]
      then and_then (read_events lines new_event) (\<lambda>(es, e'). Returned (e # es, e'))
      else and_then (read_line bs e) (\<lambda>e. read_events lines e))"

datatype body_end = End_Of_File | Read_Error string

datatype reader_end = Reader_Silent | Status_Fatal string

text \<open>
  The goroutine of \<open>Listen\<close>: what it delivers, and how it ends. At end of file it handles what is
  left as a line and returns without a word; on any other error it sends a status.
\<close>

definition reader :: "bytes \<Rightarrow> body_end \<Rightarrow> (sse_event list \<times> reader_end) outcome" where
  "reader body ending =
     (let (lines, rest) = read_lines body
      in and_then (read_events lines new_event) (\<lambda>(es, e).
           case ending of
             Read_Error err \<Rightarrow> Returned (es, Status_Fatal err)
           | End_Of_File \<Rightarrow> and_then (read_line rest e) (\<lambda>e. Returned (es, Reader_Silent))))"

text \<open>The loop of \<open>Listen\<close>: it hands on what is delivered and returns on a shutdown only.\<close>

datatype listen_input = Delivery sse_event | Shutdown_Request

fun listen_loop :: "listen_input list \<Rightarrow> sse_event list \<times> bool" where
  "listen_loop [] = ([], False)"
| "listen_loop (Delivery e # ins) = (let (es, returned) = listen_loop ins in (e # es, returned))"
| "listen_loop (Shutdown_Request # ins) = ([], True)"

text \<open>\<open>maybeDeliver\<close>: only an event whose name has a channel is passed on.\<close>

definition maybeDeliver :: "string set \<Rightarrow> sse_event \<Rightarrow> sse_event option" where
  "maybeDeliver channels e = (if ev_Event e \<in> channels then Some e else None)"

text \<open>
  The connection that \<open>Listen\<close> makes before it starts the reader: \<open>Header.Add\<close> keeps every value of a
  name. The checks of \<open>http.NewRequest\<close> and the network are parameters; a response is its status
  and its body.
\<close>

definition header_add :: "string \<Rightarrow> string \<Rightarrow> (string \<rightharpoonup> string list) \<Rightarrow> (string \<rightharpoonup> string list)" where
  "header_add k v h =
     h(canonical_header k \<mapsto> (case h (canonical_header k) of None \<Rightarrow> [v] | Some vs \<Rightarrow> vs @ [v]))"

definition listen_header :: "(string \<times> string) list \<Rightarrow> (string \<rightharpoonup> string list)" where
  "listen_header headers =
     header_add ''Accept'' ''text/event-stream'' (fold (\<lambda>(k, v). header_add k v) headers Map.empty)"

definition listen_connect ::
    "(string \<Rightarrow> string \<Rightarrow> go_error option) \<Rightarrow>
     ('w \<Rightarrow> string \<Rightarrow> (string \<rightharpoonup> string list) \<Rightarrow> 'w \<times> (int \<times> 'b) result) \<Rightarrow>
     string \<Rightarrow> (string \<times> string) list \<Rightarrow> 'w \<Rightarrow> 'w \<times> 'b result" where
  "listen_connect new_req get uri headers w =
     (case new_req ''GET'' uri of
        Some err \<Rightarrow> (w, Inl err)
      | None \<Rightarrow>
          (case get w uri (listen_header headers) of
             (w, Inl err) \<Rightarrow> (w, Inl err)
           | (w, Inr (status, body)) \<Rightarrow>
               if status \<noteq> 200 then (w, Inl (Error_String (''status code not 200: '' @ format_int status)))
               else (w, Inr body)))"

text \<open>The request carries the token the client was given.\<close>

lemma listen_header_token:
  "listen_header [(''authorization'', token)] ''Authorization'' = Some [token]"
  by (simp add: listen_header_def header_add_def)

section \<open>What the reader makes of a stream\<close>

lemma read_lines_append:
  "CHR 0x0A \<notin> set l \<Longrightarrow>
     read_lines (l @ CHR 0x0A # s) = ((l @ [CHR 0x0A]) # fst (read_lines s), snd (read_lines s))"
  by (induction l) (auto simp: Let_def split: prod.splits)

lemma split_colon_not_Nil [simp]: "split_colon s \<noteq> []"
  by (induction s rule: split_colon.induct) (auto split: list.splits)

text \<open>The delimiter does not occur.\<close>

fun no_delimiter :: "bytes \<Rightarrow> bool" where
  "no_delimiter [] = True"
| "no_delimiter [c] = True"
| "no_delimiter (c # d # cs) = (\<not> (c = CHR '':'' \<and> d = CHR '' '') \<and> no_delimiter (d # cs))"

lemma split_colon_first:
  "no_delimiter a \<Longrightarrow> split_colon (a @ CHR '':'' # CHR '' '' # s) = a # split_colon s"
proof (induction a rule: no_delimiter.induct)
  case (3 c d cs)
  then show ?case by (auto split: list.splits)
qed simp_all

lemma split_colon_last: "no_delimiter a \<Longrightarrow> c \<noteq> CHR '' '' \<Longrightarrow> split_colon (a @ [c]) = [a @ [c]]"
  by (induction a rule: no_delimiter.induct) auto

lemma trim_left_none:
  assumes "\<forall>p \<in> set codes. p = [] \<or> \<not> has_prefix p s"
  shows "trim_left codes s = s"
proof -
  have "find (\<lambda>p. p \<noteq> [] \<and> has_prefix p s) codes = None"
    using assms by (auto simp: find_None_iff)
  then show ?thesis by (subst trim_left.simps) simp
qed

lemma has_prefix_Cons [simp]:
  "has_prefix [] s" "\<not> has_prefix (c # p) []" "has_prefix (c # p) (d # s) \<longleftrightarrow> c = d \<and> has_prefix p s"
  by (auto simp: has_prefix_def)

lemma has_prefix_snoc: "has_prefix p (s @ [c]) \<longleftrightarrow> has_prefix p s \<or> p = s @ [c]"
  by (auto simp: has_prefix_def take_Cons' dest: arg_cong [where f = length])

text \<open>A text that neither begins nor ends with white space.\<close>

definition tight :: "bytes \<Rightarrow> bool" where
  "tight s \<longleftrightarrow> s \<noteq> [] \<and> (\<forall>p \<in> set space_codes. \<not> has_prefix p s)
     \<and> (\<forall>p \<in> set space_codes. \<not> has_prefix (rev p) (rev s))"

lemma newline_codes: "p \<in> set space_codes \<Longrightarrow> p = s @ [CHR 0x0A] \<Longrightarrow> s = []"
  by (auto simp: space_codes_def)

lemma trim_left_newline: "trim_left (map rev space_codes) (CHR 0x0A # s) = trim_left (map rev space_codes) s"
  by (subst trim_left.simps) (simp add: space_codes_def)

lemma trim_space_tight:
  assumes "tight s"
  shows "trim_space (s @ [CHR 0x0A]) = s"
proof -
  have "trim_left space_codes (s @ [CHR 0x0A]) = s @ [CHR 0x0A]"
    using assms newline_codes by (intro trim_left_none) (auto simp: tight_def has_prefix_snoc)
  moreover have "trim_left (map rev space_codes) (rev s) = rev s"
    using assms by (intro trim_left_none) (auto simp: tight_def)
  ultimately show ?thesis by (simp add: trim_space_def trim_left_newline)
qed

lemma trim_space_id: "tight s \<Longrightarrow> trim_space s = s"
  using trim_left_none [of space_codes s] trim_left_none [of "map rev space_codes" "rev s"]
  by (auto simp: trim_space_def tight_def)

section \<open>Events as a server writes them\<close>

definition field :: "string \<Rightarrow> bytes \<Rightarrow> bytes" where
  "field name v = name @ '': '' @ v @ [CHR 0x0A]"

definition wire :: "sse_event \<Rightarrow> bytes" where
  "wire e = field ''id'' (ev_ID e) @ field ''event'' (ev_Event e) @ field ''data'' (ev_Data e) @ [CHR 0x0A]"

definition plain :: "bytes \<Rightarrow> bool" where
  "plain v \<longleftrightarrow> tight v \<and> no_delimiter v \<and> CHR 0x0A \<notin> set v"

text \<open>What is left of a value: the text before the first delimiter, less the white space around it.\<close>

definition received :: "bytes \<Rightarrow> bytes" where
  "received v = trim_space (hd (split_colon (v @ [CHR 0x0A])))"

lemma received_plain: "plain v \<Longrightarrow> received v = v"
  by (simp add: plain_def received_def split_colon_last trim_space_tight)

lemma received_delimited: "no_delimiter a \<Longrightarrow> received (a @ '': '' @ b) = trim_space a"
  by (simp add: received_def split_colon_first)

lemma read_lines_field:
  assumes "CHR 0x0A \<notin> set name" "CHR 0x0A \<notin> set v"
  shows "read_lines (field name v @ s) = (field name v # fst (read_lines s), snd (read_lines s))"
  using read_lines_append [of "name @ '': '' @ v" s] assms by (simp add: field_def)

lemma read_lines_newline:
  "read_lines (CHR 0x0A # s) = ([CHR 0x0A] # fst (read_lines s), snd (read_lines s))"
  using read_lines_append [of "[]" s] by simp

lemma split_field:
  "no_delimiter name \<Longrightarrow> split_colon (field name v) = name # split_colon (v @ [CHR 0x0A])"
  by (simp add: field_def split_colon_first)

lemma second_part_field:
  "second_part (name # split_colon (v @ [CHR 0x0A])) = Returned (received v)"
  by (cases "split_colon (v @ [CHR 0x0A])") (auto simp: second_part_def received_def)

lemma read_line_field:
  "read_line (field ''id'' v) e = Returned (e\<lparr>ev_ID := received v\<rparr>)"
  "read_line (field ''event'' v) e = Returned (e\<lparr>ev_Event := received v\<rparr>)"
  "read_line (field ''data'' v) e = Returned (e\<lparr>ev_Data := received v\<rparr>)"
  by (simp_all add: read_line_def split_field second_part_field)

lemma field_not_newline [simp]: "field name v \<noteq> [CHR 0x0A]"
  by (cases name) (simp_all add: field_def)

definition one_line :: "sse_event \<Rightarrow> bool" where
  "one_line e \<longleftrightarrow> CHR 0x0A \<notin> set (ev_ID e) \<and> CHR 0x0A \<notin> set (ev_Event e) \<and> CHR 0x0A \<notin> set (ev_Data e)"

lemma read_lines_wire:
  assumes "one_line e"
  shows "read_lines (wire e @ s) =
    (field ''id'' (ev_ID e) # field ''event'' (ev_Event e) # field ''data'' (ev_Data e) # [CHR 0x0A]
       # fst (read_lines s), snd (read_lines s))"
  using assms
  by (simp add: wire_def one_line_def read_lines_field read_lines_newline del: read_lines.simps)

definition receive_event :: "sse_event \<Rightarrow> sse_event" where
  "receive_event e = \<lparr>ev_ID = received (ev_ID e), ev_Event = received (ev_Event e), ev_Data = received (ev_Data e)\<rparr>"

lemma read_events_wire:
  assumes "\<forall>e \<in> set es. one_line e"
  shows "snd (read_lines (concat (map wire es))) = []"
    and "read_events (fst (read_lines (concat (map wire es)))) new_event = Returned (map receive_event es, new_event)"
  using assms
  by (induction es)
    (auto simp: read_lines_wire read_line_field receive_event_def new_event_def)

lemma reader_wire:
  assumes "\<forall>e \<in> set es. one_line e"
  shows "reader (concat (map wire es)) ending =
    Returned (map receive_event es,
      case ending of End_Of_File \<Rightarrow> Reader_Silent | Read_Error err \<Rightarrow> Status_Fatal err)"
proof -
  have "read_line [] new_event = Returned new_event" by (simp add: read_line_def)
  then show ?thesis
    using read_events_wire [OF assms]
    by (cases ending) (simp_all add: reader_def split_beta)
qed

text \<open>C33: The reader of the event stream delivers, in order and each once, every event of the body,
  with its id, its name and its data as the server wrote them, when these are single lines without
  surrounding white space in which the delimiter ": " does not occur. When the body ends it then
  ends too, and sends a status only if the connection broke: after a plain end of file nobody is
  told, so the client that waits for a status does not reconnect.\<close>
theorem stream_delivers_events:
  assumes "\<forall>e \<in> set es. plain (ev_ID e) \<and> plain (ev_Event e) \<and> plain (ev_Data e)"
  shows "reader (concat (map wire es)) ending =
    Returned (es, case ending of End_Of_File \<Rightarrow> Reader_Silent | Read_Error err \<Rightarrow> Status_Fatal err)"
proof -
  have "map receive_event es = es"
    using assms by (auto simp: receive_event_def received_plain intro: map_idI)
  moreover have "\<forall>e \<in> set es. one_line e"
    using assms by (auto simp: one_line_def plain_def)
  ultimately show ?thesis by (simp add: reader_wire)
qed

definition sample_event :: sse_event where
  "sample_event = \<lparr>ev_ID = ''7'', ev_Event = ''clickstream'', ev_Data = ''{\"appId\":\"a1\"}''\<rparr>"

lemma sample_event_plain:
  "plain (ev_ID sample_event)" "plain (ev_Event sample_event)" "plain (ev_Data sample_event)"
  by (simp_all add: sample_event_def plain_def tight_def space_codes_def)

lemma stream_delivers_events_witness:
  "reader (concat (map wire [sample_event, sample_event])) End_Of_File =
     Returned ([sample_event, sample_event], Reader_Silent)"
  using stream_delivers_events [of "[sample_event, sample_event]" End_Of_File] sample_event_plain
  by simp

text \<open>C32: Data in which a colon is followed by a space, as a JSON encoder that puts one after every
  key writes it, is cut at the first such place: the event is delivered with what comes before it,
  and the rest of the line is lost.\<close>
theorem data_cut_at_delimiter:
  assumes "plain (ev_ID e)" "plain (ev_Event e)"
    and "ev_Data e = a @ '': '' @ b" "no_delimiter a" "CHR 0x0A \<notin> set (ev_Data e)"
  shows "reader (wire e) ending =
    Returned ([e\<lparr>ev_Data := trim_space a\<rparr>],
      case ending of End_Of_File \<Rightarrow> Reader_Silent | Read_Error err \<Rightarrow> Status_Fatal err)"
proof -
  have "one_line e" using assms by (simp add: one_line_def plain_def)
  moreover have "receive_event e = e\<lparr>ev_Data := trim_space a\<rparr>"
    using assms received_delimited [of a b] by (simp add: receive_event_def received_plain)
  ultimately show ?thesis using reader_wire [of "[e]" ending] by simp
qed

lemma data_cut_at_delimiter_witness:
  "reader (wire (sample_event\<lparr>ev_Data := ''{\"appId\": \"a1\"}''\<rparr>)) End_Of_File =
     Returned ([sample_event\<lparr>ev_Data := ''{\"appId\"''\<rparr>], Reader_Silent)"
proof -
  have "trim_space ''{\"appId\"'' = ''{\"appId\"''"
    by (rule trim_space_id) (simp add: tight_def space_codes_def)
  then show ?thesis
    using data_cut_at_delimiter [of "sample_event\<lparr>ev_Data := ''{\"appId\": \"a1\"}''\<rparr>" "''{\"appId\"''" "''\"a1\"}''" End_Of_File]
      sample_event_plain
    by simp
qed

end
