(* ===== verification/Program.thy ===== *)
theory Program
  imports Consumer Commands Message_Text Program_Cache Sse_Stream
begin

text \<open>
  The running program as \<open>cmd/start.go\<close> puts it together: the goroutines that \<open>start\<close> and the
  constructors begin, as one step relation over the states of the components. A step is what one
  goroutine does between two points at which another can get in its way: a call of \<open>HandleMessage\<close> is
  cut at the steps of the locks of the cache (\<open>Cache_Locks\<close>) and at the request to Houston, and the
  goroutine of the produce channel takes messages within its loop, by a schedule chosen anew for each
  call; a listener of the event stream is cut the same way. Every other turn is one step by the
  definition of its theory, since it runs under one lock or touches what no other goroutine does: a
  turn of the event handler, a flush of the dead letter queue, a request to Houston. A call counts its
  message when its loop runs, which is after the lookup; the code counts it before.
  \<open>execute_start\<close> goes from the command line and the environment to the program before its first step,
  with every error on the way; the messages are decoded by \<open>json_decode\<close>.

  The program ends when \<open>Serve\<close> returns, as \<open>start\<close> then does; with a panic, which no goroutine
  recovers; or with a fault of the locks or of the map of the cache. What comes from outside is left
  open: the events of Kafka, the events and the bodies of the SSE stream, the requests to the web
  server, the signal, the times at which the timers fire. The Kafka client reports a delivery with the
  topic of the message, and a consumer that is closed has no events. How the SSE client connects again
  is left to \<open>Sse_Client\<close>: here it has any number of listeners, up to the number of goroutines given,
  and may at any time ask for a token and read a body to its end.
\<close>

record ('h, 'w, 'x) wiring =
  su_config :: producer_config
  su_driver :: "'w cql_driver"
  su_decode :: "bytes \<Rightarrow> message result"
  su_event_app :: "bytes \<Rightarrow> string result"
  su_houston :: "'h \<Rightarrow> string \<Rightarrow> 'h \<times> strmap option result"
  su_token :: "'h \<Rightarrow> 'h \<times> string result"
  su_retry :: bool
  su_sse :: bool
  su_web :: bool
  su_clock :: "'x \<Rightarrow> int"
  su_send :: "'x uploader"

datatype supervisor_pc = Sup_Check | Sup_Token | Sup_Run | Sup_Running | Sup_Done

datatype main_pc =
    Main_Serving | Main_Returned | Main_Crashed string | Reader_Crashed string | Main_Faulted fault

text \<open>
  Where the consumer is in a call of \<open>HandleMessage\<close>, with the message and its key: before the answer of
  the integrations client is known, or after.
\<close>

datatype call =
    No_Call
  | Looking_Up bytes bytes message
  | Missed bytes bytes message
  | Storing bytes bytes
  | Answered bytes bytes "strmap option result"

record ('h, 'w, 'x) program =
  consumer_state :: "('h shared, 'x dlq, 'w) producer consumer"
  call_at :: call
  asking :: "nat \<rightharpoonup> string"
  events_at :: loop_status
  supervisor :: supervisor_pc
  stop_closed :: bool
  stop_flag :: bool
  ttl_armed :: bool
  flush_armed :: bool
  queue_running :: bool
  main_at :: main_pc

abbreviation producer_of :: "('h, 'w, 'x) program \<Rightarrow> ('h shared, 'x dlq, 'w) producer" where
  "producer_of w \<equiv> handler_state (consumer_state w)"

abbreviation shared_of :: "('h, 'w, 'x) program \<Rightarrow> 'h shared" where
  "shared_of w \<equiv> ints (producer_of w)"

abbreviation locks_of :: "('h, 'w, 'x) program \<Rightarrow> lock_world" where
  "locks_of w \<equiv> cache_locks (shared_of w)"

definition with_producer ::
    "(('h shared, 'x dlq, 'w) producer \<Rightarrow> ('h shared, 'x dlq, 'w) producer) \<Rightarrow>
     ('h, 'w, 'x) program \<Rightarrow> ('h, 'w, 'x) program" where
  "with_producer f w =
     w\<lparr>consumer_state := (consumer_state w)\<lparr>handler_state := f (producer_of w)\<rparr>\<rparr>"

definition with_shared :: "('h shared \<Rightarrow> 'h shared) \<Rightarrow> ('h, 'w, 'x) program \<Rightarrow> ('h, 'w, 'x) program" where
  "with_shared f w = with_producer (\<lambda>p. p\<lparr>ints := f (ints p)\<rparr>) w"

text \<open>After a step of the cache: a fault ends the program.\<close>

definition locks_to :: "lock_world \<Rightarrow> ('h, 'w, 'x) program \<Rightarrow> ('h, 'w, 'x) program" where
  "locks_to L w =
     (with_shared (\<lambda>i. i\<lparr>cache_locks := L\<rparr>) w)
       \<lparr>main_at := (case fault_seen L of None \<Rightarrow> main_at w | Some f \<Rightarrow> Main_Faulted f)\<rparr>"

text \<open>
  The producer as it is made, and the program before its first step; \<open>create\<close> is the constructor of the
  client library, on a configuration.
\<close>

definition new_producer :: "'s \<Rightarrow> 'd option \<Rightarrow> 'w \<Rightarrow> ('s, 'd, 'w) producer" where
  "new_producer i d w =
     \<lparr>ints = i, deadletter = d, cass_world = w, loop_vars = [], channel = [], channel_closed = False,
      handed = [], refused = [], schedule = [], prod_counters = no_metrics\<rparr>"

definition NewProducer ::
    "((string \<times> conf_value) list \<Rightarrow> go_error option) \<Rightarrow> bool \<Rightarrow> producer_config \<Rightarrow> 's \<Rightarrow> 'd option \<Rightarrow> 'w \<Rightarrow>
     ('s, 'd, 'w) producer result" where
  "NewProducer create debug cfg i d w =
     (case create (producer_conf cfg debug) of
        Some err \<Rightarrow> Inl (With_Message err ''Error creating kafka messageHandler'')
      | None \<Rightarrow> Inr (new_producer i d w))"

definition program_of ::
    "('h shared, 'x dlq, 'w) producer consumer \<Rightarrow> bool \<Rightarrow> ('h, 'w, 'x) program" where
  "program_of c ttl =
     (let queue = deadletter (handler_state c) \<noteq> None
      in \<lparr>consumer_state = c, call_at = No_Call, asking = Map.empty, events_at = Looping,
          supervisor = Sup_Check, stop_closed = False, stop_flag = False, ttl_armed = ttl,
          flush_armed = queue, queue_running = queue, main_at = Main_Serving\<rparr>)"

definition program_start ::
    "consumer_options \<Rightarrow> 'h \<Rightarrow> 'x dlq option \<Rightarrow> 'w \<Rightarrow> bool \<Rightarrow> nat \<Rightarrow> ('h, 'w, 'x) program" where
  "program_start opts h d w ttl n = program_of (new_consumer opts (new_producer (new_shared n h) d w)) ttl"

text \<open>A loop over a map visits every key once, in any order.\<close>

definition legal_order :: "(nat \<Rightarrow> strmap \<Rightarrow> string list) \<Rightarrow> bool" where
  "legal_order order \<longleftrightarrow> (\<forall>n m. finite (dom m) \<longrightarrow> enumerates (order n m) m)"

definition reported :: "producer_input \<Rightarrow> bool" where
  "reported ev \<longleftrightarrow> ev \<noteq> Null_Event \<and> (\<forall>err value. ev \<noteq> Delivery_Report err None value)"

text \<open>
  What the consumer does with an event, given the answer \<open>r\<close> of the integrations client for a message
  that needs one. An event that needs none is taken when no call is under way; for a message whose app
  has to be looked up the call is finished when the answer is there.
\<close>

definition consume_step ::
    "('h, 'w, 'x) wiring \<Rightarrow> (nat \<Rightarrow> strmap \<Rightarrow> string list) \<Rightarrow> nat list \<Rightarrow> strmap option result \<Rightarrow>
     consumer_input \<Rightarrow> ('h, 'w, 'x) program \<Rightarrow> (('h shared, 'x dlq, 'w) producer consumer \<times> bool) outcome" where
  "consume_step su order sched r ev w =
     consume (HandleMessage (su_config su) (su_driver su) (su_decode su) (\<lambda>i a. Returned (i, r)) order) ev
       (consumer_state (with_producer (\<lambda>p. p\<lparr>schedule := sched\<rparr>) w))"

definition looks_up :: "('h, 'w, 'x) wiring \<Rightarrow> consumer_input \<Rightarrow> bool" where
  "looks_up su ev =
     (case ev of
        Kafka_Message message key \<Rightarrow> (case su_decode su message of Inl err \<Rightarrow> False | Inr dat \<Rightarrow> True)
      | _ \<Rightarrow> False)"

definition due :: "('h, 'w, 'x) wiring \<Rightarrow> call \<Rightarrow> consumer_input \<Rightarrow> strmap option result \<Rightarrow> bool" where
  "due su c ev r \<longleftrightarrow>
     (case c of
        No_Call \<Rightarrow> ev \<noteq> Shutdown_Signal \<and> \<not> looks_up su ev
      | Answered message key r' \<Rightarrow> ev = Kafka_Message message key \<and> r = r'
      | _ \<Rightarrow> False)"

definition handle_step ::
    "('h, 'w, 'x) wiring \<Rightarrow> nat \<Rightarrow> producer_input \<Rightarrow> ('h, 'w, 'x) program \<Rightarrow>
     (('h shared, 'x dlq, 'w) producer \<times> loop_status) outcome" where
  "handle_step su flushed ev w =
     handle_event (su_config su) (su_driver su) (su_decode su) (su_retry su)
       (\<lambda>d qo. AddToQueue (su_clock su) (su_send su) qo d) flushed ev (producer_of w)"

text \<open>
  \<open>GetIntegrations\<close> after its lookup: a nil pointer, for an app that is not in the cache too, is a miss.
  Then \<open>UpdateIntegrationsForApp\<close> asks Houston, and its error is the answer.
\<close>

definition looked_up :: "bytes \<Rightarrow> bytes \<Rightarrow> message \<Rightarrow> strmap option option \<Rightarrow> call" where
  "looked_up message key dat v =
     (case v of
        Some (Some m) \<Rightarrow> Answered message key (Inr (Some m))
      | _ \<Rightarrow> Missed message key dat)"

definition not_updated :: "go_error \<Rightarrow> go_error" where
  "not_updated err = With_Message (With_Message err ''Error updating integrations'') ''Error getting integration''"

definition miss_counted :: "string \<Rightarrow> 'h shared \<Rightarrow> 'h shared" where
  "miss_counted app i = count_cache IntegrationCacheUpdate [app] (count_cache IntegrationCacheMiss [app] i)"

definition event_counted :: "string \<Rightarrow> 'h shared \<Rightarrow> 'h shared" where
  "event_counted app i = count_cache IntegrationCacheUpdate [app] (count_cache SSEClickstreamMessagesReceived [] i)"

text \<open>The end of the access with which a lookup reads the map.\<close>

fun reads_out :: "pc \<Rightarrow> bool" where
  "reads_out (Get_Reading a None) = True"
| "reads_out _ = False"

section \<open>The steps\<close>

inductive program_step ::
    "('h, 'w, 'x) wiring \<Rightarrow> ('h, 'w, 'x) program \<Rightarrow> ('h, 'w, 'x) program \<Rightarrow> bool" for su where
  signal_received: "main_at w = Main_Serving \<Longrightarrow> \<not> stop_closed w \<Longrightarrow>
     program_step su w (w\<lparr>stop_closed := True\<rparr>)"
| flag_set: "main_at w = Main_Serving \<Longrightarrow> stop_closed w \<Longrightarrow>
     program_step su w (w\<lparr>stop_flag := True\<rparr>)"
| supervisor_ends: "main_at w = Main_Serving \<Longrightarrow> supervisor w = Sup_Check \<Longrightarrow> stop_flag w \<Longrightarrow>
     program_step su w (w\<lparr>supervisor := Sup_Done\<rparr>)"
| supervisor_goes_on: "main_at w = Main_Serving \<Longrightarrow> supervisor w = Sup_Check \<Longrightarrow> \<not> stop_flag w \<Longrightarrow>
     program_step su w (w\<lparr>supervisor := Sup_Token\<rparr>)"
| token_asked: "main_at w = Main_Serving \<Longrightarrow> supervisor w = Sup_Token \<Longrightarrow>
     su_token su (houston_state (shared_of w)) = (h, r) \<Longrightarrow>
     program_step su w ((with_shared (\<lambda>i. i\<lparr>houston_state := h\<rparr>) w)
       \<lparr>supervisor := (case r of Inl err \<Rightarrow> Sup_Check | Inr t \<Rightarrow> Sup_Run)\<rparr>)"
| not_subscribed: "main_at w = Main_Serving \<Longrightarrow> supervisor w = Sup_Run \<Longrightarrow>
     program_step su w (w\<lparr>supervisor := Sup_Check\<rparr>)"
| subscribed: "main_at w = Main_Serving \<Longrightarrow> supervisor w = Sup_Run \<Longrightarrow>
     program_step su w (w\<lparr>supervisor := Sup_Running,
       consumer_state := (consumer_state w)\<lparr>subscription := [co_Topic (co_options (consumer_state w))]\<rparr>\<rparr>)"
| message_comes: "main_at w = Main_Serving \<Longrightarrow> supervisor w = Sup_Running \<Longrightarrow>
     \<not> consumer_closed (consumer_state w) \<Longrightarrow> call_at w = No_Call \<Longrightarrow> su_decode su message = Inr dat \<Longrightarrow>
     lock_step (Lookup 0 (AppId dat)) (locks_of w) = Some L \<Longrightarrow>
     program_step su w (locks_to L (w\<lparr>call_at := Looking_Up message key dat\<rparr>))"
| lookup_returns: "main_at w = Main_Serving \<Longrightarrow> call_at w = Looking_Up message key dat \<Longrightarrow>
     reads_out (pcs (locks_of w) ! 0) \<Longrightarrow> lock_step (Go 0) (locks_of w) = Some L \<Longrightarrow>
     program_step su w
       (locks_to L (w\<lparr>call_at := looked_up message key dat (cells (locks_of w) (AppId dat))\<rparr>))"
| houston_answers: "main_at w = Main_Serving \<Longrightarrow> call_at w = Missed message key dat \<Longrightarrow>
     su_houston su (houston_state (shared_of w)) (AppId dat) = (h, Inr v) \<Longrightarrow>
     lock_step (Update 0 (AppId dat) v) (locks_of w) = Some L \<Longrightarrow>
     program_step su w (locks_to L ((with_shared (\<lambda>i. (miss_counted (AppId dat) i)\<lparr>houston_state := h\<rparr>) w)
       \<lparr>call_at := Storing message key\<rparr>))"
| houston_fails: "main_at w = Main_Serving \<Longrightarrow> call_at w = Missed message key dat \<Longrightarrow>
     su_houston su (houston_state (shared_of w)) (AppId dat) = (h, Inl err) \<Longrightarrow>
     program_step su w ((with_shared (\<lambda>i. (miss_counted (AppId dat) i)\<lparr>houston_state := h\<rparr>) w)
       \<lparr>call_at := Answered message key (Inl (not_updated err))\<rparr>)"
| update_returns: "main_at w = Main_Serving \<Longrightarrow> call_at w = Storing message key \<Longrightarrow>
     pcs (locks_of w) ! 0 = Idle \<Longrightarrow>
     program_step su w (w\<lparr>call_at := Answered message key (Inr None)\<rparr>)"
| consumes: "main_at w = Main_Serving \<Longrightarrow> supervisor w = Sup_Running \<Longrightarrow>
     \<not> consumer_closed (consumer_state w) \<Longrightarrow> due su (call_at w) ev r \<Longrightarrow> legal_order order \<Longrightarrow>
     consume_step su order sched r ev w = Returned (c, True) \<Longrightarrow>
     program_step su w (w\<lparr>consumer_state := c, call_at := No_Call\<rparr>)"
| consumer_stops: "main_at w = Main_Serving \<Longrightarrow> supervisor w = Sup_Running \<Longrightarrow> stop_closed w \<Longrightarrow>
     call_at w = No_Call \<Longrightarrow> consume_step su order sched r Shutdown_Signal w = Returned (c, False) \<Longrightarrow>
     program_step su w (w\<lparr>consumer_state := consumer_Close c, supervisor := Sup_Check\<rparr>)"
| consume_panics: "main_at w = Main_Serving \<Longrightarrow> supervisor w = Sup_Running \<Longrightarrow>
     \<not> consumer_closed (consumer_state w) \<Longrightarrow> due su (call_at w) ev r \<Longrightarrow> legal_order order \<Longrightarrow>
     consume_step su order sched r ev w = Panicked m \<Longrightarrow>
     program_step su w (w\<lparr>main_at := Main_Crashed m\<rparr>)"
| cache_goes_on: "main_at w = Main_Serving \<Longrightarrow> \<not> (t = 0 \<and> reads_out (pcs (locks_of w) ! 0)) \<Longrightarrow>
     lock_step (Go t) (locks_of w) = Some L \<Longrightarrow>
     program_step su w (locks_to L w)"
| cache_expires: "main_at w = Main_Serving \<Longrightarrow> ttl_armed w \<Longrightarrow>
     lock_step Reset_Cache (locks_of w) = Some L \<Longrightarrow>
     program_step su w ((locks_to L w)\<lparr>ttl_armed := False\<rparr>)"
| event_comes: "main_at w = Main_Serving \<Longrightarrow> su_sse su \<Longrightarrow> 0 < t \<Longrightarrow> t < length (pcs (locks_of w)) \<Longrightarrow>
     pcs (locks_of w) ! t = Idle \<Longrightarrow> asking w t = None \<Longrightarrow> su_event_app su data = Inr app \<Longrightarrow>
     program_step su w ((with_shared (event_counted app) w)\<lparr>asking := (asking w)(t \<mapsto> app)\<rparr>)"
| event_answered: "main_at w = Main_Serving \<Longrightarrow> asking w t = Some app \<Longrightarrow>
     su_houston su (houston_state (shared_of w)) app = (h, Inr v) \<Longrightarrow>
     lock_step (Update t app v) (locks_of w) = Some L \<Longrightarrow>
     program_step su w (locks_to L ((with_shared (\<lambda>i. i\<lparr>houston_state := h\<rparr>) w)
       \<lparr>asking := (asking w)(t := None)\<rparr>))"
| event_fails: "main_at w = Main_Serving \<Longrightarrow> asking w t = Some app \<Longrightarrow>
     su_houston su (houston_state (shared_of w)) app = (h, Inl err) \<Longrightarrow>
     program_step su w ((with_shared (\<lambda>i. i\<lparr>houston_state := h\<rparr>) w)\<lparr>asking := (asking w)(t := None)\<rparr>)"
| stream_token: "main_at w = Main_Serving \<Longrightarrow> su_sse su \<Longrightarrow>
     su_token su (houston_state (shared_of w)) = (h, r) \<Longrightarrow>
     program_step su w (with_shared (\<lambda>i. i\<lparr>houston_state := h\<rparr>) w)"
| stream_breaks: "main_at w = Main_Serving \<Longrightarrow> su_sse su \<Longrightarrow> reader stream ending = Panicked m \<Longrightarrow>
     program_step su w (w\<lparr>main_at := Reader_Crashed m\<rparr>)"
| web_asked: "main_at w = Main_Serving \<Longrightarrow> su_web su \<Longrightarrow> 0 < t \<Longrightarrow> asking w t = None \<Longrightarrow>
     lock_step (Web_Request t) (locks_of w) = Some L \<Longrightarrow>
     program_step su w (locks_to L w)"
| handles: "main_at w = Main_Serving \<Longrightarrow> events_at w = Looping \<Longrightarrow> reported ev \<Longrightarrow>
     (ev = Shutdown_Closed \<longrightarrow> stop_closed w) \<Longrightarrow>
     handle_step su flushed ev w = Returned (p, status) \<Longrightarrow>
     program_step su w ((with_producer (\<lambda>_. p) w)\<lparr>events_at := status\<rparr>)"
| handle_panics: "main_at w = Main_Serving \<Longrightarrow> events_at w = Looping \<Longrightarrow> reported ev \<Longrightarrow>
     (ev = Shutdown_Closed \<longrightarrow> stop_closed w) \<Longrightarrow>
     handle_step su flushed ev w = Panicked m \<Longrightarrow>
     program_step su w (w\<lparr>main_at := Main_Crashed m\<rparr>)"
| channel_taken: "main_at w = Main_Serving \<Longrightarrow>
     program_step su w (with_producer (take_one (su_config su)) w)"
| queue_flushed: "main_at w = Main_Serving \<Longrightarrow> queue_running w \<Longrightarrow> flush_armed w \<Longrightarrow>
     deadletter (producer_of w) = Some d \<Longrightarrow> flush_branch (su_clock su) (su_send su) d d' \<Longrightarrow>
     program_step su w ((with_producer (\<lambda>p. p\<lparr>deadletter := Some d'\<rparr>) w)\<lparr>flush_armed := False\<rparr>)"
| queue_closed: "main_at w = Main_Serving \<Longrightarrow> queue_running w \<Longrightarrow> stop_closed w \<Longrightarrow>
     deadletter (producer_of w) = Some d \<Longrightarrow> close_branch (su_clock su) (su_send su) d d' \<Longrightarrow>
     program_step su w ((with_producer (\<lambda>p. p\<lparr>deadletter := Some d'\<rparr>) w)\<lparr>queue_running := False\<rparr>)"
| server_returns: "main_at w = Main_Serving \<Longrightarrow> stop_closed w \<Longrightarrow>
     program_step su w (w\<lparr>main_at := Main_Returned\<rparr>)"

inductive program_reach ::
    "('h, 'w, 'x) wiring \<Rightarrow> ('h, 'w, 'x) program \<Rightarrow> ('h, 'w, 'x) program \<Rightarrow> bool" for su w\<^sub>0 where
  program_begins: "program_reach su w\<^sub>0 w\<^sub>0"
| program_goes_on: "program_reach su w\<^sub>0 w \<Longrightarrow> program_step su w w' \<Longrightarrow> program_reach su w\<^sub>0 w'"

section \<open>What a step leaves alone\<close>

lemma send_channel_deadletter:
  "send_channel cfg m p = Returned p' \<Longrightarrow> deadletter p' = deadletter p"
  by (auto simp: send_channel_def Let_def split: if_splits)

lemma record_sent_deadletter:
  "record_sent cfg driver dat i p = Returned p' \<Longrightarrow> deadletter p' = deadletter p"
  by (auto simp: record_sent_def split: if_splits option.splits prod.splits)

lemma route_deadletter:
  "route cfg driver dat message key addr es p = Returned p' \<Longrightarrow> deadletter p' = deadletter p"
proof (induction es arbitrary: p)
  case Nil
  then show ?case by simp
next
  case (Cons e es)
  obtain n t where e: "e = (n, t)" by fastforce
  let ?p = "p\<lparr>loop_vars := (loop_vars p)[addr := t]\<rparr>"
  from Cons.prems obtain p1 p2 where
    "send_channel cfg \<lparr>km_topic = Loop_Var addr, km_key = key, km_value = message\<rparr> ?p = Returned p1"
    "record_sent cfg driver dat t (counted (AppId dat) t message p1) = Returned p2"
    "route cfg driver dat message key addr es p2 = Returned p'"
    by (auto simp: e outcome_simps count_routed_eq Let_def)
  with Cons.IH [of p2] show ?case
    by (auto dest!: send_channel_deadletter record_sent_deadletter)
qed

lemma HandleMessage_deadletter:
  assumes "HandleMessage cfg driver decode ints_get order p message key = Returned (p', err)"
  shows "deadletter p' = deadletter p"
proof (cases "decode message")
  case (Inl e)
  with assms show ?thesis by (simp add: HandleMessage_def)
next
  case (Inr dat)
  with assms obtain i r where get: "ints_get (ints p) (AppId dat) = Returned (i, r)"
    by (cases "ints_get (ints p) (AppId dat)") (auto simp: HandleMessage_def outcome_simps)
  show ?thesis
  proof (cases r)
    case (Inl e)
    with assms Inr get show ?thesis
      by (auto simp: HandleMessage_def outcome_simps dest!: send_channel_deadletter)
  next
    case r: (Inr m)
    show ?thesis
    proof (cases "case m of None \<Rightarrow> True | Some m \<Rightarrow> dom m = {}")
      case True
      with assms Inr get r show ?thesis by (auto simp: HandleMessage_def outcome_simps)
    next
      case False
      with assms Inr get r show ?thesis
        by (auto simp: HandleMessage_def outcome_simps Let_def dest!: route_deadletter)
    qed
  qed
qed

lemma producer_wf_schedule [simp]:
  "producer_wf ints_inv cfg (p\<lparr>schedule := sched\<rparr>) = producer_wf ints_inv cfg p"
  by (simp add: producer_wf_def ref_allocated_def cong: topic_ref.case_cong)

lemma producer_wf_deadletter [simp]:
  "producer_wf ints_inv cfg (p\<lparr>deadletter := d\<rparr>) = producer_wf ints_inv cfg p"
  by (simp add: producer_wf_def ref_allocated_def cong: topic_ref.case_cong)

lemma producer_wf_ints:
  "producer_wf ints_inv cfg p \<Longrightarrow> ints_inv i \<Longrightarrow> producer_wf ints_inv cfg (p\<lparr>ints := i\<rparr>)"
  by (simp add: producer_wf_def ref_allocated_def cong: topic_ref.case_cong)

lemma producer_wf_take_one:
  assumes "producer_wf ints_inv cfg p"
  shows "producer_wf ints_inv cfg (take_one cfg' p)"
proof -
  have "set (channel (take_one cfg' p)) \<subseteq> set (channel p)"
    by (auto simp: take_one_def Let_def split: list.splits)
  with assms show ?thesis
    by (auto simp: producer_wf_def ref_allocated_def split: topic_ref.splits)
qed

lemma producer_wf_failure [simp]:
  "producer_wf ints_inv cfg (failure_counted a t p) = producer_wf ints_inv cfg p"
  by (simp add: failure_counted_def)

text \<open>A turn of the event handler before the shutdown.\<close>

lemma handle_event_before_stop:
  assumes "producer_wf ints_inv cfg p" "retry \<longrightarrow> deadletter p \<noteq> None" "reported ev" "ev \<noteq> Shutdown_Closed"
  shows "\<exists>p' status. handle_event cfg driver decode retry (\<lambda>d qo. AddToQueue clock send qo d) flushed ev p =
      Returned (p', status) \<and> status \<noteq> Loop_Ended \<and> producer_wf ints_inv cfg p'
      \<and> (retry \<longrightarrow> deadletter p' \<noteq> None)"
proof (cases ev)
  case (Delivery_Report err topic v)
  show ?thesis
  proof (cases err)
    case None
    with assms Delivery_Report show ?thesis by simp
  next
    case (Some e)
    show ?thesis
    proof (cases "decode v")
      case (Inl e')
      with assms Some Delivery_Report show ?thesis by (simp add: handle_event_undecodable)
    next
      case (Inr dat)
      from assms(3) Delivery_Report obtain addr t where topic: "topic = Some (addr, t)"
        by (cases topic) (auto simp: reported_def)
      show ?thesis
      proof (cases retry)
        case False
        with assms(1) Some Delivery_Report Inr topic show ?thesis by (simp add: handle_event_failed)
      next
        case True
        with assms(2) obtain d where "deadletter p = Some d" by auto
        moreover obtain d' err' where
          "AddToQueue clock send \<lparr>qo_Data = v, qo_Key = deadletter_key (AppId dat) topic\<rparr> d = Returned (d', err')"
          using deadletters.dl_add_total by blast
        ultimately show ?thesis
          using True assms(1) Some Delivery_Report Inr topic
          by (simp add: handle_event_failed add_failed_def)
      qed
    qed
  qed
qed (use assms in \<open>auto simp: reported_def\<close>)

section \<open>Before the shutdown\<close>

text \<open>
  What holds until the shutdown channel is closed: nothing has panicked or returned, the consumer and
  the producer are open, and the retry setting has a dead letter queue behind it. The only ends are
  those of \<open>allowed_end\<close>: a fault of the cache that has a reset or another goroutine behind it, and a
  panic of the reader of the event stream.
\<close>

definition alone :: "('h, 'w, 'x) wiring \<Rightarrow> bool" where
  "alone su \<longleftrightarrow> \<not> su_sse su \<and> \<not> su_web su"

definition allowed_end :: "('h, 'w, 'x) wiring \<Rightarrow> bool \<Rightarrow> main_pc \<Rightarrow> bool" where
  "allowed_end su ttl m \<longleftrightarrow>
     (case m of
        Main_Serving \<Rightarrow> True
      | Reader_Crashed e \<Rightarrow> su_sse su
      | Main_Faulted f \<Rightarrow> if f = Concurrent_Map_Access then \<not> alone su else ttl
      | _ \<Rightarrow> False)"

definition call_ok :: "call \<Rightarrow> bool" where
  "call_ok c \<longleftrightarrow> (\<forall>message key r. c = Answered message key r \<longrightarrow> answer_ok r)"

definition running :: "('h \<Rightarrow> bool) \<Rightarrow> ('h, 'w, 'x) wiring \<Rightarrow> bool \<Rightarrow> ('h, 'w, 'x) program \<Rightarrow> bool" where
  "running houston_inv su ttl w \<longleftrightarrow>
     allowed_end su ttl (main_at w) \<and> \<not> stop_flag w \<and> events_at w \<noteq> Loop_Ended
     \<and> \<not> consumer_closed (consumer_state w) \<and> (ttl_armed w \<longrightarrow> ttl) \<and> call_ok (call_at w)
     \<and> (asking w \<noteq> Map.empty \<longrightarrow> su_sse su)
     \<and> producer_wf (shared_ok houston_inv (alone su) (\<not> ttl)) (su_config su) (producer_of w)
     \<and> (su_retry su \<longrightarrow> deadletter (producer_of w) \<noteq> None)"

lemma with_producer_simps [simp]:
  "producer_of (with_producer f w) = f (producer_of w)"
  "consumer_closed (consumer_state (with_producer f w)) = consumer_closed (consumer_state w)"
  "main_at (with_producer f w) = main_at w" "stop_flag (with_producer f w) = stop_flag w"
  "stop_closed (with_producer f w) = stop_closed w" "events_at (with_producer f w) = events_at w"
  "supervisor (with_producer f w) = supervisor w" "call_at (with_producer f w) = call_at w"
  "asking (with_producer f w) = asking w" "ttl_armed (with_producer f w) = ttl_armed w"
  by (simp_all add: with_producer_def)

lemma with_shared_simps [simp]:
  "producer_of (with_shared f w) = (producer_of w)\<lparr>ints := f (shared_of w)\<rparr>"
  "consumer_closed (consumer_state (with_shared f w)) = consumer_closed (consumer_state w)"
  "main_at (with_shared f w) = main_at w" "stop_flag (with_shared f w) = stop_flag w"
  "stop_closed (with_shared f w) = stop_closed w" "events_at (with_shared f w) = events_at w"
  "supervisor (with_shared f w) = supervisor w" "call_at (with_shared f w) = call_at w"
  "asking (with_shared f w) = asking w" "ttl_armed (with_shared f w) = ttl_armed w"
  by (simp_all add: with_shared_def)

lemma locks_to_simps [simp]:
  "producer_of (locks_to L w) = (producer_of w)\<lparr>ints := (shared_of w)\<lparr>cache_locks := L\<rparr>\<rparr>"
  "consumer_closed (consumer_state (locks_to L w)) = consumer_closed (consumer_state w)"
  "main_at (locks_to L w) = (case fault_seen L of None \<Rightarrow> main_at w | Some f \<Rightarrow> Main_Faulted f)"
  "stop_flag (locks_to L w) = stop_flag w" "stop_closed (locks_to L w) = stop_closed w"
  "events_at (locks_to L w) = events_at w" "supervisor (locks_to L w) = supervisor w"
  "call_at (locks_to L w) = call_at w" "asking (locks_to L w) = asking w" "ttl_armed (locks_to L w) = ttl_armed w"
  by (simp_all add: locks_to_def)

lemma running_with:
  assumes "running houston_inv su ttl w"
    and "producer_wf (shared_ok houston_inv (alone su) (\<not> ttl)) (su_config su) (f (producer_of w))"
    and "su_retry su \<longrightarrow> deadletter (f (producer_of w)) \<noteq> None"
  shows "running houston_inv su ttl (with_producer f w)"
  using assms by (simp add: running_def)

lemma running_ok: "running houston_inv su ttl w \<Longrightarrow> shared_ok houston_inv (alone su) (\<not> ttl) (shared_of w)"
  by (simp add: running_def producer_wf_def)

lemma running_shared:
  assumes "running houston_inv su ttl w"
    and "shared_ok houston_inv (alone su) (\<not> ttl) (f (shared_of w))"
  shows "running houston_inv su ttl (with_shared f w)"
  unfolding with_shared_def
  by (rule running_with [OF assms(1)]) (use assms in \<open>simp_all add: running_def producer_wf_ints\<close>)

lemma running_houston: "running houston_inv su ttl w \<Longrightarrow> houston_inv (houston_state (shared_of w))"
  using running_ok [of houston_inv su ttl w] by (simp add: shared_ok_def)

lemma running_locks:
  assumes "running houston_inv su ttl w" "lock_step act (locks_of w) = Some L"
    and "list_all good_pointer (offered act)" "alone su \<longrightarrow> of_consumer act" "\<not> ttl \<longrightarrow> act \<noteq> Reset_Cache"
  shows "running houston_inv su ttl (locks_to L w)"
proof -
  note step = shared_ok_step [OF running_ok [OF assms(1)] assms(2-5)]
    shared_ok_fault [OF running_ok [OF assms(1)] assms(2,4,5)]
  have "running houston_inv su ttl (with_shared (\<lambda>i. i\<lparr>cache_locks := L\<rparr>) w)"
    using assms(1) step(1) by (rule running_shared)
  moreover have "allowed_end su ttl (case fault_seen L of None \<Rightarrow> main_at w | Some f \<Rightarrow> Main_Faulted f)"
    using assms(1) step(2) by (cases "fault_seen L") (auto simp: running_def allowed_end_def split: if_splits)
  ultimately show ?thesis by (simp add: running_def locks_to_def)
qed

lemma running_call [simp]:
  "call_ok c \<Longrightarrow> running houston_inv su ttl w \<Longrightarrow> running houston_inv su ttl (w\<lparr>call_at := c\<rparr>)"
  by (simp add: running_def)

lemma call_ok_simps [simp]:
  "call_ok No_Call" "call_ok (Looking_Up message key dat)" "call_ok (Missed message key dat)"
  "call_ok (Storing message key)" "call_ok (Answered message key r) = answer_ok r"
  "answer_ok (Inl err)" "answer_ok (Inr None)" "answer_ok (Inr (Some m)) = finite (dom m)"
  by (simp_all add: call_ok_def answer_ok_def)

text \<open>The rest of a call before the shutdown, with or without an error.\<close>

lemma consume_before_stop:
  assumes "running houston_inv su ttl w" "due su (call_at w) ev r"
  shows "\<exists>c. consume_step su order sched r ev w = Returned (c, True)
    \<and> consumer_closed c = consumer_closed (consumer_state w)
    \<and> producer_wf (shared_ok houston_inv (alone su) (\<not> ttl)) (su_config su) (handler_state c)
    \<and> deadletter (handler_state c) = deadletter (producer_of w)"
proof -
  let ?handle = "HandleMessage (su_config su) (su_driver su) (su_decode su) (\<lambda>i a. Returned (i, r)) order"
  let ?c = "consumer_state (with_producer (\<lambda>p. p\<lparr>schedule := sched\<rparr>) w)"
  let ?wf = "producer_wf (shared_ok houston_inv (alone su) (\<not> ttl)) (su_config su)"
  have wf: "?wf (handler_state ?c)"
    using assms(1) by (simp add: running_def)
  show ?thesis
  proof (cases "messages_of [ev] = []")
    case True
    have "ev \<noteq> Shutdown_Signal" using assms(2) by (auto simp: due_def split: call.splits)
    from consume_no_message [OF this True, of ?handle ?c] obtain ps
      where "consume ?handle ev ?c = Returned (?c\<lparr>assigned := ps\<rparr>, True)" by blast
    with wf show ?thesis by (simp add: consume_step_def)
  next
    case False
    then obtain message key where ev: "ev = Kafka_Message message key" by (cases ev) auto
    have "\<exists>p' err. ?handle (handler_state ?c) message key = Returned (p', err) \<and> ?wf p'"
    proof (cases "su_decode su message")
      case (Inl err)
      with wf show ?thesis by (simp add: handle_undecodable)
    next
      case (Inr dat)
      with assms(2) ev have "call_at w = Answered message key r"
        by (auto simp: due_def looks_up_def split: call.splits)
      with assms(1) have "answer_ok r" by (simp add: running_def)
      from integrations_api.producer_handles [OF answered_api [OF this] wf] show ?thesis .
    qed
    then obtain p' err where call: "?handle (handler_state ?c) message key = Returned (p', err)" and "?wf p'"
      by blast
    moreover have "deadletter p' = deadletter (producer_of w)"
      using HandleMessage_deadletter [OF call] by simp
    ultimately show ?thesis
      using ev consume_message [where handle = ?handle and c = ?c, OF call] by (simp add: consume_step_def)
  qed
qed

lemma handle_before_stop:
  assumes "running houston_inv su ttl w" "reported ev" "ev \<noteq> Shutdown_Closed"
  shows "\<exists>p status. handle_step su flushed ev w = Returned (p, status) \<and> status \<noteq> Loop_Ended
    \<and> producer_wf (shared_ok houston_inv (alone su) (\<not> ttl)) (su_config su) p
    \<and> (su_retry su \<longrightarrow> deadletter p \<noteq> None)"
  unfolding handle_step_def
  by (rule handle_event_before_stop) (use assms in \<open>auto simp: running_def\<close>)

lemma looked_up_ok: "stores good_pointer L \<Longrightarrow> call_ok (looked_up message key dat (cells L a))"
  by (cases "cells L a") (auto simp: looked_up_def stores_def good_pointer_def split: option.splits)

context houston_api
begin

lemma answer_good: "houston_inv h \<Longrightarrow> houston_get h a = (h', Inr v) \<Longrightarrow> good_pointer v \<and> houston_inv h'"
  using houston_get_pointer houston_get_inv unfolding good_pointer_def by blast

lemma running_step:
  assumes "program_step su w w'" "running houston_inv su ttl w" "\<not> stop_closed w"
    and "su_houston su = houston_get" "su_token su = houston_token"
  shows "stop_closed w' \<or> running houston_inv su ttl w'"
  using assms(1)
proof (cases rule: program_step.cases)
  case (token_asked h r)
  have "houston_inv h"
    using token_asked(4) running_houston [OF assms(2)] assms(5) by (auto intro: houston_token_inv)
  then have "running houston_inv su ttl (with_shared (\<lambda>i. i\<lparr>houston_state := h\<rparr>) w)"
    using assms(2) by (intro running_shared shared_ok_houston running_ok)
  with token_asked(1) show ?thesis by (simp add: running_def)
next
  case (message_comes message dat L key)
  then show ?thesis
    using assms(2) by (auto intro!: running_locks [where act = "Lookup 0 (AppId dat)"])
next
  case (lookup_returns message key dat L)
  have "stores good_pointer (locks_of w)" using running_ok [OF assms(2)] by (simp add: shared_ok_def)
  then have "call_ok (looked_up message key dat (cells (locks_of w) (AppId dat)))" by (rule looked_up_ok)
  with lookup_returns assms(2) show ?thesis by (auto intro!: running_locks [where act = "Go 0"])
next
  case (houston_answers message key dat h v L)
  let ?u = "(with_shared (\<lambda>i. (miss_counted (AppId dat) i)\<lparr>houston_state := h\<rparr>) w)\<lparr>call_at := Storing message key\<rparr>"
  have "good_pointer v" "houston_inv h"
    using answer_good [OF running_houston [OF assms(2)]] houston_answers(4) assms(4) by auto
  moreover from this have "running houston_inv su ttl ?u"
    using running_ok [OF assms(2)] assms(2)
    by (intro running_call running_shared shared_ok_houston) (simp_all add: miss_counted_def)
  ultimately show ?thesis
    using houston_answers by (auto intro!: running_locks [where act = "Update 0 (AppId dat) v"] simp: miss_counted_def)
next
  case (houston_fails message key dat h err)
  have "houston_inv h"
    using houston_get_inv [OF running_houston [OF assms(2)]] houston_fails(4) assms(4) by auto
  then have "running houston_inv su ttl
      ((with_shared (\<lambda>i. (miss_counted (AppId dat) i)\<lparr>houston_state := h\<rparr>) w)
        \<lparr>call_at := Answered message key (Inl (not_updated err))\<rparr>)"
    using running_ok [OF assms(2)] assms(2)
    by (intro running_call running_shared shared_ok_houston) (simp_all add: miss_counted_def)
  with houston_fails(1) show ?thesis by simp
next
  case (update_returns message key)
  with assms(2) show ?thesis by simp
next
  case (consumes ev r order sched c)
  from consume_before_stop [OF assms(2) consumes(5), of order sched] consumes(7)
  show ?thesis using assms(2) by (auto simp: running_def consumes(1))
next
  case (consume_panics ev r order sched m)
  from consume_before_stop [OF assms(2) consume_panics(5), of order sched] consume_panics(7)
  show ?thesis by auto
next
  case (cache_goes_on t L)
  with assms(2) show ?thesis by (auto intro!: running_locks [where act = "Go t"])
next
  case (cache_expires L)
  have "running houston_inv su ttl (locks_to L w)"
    using assms(2) cache_expires(3) by (intro running_locks [OF _ cache_expires(4)]) (auto simp: running_def)
  with cache_expires(1) show ?thesis by (simp add: running_def)
next
  case (event_comes t data app)
  have "running houston_inv su ttl (with_shared (event_counted app) w)"
    using assms(2) by (intro running_shared) (simp_all add: event_counted_def running_ok)
  with event_comes(1,3) show ?thesis by (simp add: running_def)
next
  case (event_answered t app h v L)
  have sse: "su_sse su" using assms(2) event_answered(3) by (auto simp: running_def)
  have "good_pointer v" "houston_inv h"
    using answer_good [OF running_houston [OF assms(2)]] event_answered(4) assms(4) by auto
  moreover from this have "running houston_inv su ttl (with_shared (\<lambda>i. i\<lparr>houston_state := h\<rparr>) w)"
    using assms(2) by (intro running_shared shared_ok_houston running_ok)
  then have "running houston_inv su ttl
      ((with_shared (\<lambda>i. i\<lparr>houston_state := h\<rparr>) w)\<lparr>asking := (asking w)(t := None)\<rparr>)"
    using sse by (simp add: running_def)
  ultimately show ?thesis
    using event_answered sse by (auto intro!: running_locks [where act = "Update t app v"] simp: alone_def)
next
  case (event_fails t app h err)
  have "houston_inv h"
    using houston_get_inv [OF running_houston [OF assms(2)]] event_fails(4) assms(4) by auto
  then have "running houston_inv su ttl (with_shared (\<lambda>i. i\<lparr>houston_state := h\<rparr>) w)"
    using assms(2) by (intro running_shared shared_ok_houston running_ok)
  with event_fails(1,3) show ?thesis by (auto simp: running_def)
next
  case (stream_token h r)
  have "houston_inv h"
    using stream_token(4) running_houston [OF assms(2)] assms(5) by (auto intro: houston_token_inv)
  then have "running houston_inv su ttl (with_shared (\<lambda>i. i\<lparr>houston_state := h\<rparr>) w)"
    using assms(2) by (intro running_shared shared_ok_houston running_ok)
  with stream_token(1) show ?thesis by simp
next
  case (web_asked t L)
  with assms(2) show ?thesis by (auto intro!: running_locks [where act = "Web_Request t"] simp: alone_def)
next
  case (handles ev flushed p status)
  from handle_before_stop [OF assms(2) handles(4), of flushed] handles assms(3)
  have p: "producer_wf (shared_ok houston_inv (alone su) (\<not> ttl)) (su_config su) p" "status \<noteq> Loop_Ended"
    "su_retry su \<longrightarrow> deadletter p \<noteq> None" by auto
  then have "running houston_inv su ttl (with_producer (\<lambda>_. p) w)"
    using assms(2) by (intro running_with) simp_all
  with handles(1) p(2) show ?thesis by (simp add: running_def)
next
  case (handle_panics ev flushed m)
  from handle_before_stop [OF assms(2) handle_panics(4), of flushed] handle_panics assms(3)
  show ?thesis by auto
next
  case channel_taken
  then show ?thesis
    using assms(2) by (auto simp: running_def intro!: running_with producer_wf_take_one)
next
  case (queue_flushed d d')
  have "running houston_inv su ttl (with_producer (\<lambda>p. p\<lparr>deadletter := Some d'\<rparr>) w)"
    using assms(2) by (intro running_with) (simp_all add: running_def)
  with queue_flushed(1) show ?thesis by (simp add: running_def)
qed (use assms(2,3) in \<open>auto simp: running_def allowed_end_def\<close>)

end

lemma running_start:
  assumes "houston_inv h" "cassandra_ready (su_config su)" "su_retry su \<longrightarrow> d \<noteq> None"
  shows "running houston_inv su ttl (program_start opts h d w ttl n)"
  using assms
  by (simp add: running_def program_start_def program_of_def Let_def new_consumer_def new_producer_def
      producer_wf_def shared_ok_start allowed_end_def)

lemma stop_closed_stays: "program_step su w w' \<Longrightarrow> stop_closed w \<Longrightarrow> stop_closed w'"
  by (induction rule: program_step.induct) auto

context houston_api
begin

lemma running_reach:
  assumes "program_reach su (program_start opts h d c ttl n) w"
    and "su_houston su = houston_get" "su_token su = houston_token" "houston_inv h"
    and "cassandra_ready (su_config su)" "su_retry su \<longrightarrow> d \<noteq> None"
  shows "stop_closed w \<or> running houston_inv su ttl w"
  using assms(1)
proof (induction rule: program_reach.induct)
  case program_begins
  show ?case using running_start [where su = su and d = d and houston_inv = houston_inv, OF assms(4-6)] by blast
next
  case (program_goes_on w w')
  from running_step [OF program_goes_on.hyps(2) _ _ assms(2,3)] program_goes_on.IH
    stop_closed_stays [OF program_goes_on.hyps(2)]
  show ?case by blast
qed

end

section \<open>The wiring of start\<close>

text \<open>
  What the program meets outside, with what may fail when it starts: the creation of a file, the
  profiler and the tracer, an AWS session and the two clients of Kafka. What \<open>start\<close> makes over it, in
  the order of the code; an error ends the program, and so does a panic of \<open>Serve\<close>. The constructor of
  the SSE client never fails. The Houston client reads the configuration. \<open>out_others\<close> is the number of
  goroutines that may work on the cache beside the consumer.
\<close>

record ('u, 'w, 'x) outside =
  out_getenv :: "string \<Rightarrow> string"
  out_houston :: "'u houston_env"
  out_driver :: "'w cql_driver"
  out_event_app :: "bytes \<Rightarrow> string result"
  out_clock :: "'x \<Rightarrow> int"
  out_create :: "string \<Rightarrow> go_error option"
  out_profile :: "go_error option"
  out_trace :: "go_error option"
  out_session :: "go_error option"
  out_upload :: "'x uploader"
  out_producer :: "(string \<times> conf_value) list \<Rightarrow> go_error option"
  out_consumer :: "(string \<times> conf_value) list \<Rightarrow> go_error option"
  out_network :: 'u
  out_others :: nat
  out_cassandra :: 'w
  out_storage :: 'x

definition start_houston :: "('u, 'w, 'x) outside \<Rightarrow> config_state \<Rightarrow> 'u houston_env" where
  "start_houston out st = (out_houston out)\<lparr>cfg_string := GetString (out_getenv out) st\<rparr>"

definition open_output ::
    "(string \<Rightarrow> go_error option) \<Rightarrow> go_error option \<Rightarrow> string \<Rightarrow> string \<Rightarrow> go_error option" where
  "open_output create begun path file =
     (if length path = 0 then None
      else
        (let path = (if path ! (length path - 1) = CHR ''/'' then take (length path - 1) path else path)
         in case create (path @ file) of Some err \<Rightarrow> Some err | None \<Rightarrow> begun))"

definition start_outputs :: "('u, 'w, 'x) outside \<Rightarrow> vars \<Rightarrow> go_error option" where
  "start_outputs out vs =
     (case open_output (out_create out) (out_profile out) (text_of (vs ''StartProfile'')) ''/cpuprofile.pprof'' of
        Some err \<Rightarrow> Some err
      | None \<Rightarrow> open_output (out_create out) (out_trace out) (text_of (vs ''StartTrace'')) ''/event-router.trace'')"

definition start_wiring ::
    "('u, 'w, 'x) outside \<Rightarrow> vars \<Rightarrow> config_state \<Rightarrow> (houston_client \<times> 'u, 'w, 'x) wiring" where
  "start_wiring out vs st =
     (let st = start_settings vs st
      in \<lparr>su_config = start_producer_config (out_getenv out) st, su_driver = out_driver out,
          su_decode = json_decode, su_event_app = out_event_app out,
          su_houston = Client_GetIntegrations (start_houston out st),
          su_token = GetAuthorizationToken (start_houston out st),
          su_retry = GetBool (out_getenv out) st ''RETRY'',
          su_sse = (\<not> on vs ''DisableSSE''), su_web = True, su_clock = out_clock out,
          su_send = SendToS3 (out_upload out)\<rparr>)"

definition start_options :: "(string \<Rightarrow> string) \<Rightarrow> config_state \<Rightarrow> consumer_options" where
  "start_options getenv st =
     \<lparr>co_BootstrapServers = GetString getenv st ''KAFKA_BROKERS'',
      co_GroupID = GetString getenv st ''KAFKA_GROUP_ID'',
      co_Topic = GetString getenv st ''KAFKA_INGESTION_TOPIC''\<rparr>"

definition start_queue :: "('u, 'w, 'x) outside \<Rightarrow> vars \<Rightarrow> config_state \<Rightarrow> 'x dlq option result" where
  "start_queue out vs st =
     (case start_deadletter vs (out_getenv out) st of
        None \<Rightarrow> Inr None
      | Some cfg \<Rightarrow>
          (case s3_NewClient (case out_session out of None \<Rightarrow> Inr (out_upload out) | Some err \<Rightarrow> Inl err) of
             Inl err \<Rightarrow> Inl err
           | Inr client \<Rightarrow> Inr (Some (dlq_NewClient cfg (out_storage out)))))"

definition start_clients ::
    "('u, 'w, 'x) outside \<Rightarrow> vars \<Rightarrow> config_state \<Rightarrow>
     ((houston_client \<times> 'u) shared, 'x dlq, 'w) producer consumer result" where
  "start_clients out vs st =
     (let getenv = out_getenv out;
          h = NewHoustonClient (start_houston out st) (GetString getenv st ''HOUSTON_API_URL'')
      in case start_queue out vs st of
           Inl err \<Rightarrow> Inl err
         | Inr d \<Rightarrow>
             (case NewProducer (out_producer out) (GetBool getenv st ''KAFKA_DEBUG'')
                 (start_producer_config getenv st) (new_shared (out_others out) (h, out_network out)) d
                 (out_cassandra out) of
                Inl err \<Rightarrow> Inl err
              | Inr p \<Rightarrow> NewConsumer (out_consumer out) (start_options getenv st) p))"

definition start ::
    "('u, 'w, 'x) outside \<Rightarrow> vars \<Rightarrow> config_state \<Rightarrow>
     (houston_client \<times> 'u, 'w, 'x) program result outcome" where
  "start out vs st =
     (let st = start_settings vs st; getenv = out_getenv out;
          handlers = AppendRouteHandler Integrations_Handler (AppendRouteHandler Prom_Handler [])
      in case start_outputs out vs of
           Some err \<Rightarrow> Returned (Inl err)
         | None \<Rightarrow>
             (case start_clients out vs st of
                Inl err \<Rightarrow> Returned (Inl err)
              | Inr c \<Rightarrow>
                  and_then (Serve handlers (GetString getenv st ''SERVE_PORT'')) (\<lambda>served.
                    Returned (Inr (program_of c (\<not> GetBool getenv st ''DISABLE_CACHE_TTL''))))))"

text \<open>
  The program with the command \<open>start\<close> and its flags: cobra parses the flags, runs \<open>initConfig\<close>, and then
  the command.
\<close>

definition initConfig :: "(string \<Rightarrow> string) \<Rightarrow> vars \<Rightarrow> go_error + (config_state \<times> string list)" where
  "initConfig getenv vs = Initialize getenv (on vs ''EnableRetry'') new_config"

definition execute_start ::
    "('u, 'w, 'x) outside \<Rightarrow> (string \<times> flag_value) list \<Rightarrow>
     ((houston_client \<times> 'u, 'w, 'x) wiring \<times> (houston_client \<times> 'u, 'w, 'x) program) result outcome" where
  "execute_start out given =
     (case parse_flags (command_flags Start_Cmd) given package_init of
        None \<Rightarrow> Returned (Inl (Error_String ''invalid flag''))
      | Some vs \<Rightarrow>
          (case initConfig (out_getenv out) vs of
             Inl err \<Rightarrow> Returned (Inl err)
           | Inr (st, printed) \<Rightarrow>
               and_then (start out vs st) (\<lambda>started. Returned (
                 case started of
                   Inl err \<Rightarrow> Inl err
                 | Inr w \<Rightarrow> Inr (start_wiring out vs st, w)))))"

lemma start_made:
  assumes "start out vs st = Returned (Inr w)"
  shows "\<exists>opts h d ttl n. w = program_start opts h d (out_cassandra out) ttl n \<and> (on vs ''EnableRetry'' \<longrightarrow> d \<noteq> None)"
proof -
  let ?st = "start_settings vs st"
  obtain c where c: "start_clients out vs ?st = Inr c" and
    w: "w = program_of c (\<not> GetBool (out_getenv out) ?st ''DISABLE_CACHE_TTL'')"
    using assms
    by (cases "start_clients out vs ?st";
        cases "Serve (AppendRouteHandler Integrations_Handler (AppendRouteHandler Prom_Handler []))
          (GetString (out_getenv out) ?st ''SERVE_PORT'')")
      (auto simp: start_def Let_def split: option.splits)
  from c obtain d where d: "start_queue out vs ?st = Inr d"
    by (cases "start_queue out vs ?st") (simp_all add: start_clients_def Let_def)
  with c have "c = new_consumer (start_options (out_getenv out) ?st) (new_producer (new_shared (out_others out)
      (NewHoustonClient (start_houston out ?st) (GetString (out_getenv out) ?st ''HOUSTON_API_URL''), out_network out))
      d (out_cassandra out))"
    by (auto simp: start_clients_def NewProducer_def NewConsumer_def Let_def split: option.splits)
  moreover have "on vs ''EnableRetry'' \<longrightarrow> d \<noteq> None"
    using d by (auto simp: start_queue_def start_deadletter_def split: option.splits sum.splits)
  ultimately show ?thesis using w unfolding program_start_def by blast
qed

lemma start_returns:
  assumes "start_outputs out vs = None" "out_session out = None" "\<forall>conf. out_producer out conf = None" "\<forall>conf. out_consumer out conf = None"
    and "GetString (out_getenv out) (start_settings vs st) ''SERVE_PORT'' \<noteq> ''''"
  shows "\<exists>w. start out vs st = Returned (Inr w)"
proof -
  from assms(5) obtain c port where "GetString (out_getenv out) (start_settings vs st) ''SERVE_PORT'' = c # port"
    by (cases "GetString (out_getenv out) (start_settings vs st) ''SERVE_PORT''") simp_all
  then show ?thesis
    using assms(1-4)
    by (simp add: start_def start_clients_def start_queue_def s3_NewClient_def NewProducer_def NewConsumer_def
        Serve_def Let_def split: option.splits)
qed

lemma start_wiring_simps:
  "su_houston (start_wiring out vs st) = Client_GetIntegrations (start_houston out (start_settings vs st))"
  "su_token (start_wiring out vs st) = GetAuthorizationToken (start_houston out (start_settings vs st))"
  "su_retry (start_wiring out vs st) = on vs ''EnableRetry''"
  "cassandra_ready (su_config (start_wiring out vs st))"
  by (simp_all add: start_wiring_def start_settings_simps cassandra_ready_def start_producer_config_def
      Let_def)

lemma execute_started:
  assumes "execute_start out given = Returned (Inr (su, w))"
  shows "\<exists>vs st. su = start_wiring out vs st \<and> start out vs st = Returned (Inr w)"
proof -
  obtain vs where vs: "parse_flags (command_flags Start_Cmd) given package_init = Some vs"
    using assms by (auto simp: execute_start_def split: option.splits)
  with assms obtain st printed where st: "initConfig (out_getenv out) vs = Inr (st, printed)"
    by (auto simp: execute_start_def split: sum.splits)
  with assms vs obtain started where "start out vs st = Returned started"
    by (auto simp: execute_start_def outcome_simps)
  with assms vs st show ?thesis
    by (cases started) (auto simp: execute_start_def)
qed

lemma start_running:
  assumes "start out vs st = Returned (Inr w\<^sub>0)" "program_reach (start_wiring out vs st) w\<^sub>0 w" "\<not> stop_closed w"
  shows "running houston_wf (start_wiring out vs st) (ttl_armed w\<^sub>0) w"
proof -
  from start_made [OF assms(1)] obtain opts h d ttl n
    where w: "w\<^sub>0 = program_start opts h d (out_cassandra out) ttl n" and d: "on vs ''EnableRetry'' \<longrightarrow> d \<noteq> None" by blast
  have "stop_closed w \<or> running houston_wf (start_wiring out vs st) ttl w"
    using assms(2) unfolding w
    by (rule real_houston.running_reach) (use d in \<open>simp_all add: start_wiring_simps houston_wf_def\<close>)
  moreover have "ttl_armed w\<^sub>0 = ttl" by (simp add: w program_start_def program_of_def Let_def)
  ultimately show ?thesis using assms(3) by blast
qed

section \<open>Properties\<close>

text \<open>C1: The program that start makes, with any flags and any configuration, serves until it is told to
  stop, whatever comes from Kafka, Houston, S3, Cassandra, the event stream and the web, and in any
  interleaving of its goroutines (where a call to Houston, a turn of the event handler, a flush and an
  access to syncMap are one step each), but for three ways it can end: two accesses to the map of the
  cache at once; with the time to live on, a nil pointer or an unlock of an unlocked lock in the cache;
  and, unless the SSE client is disabled, a panic of the reader of the event stream. There is no other
  panic, the consumer and the producer stay open, and no entry of the cache is a nil pointer.\<close>

theorem program_serves_until_shutdown:
  assumes "execute_start out given = Returned (Inr (su, w\<^sub>0))" "program_reach su w\<^sub>0 w" "\<not> stop_closed w"
  shows "(main_at w = Main_Serving
      \<or> main_at w = Main_Faulted Concurrent_Map_Access
      \<or> main_at w \<in> {Main_Faulted Nil_Lock, Main_Faulted Unlock_Of_Unlocked} \<and> ttl_armed w\<^sub>0
      \<or> (\<exists>m. main_at w = Reader_Crashed m) \<and> su_sse su)
    \<and> \<not> consumer_closed (consumer_state w)
    \<and> \<not> channel_closed (producer_of w) \<and> events_at w \<noteq> Loop_Ended
    \<and> (\<forall>a. cells (locks_of w) a \<noteq> Some None)"
proof -
  have run: "running houston_wf su (ttl_armed w\<^sub>0) w"
    using execute_started [OF assms(1)] start_running assms(2,3) by blast
  moreover have "cells (locks_of w) a \<noteq> Some None" for a
    using running_ok [OF run] by (auto simp: shared_ok_def stores_def good_pointer_def)
  moreover have "allowed_end su (ttl_armed w\<^sub>0) (main_at w)" using run by (simp add: running_def)
  then have "main_at w = Main_Serving
      \<or> main_at w = Main_Faulted Concurrent_Map_Access
      \<or> main_at w \<in> {Main_Faulted Nil_Lock, Main_Faulted Unlock_Of_Unlocked} \<and> ttl_armed w\<^sub>0
      \<or> (\<exists>m. main_at w = Reader_Crashed m) \<and> su_sse su"
    by (auto simp: allowed_end_def split: main_pc.splits if_splits intro: fault.exhaust)
  ultimately show ?thesis by (simp add: running_def producer_wf_def)
qed

definition sample_outside :: "(http_request list, unit, unit) outside" where
  "sample_outside =
     \<lparr>out_getenv = retry_env, out_houston = sample_env, out_driver = sample_driver,
      out_event_app = (\<lambda>d. Inr ''m''), out_clock = (\<lambda>_. 0),
      out_create = (\<lambda>_. None), out_profile = None, out_trace = None, out_session = None,
      out_upload = sample_send, out_producer = (\<lambda>_. None), out_consumer = (\<lambda>_. None), out_network = [], out_others = 2, out_cassandra = (), out_storage = ()\<rparr>"

lemma retry_env_configured:
  obtains st out where "Initialize retry_env False new_config = Inr (st, out)"
proof -
  have "list_all (\<lambda>k. retry_env (''ER_'' @ k) \<noteq> '''') (requiredEnvs @ (if False then retryRequiredEnvs else []))"
    by (simp add: requiredEnvs_def retry_env_def)
  moreover have "retry_env ''ER_HOUSTON_API_KEY'' \<noteq> ''''" by (simp add: retry_env_def)
  ultimately show thesis using Initialize_iff [of retry_env False] that by blast
qed

lemma start_executed:
  assumes "parse_flags (command_flags Start_Cmd) given package_init = Some vs"
    and "start_outputs out vs = None" "out_session out = None" "\<forall>conf. out_producer out conf = None"
      "\<forall>conf. out_consumer out conf = None"
  shows "(\<exists>su w. execute_start out given = Returned (Inr (su, w))) \<longleftrightarrow>
    (\<exists>st printed. Initialize (out_getenv out) (on vs ''EnableRetry'') new_config = Inr (st, printed))"
proof
  assume "\<exists>su w. execute_start out given = Returned (Inr (su, w))"
  with assms(1) show "\<exists>st printed. Initialize (out_getenv out) (on vs ''EnableRetry'') new_config = Inr (st, printed)"
    by (auto simp: execute_start_def initConfig_def split: sum.splits)
next
  assume "\<exists>st printed. Initialize (out_getenv out) (on vs ''EnableRetry'') new_config = Inr (st, printed)"
  then obtain st printed where init: "Initialize (out_getenv out) (on vs ''EnableRetry'') new_config = Inr (st, printed)"
    by blast
  then have "cfg_viper st = configured" by (auto simp: Initialize_new Let_def split: option.splits)
  then obtain w where "start out vs st = Returned (Inr w)"
    using start_returns [OF assms(2-5), of st] by (auto simp: start_settings_strings configured_port)
  with init assms(1) show "\<exists>su w. execute_start out given = Returned (Inr (su, w))"
    by (simp add: execute_start_def initConfig_def)
qed

lemma sample_executed:
  obtains su w where "execute_start sample_outside [] = Returned (Inr (su, w))"
  using start_executed [of "[]" package_init sample_outside] retry_env_configured that
  by (auto simp: sample_outside_def start_outputs_def open_output_def package_init_def mock_flags_def
      root_flags_def start_flags_def BoolVar_def on_def)

theorem program_serves_until_shutdown_witness:
  "\<exists>su w\<^sub>0 w. execute_start sample_outside [] = Returned (Inr (su, w\<^sub>0)) \<and> program_reach su w\<^sub>0 w
    \<and> supervisor w = Sup_Token \<and> main_at w = Main_Serving \<and> \<not> channel_closed (producer_of w)"
proof -
  obtain su w\<^sub>0 where w\<^sub>0: "execute_start sample_outside [] = Returned (Inr (su, w\<^sub>0))"
    by (rule sample_executed)
  then obtain vs st where "start sample_outside vs st = Returned (Inr w\<^sub>0)"
    using execute_started by blast
  from start_made [OF this] have begins: "main_at w\<^sub>0 = Main_Serving" "supervisor w\<^sub>0 = Sup_Check"
      "\<not> stop_flag w\<^sub>0" "\<not> stop_closed w\<^sub>0"
    by (auto simp: program_start_def program_of_def Let_def)
  let ?w = "w\<^sub>0\<lparr>supervisor := Sup_Token\<rparr>"
  have "program_reach su w\<^sub>0 ?w"
    by (rule program_goes_on [OF program_begins supervisor_goes_on]) (use begins in simp_all)
  moreover have "\<not> channel_closed (producer_of ?w)"
    using program_serves_until_shutdown [OF w\<^sub>0 calculation] begins(4) by simp
  moreover have "supervisor ?w = Sup_Token" "main_at ?w = Main_Serving" using begins by simp_all
  ultimately show ?thesis using w\<^sub>0 by blast
qed

text \<open>C2: When no library fails, the program comes up exactly when every required variable of the
  environment is set, the three of the dead letter queue too when retries are on, and there is an API
  key or a user name: no other setting keeps it from running.\<close>

theorem start_comes_up:
  assumes "parse_flags (command_flags Start_Cmd) given package_init = Some vs"
    and "start_outputs out vs = None" "out_session out = None" "\<forall>conf. out_producer out conf = None"
      "\<forall>conf. out_consumer out conf = None"
  shows "(\<exists>su w. execute_start out given = Returned (Inr (su, w))) \<longleftrightarrow>
    list_all (\<lambda>k. out_getenv out (''ER_'' @ k) \<noteq> '''')
      (requiredEnvs @ (if on vs ''EnableRetry'' then retryRequiredEnvs else []))
    \<and> (out_getenv out ''ER_HOUSTON_API_KEY'' \<noteq> '''' \<or> out_getenv out ''ER_HOUSTON_USERNAME'' \<noteq> '''')"
  unfolding start_executed [OF assms] by (rule Initialize_iff)

theorem start_comes_up_witness:
  "\<exists>su w. execute_start sample_outside [(''disable-sse'', Bool_Value True)] = Returned (Inr (su, w))"
proof -
  let ?vs = "package_init(''DisableSSE'' := Bool_Value True)"
  have "parse_flags (command_flags Start_Cmd) [(''disable-sse'', Bool_Value True)] package_init = Some ?vs"
    by (simp add: command_flags_def start_flags_def root_flags_def)
  moreover have "start_outputs sample_outside ?vs = None"
    by (simp add: start_outputs_def open_output_def package_init_def mock_flags_def root_flags_def
        start_flags_def BoolVar_def)
  ultimately show ?thesis
    using start_comes_up [of "[(''disable-sse'', Bool_Value True)]" ?vs sample_outside]
    by (simp add: sample_outside_def retry_env_def requiredEnvs_def retryRequiredEnvs_def)
qed

end
