(* ===== verification/Mock_Program.thy ===== *)
theory Mock_Program
  imports Program
begin

text \<open>
  The command \<open>mock\<close> of \<open>cmd/mock.go\<close>: what it makes of its flags, its argument and the configuration, and
  its goroutines, which are those of \<open>Program\<close> over a Houston that always gives the same integrations.
\<close>

section \<open>What mock makes\<close>

text \<open>
  What \<open>mock\<close> has made when it starts the consumer and the server, or the error with which it ends:
  the integrations come from the argument, there is no dead letter queue and no shutdown channel, and
  the consumer is started once, without a supervisor.
\<close>

record ('w, 'x) mocked =
  mo_sse :: bool
  mo_config :: producer_config
  mo_consumer :: "(strmap option shared, 'x dlq, 'w) producer consumer"
  mo_routes :: "string list"
  mo_address :: string

definition mock_made ::
    "'w cql_driver \<Rightarrow> vars \<Rightarrow> 'w \<Rightarrow> 'w \<times> cassandra_client option result" where
  "mock_made driver vs w =
     (case mock_cassandra vs of
        Inl err \<Rightarrow> (w, Inl err)
      | Inr None \<Rightarrow> (w, Inr None)
      | Inr (Some cfg) \<Rightarrow>
          (case cassandra_NewClient driver w cfg of
             (w, Inl err) \<Rightarrow> (w, Inl err)
           | (w, Inr client) \<Rightarrow> (w, Inr (Some client))))"

text \<open>An error of \<open>NewProducer\<close> is a panic here.\<close>

definition mock_clients ::
    "('u, 'w, 'x) outside \<Rightarrow> config_state \<Rightarrow> producer_config \<Rightarrow> strmap \<Rightarrow> 'w \<Rightarrow>
     (strmap option shared, 'x dlq, 'w) producer consumer result outcome" where
  "mock_clients out st cfg vals w =
     (case NewProducer (out_producer out) (GetBool (out_getenv out) st ''KAFKA_DEBUG'') cfg
         (new_shared (out_others out) (Some vals)) None w of
        Inl err \<Rightarrow> Panicked (error_text err)
      | Inr p \<Rightarrow> Returned (NewConsumer (out_consumer out) (start_options (out_getenv out) st) p))"

definition mock ::
    "('u, 'w, 'x) outside \<Rightarrow> vars \<Rightarrow> config_state \<Rightarrow> string list \<Rightarrow> ('w, 'x) mocked result outcome" where
  "mock out vs st args =
     and_then (mock_integrations args) (\<lambda>vals.
       case vals of
         None \<Rightarrow> Returned (Inl (Error_String ''Arguments must be supplied''))
       | Some vals \<Rightarrow>
           (case mock_made (out_driver out) vs (out_cassandra out) of
              (w, Inl err) \<Rightarrow> Returned (Inl err)
            | (w, Inr client) \<Rightarrow>
                (let cfg = mock_producer_config (out_getenv out) st (on vs ''cassandraEnabled'') client
                 in and_then (mock_clients out st cfg vals w) (\<lambda>made.
                      case made of
                        Inl err \<Rightarrow> Returned (Inl err)
                      | Inr consumer \<Rightarrow>
                          and_then (Serve (AppendRouteHandler Prom_Handler [])
                              (GetString (out_getenv out) st ''SERVE_PORT'')) (\<lambda>(routes, address).
                            Returned (Inr \<lparr>mo_sse = (\<not> on vs ''DisableSSE''), mo_config = cfg,
                              mo_consumer = consumer, mo_routes = routes, mo_address = address\<rparr>))))))"

lemma mock_made_ready:
  assumes "mock_made driver vs w = (w', Inr client)"
  shows "on vs ''cassandraEnabled'' \<longrightarrow> client \<noteq> None"
  using assms
  by (auto simp: mock_made_def mock_cassandra_def split: if_splits sum.splits option.splits prod.splits)

section \<open>The running mock\<close>




inductive mock_step ::
    "('h, 'w, 'x) wiring \<Rightarrow> ('h, 'w, 'x) program \<Rightarrow> ('h, 'w, 'x) program \<Rightarrow> bool" for su where
  mock_moves: "program_step su w w' \<Longrightarrow> stop_closed w' = stop_closed w \<Longrightarrow> supervisor w' \<noteq> Sup_Check \<Longrightarrow>
     mock_step su w w'"
| run_returns: "main_at w = Main_Serving \<Longrightarrow> supervisor w = Sup_Run \<Longrightarrow>
     mock_step su w (w\<lparr>supervisor := Sup_Done\<rparr>)"

inductive mock_reach ::
    "('h, 'w, 'x) wiring \<Rightarrow> ('h, 'w, 'x) program \<Rightarrow> ('h, 'w, 'x) program \<Rightarrow> bool" for su w\<^sub>0 where
  mock_begins: "mock_reach su w\<^sub>0 w\<^sub>0"
| mock_goes_on: "mock_reach su w\<^sub>0 w \<Longrightarrow> mock_step su w w' \<Longrightarrow> mock_reach su w\<^sub>0 w'"

lemma program_of_ttl [simp]: "ttl_armed (program_of c ttl) = ttl"
  by (simp add: program_of_def Let_def)

lemma running_supervisor [simp]:
  "running houston_inv su ttl (w\<lparr>supervisor := s\<rparr>) = running houston_inv su ttl w"
  by (simp add: running_def)

context houston_api
begin

lemma running_mock:
  assumes "mock_reach su w\<^sub>0 w" "running houston_inv su ttl w\<^sub>0" "\<not> stop_closed w\<^sub>0"
    and "su_houston su = houston_get" "su_token su = houston_token"
  shows "running houston_inv su ttl w \<and> \<not> stop_closed w"
  using assms(1)
proof (induction rule: mock_reach.induct)
  case mock_begins
  show ?case using assms(2,3) by blast
next
  case (mock_goes_on w w')
  from mock_goes_on.hyps(2) mock_goes_on.IH show ?case
  proof (cases rule: mock_step.cases)
    case mock_moves
    with mock_goes_on.IH running_step [OF mock_moves(1) _ _ assms(4,5)] show ?thesis by auto
  next
    case run_returns
    with mock_goes_on.IH show ?thesis by simp
  qed
qed

end

lemma read_integrations_finite:
  "read_integrations parts m = Returned vals \<Longrightarrow> finite (dom m) \<Longrightarrow> finite (dom vals)"
  by (induction parts m rule: read_integrations.induct) (auto split: list.splits)

lemma mock_parts:
  assumes "mock out vs st args = Returned (Inr made)"
  obtains vals w w' client opts n where "mock_made (out_driver out) vs w = (w', Inr client)" "finite (dom vals)"
    and "mo_config made = mock_producer_config (out_getenv out) st (on vs ''cassandraEnabled'') client"
    and "mo_consumer made = new_consumer opts (new_producer (new_shared n (Some vals)) None w')"
    and "mo_sse made = (\<not> on vs ''DisableSSE'')"
proof -
  note call = assms [unfolded mock_def]
  obtain v where v: "mock_integrations args = Returned v"
    using call by (cases "mock_integrations args") simp_all
  then obtain vals where vals: "v = Some vals" using call by (cases v) simp_all
  obtain w' cl where cl: "mock_made (out_driver out) vs (out_cassandra out) = (w', cl)" by fastforce
  then obtain client where client: "cl = Inr client" using call v vals by (cases cl) simp_all
  let ?cfg = "mock_producer_config (out_getenv out) st (on vs ''cassandraEnabled'') client"
  let ?serve = "Serve (AppendRouteHandler Prom_Handler []) (GetString (out_getenv out) st ''SERVE_PORT'')"
  obtain r where r: "mock_clients out st ?cfg vals w' = Returned r"
    using call v vals cl client by (cases "mock_clients out st ?cfg vals w'") simp_all
  then obtain c where c: "r = Inr c" using call v vals cl client by (cases r) simp_all
  obtain routes address where "?serve = Returned (routes, address)"
    using call v vals cl client r c by (cases ?serve) auto
  with call v vals cl client r c
  have made: "mo_config made = ?cfg" "mo_consumer made = c" "mo_sse made = (\<not> on vs ''DisableSSE'')" by auto
  have "c = new_consumer (start_options (out_getenv out) st) (new_producer (new_shared (out_others out) (Some vals)) None w')"
    using r c by (auto simp: mock_clients_def NewProducer_def NewConsumer_def split: option.splits)
  moreover have "finite (dom vals)"
    using v vals by (auto simp: mock_integrations_def outcome_simps split: list.splits
        dest: read_integrations_finite)
  ultimately show thesis using that made cl client by blast
qed


lemma mock_config_ready:
  assumes "mock_made driver vs w = (w', Inr client)"
  shows "cassandra_ready (mock_producer_config getenv st (on vs ''cassandraEnabled'') client)"
  using mock_made_ready [OF assms] by (simp add: cassandra_ready_def mock_producer_config_def)


section \<open>Properties\<close>





text \<open>C40: What mock starts has the Cassandra client it needs but never a dead letter queue, and nothing sets the
  retry setting: with ER_RETRY set in the environment the first failed delivery dereferences a nil
  pointer.\<close>

theorem mock_lacks_queue:
  assumes "Initialize (out_getenv out) enableRetry new_config = Inr (st, printed)"
    and "out_getenv out ''ER_RETRY'' = ''true''"
    and "mock out vs st args = Returned (Inr made)"
    and "json_decode value = Inr dat" "value \<noteq> []"
  shows "cassandra_ready (mo_config made)
    \<and> handle_event (mo_config made) (out_driver out) json_decode (GetBool (out_getenv out) st ''RETRY'')
        dl_add flushed (Delivery_Report (Some err) (Some (addr, t)) value) (handler_state (mo_consumer made)) =
      Panicked ''nil pointer dereference''"
proof -
  from assms(3) obtain vals w w' client opts n where
      made: "mock_made (out_driver out) vs w = (w', Inr client)" and "finite (dom vals)"
    and cfg: "mo_config made = mock_producer_config (out_getenv out) st (on vs ''cassandraEnabled'') client"
    and consumer: "mo_consumer made = new_consumer opts (new_producer (new_shared n (Some vals)) None w')"
    by (rule mock_parts)
  then show ?thesis
    unfolding cfg consumer
    by (intro conjI mock_config_ready [OF made] mock_retry_panics [where decode = json_decode, OF assms(1,2) _ assms(4,5)])
      (simp_all add: new_consumer_def new_producer_def)
qed

theorem mock_lacks_queue_witness:
  "\<exists>st made. mock sample_outside package_init st [''GA:ga''] = Returned (Inr made)
    \<and> handle_event (mo_config made) sample_driver json_decode (GetBool retry_env st ''RETRY'')
        (\<lambda>d qo. AddToQueue (\<lambda>_. 0) sample_send qo d) 0
        (Delivery_Report (Some (Error_String ''timed out'')) (Some (1, ''ga'')) ''null'')
        (handler_state (mo_consumer made)) = Panicked ''nil pointer dereference''"
proof -
  obtain st printed where init: "Initialize retry_env False new_config = Inr (st, printed)"
    by (rule retry_env_configured)
  then have "cfg_viper st = configured" by (auto simp: Initialize_new Let_def split: option.splits)
  then obtain c port where "GetString retry_env st ''SERVE_PORT'' = c # port"
    by (cases "GetString retry_env st ''SERVE_PORT''") (auto simp: configured_port)
  then obtain made where made: "mock sample_outside package_init st [''GA:ga''] = Returned (Inr made)"
    by (simp add: mock_def mock_made_def mock_clients_def mock_cassandra_def package_init_def mock_flags_def
        root_flags_def start_flags_def BoolVar_def on_def mock_integrations_def Serve_def NewProducer_def
        NewConsumer_def sample_outside_def Let_def)
  have "json_decode ''null'' = Inr (message_of zero_message)"
    using json_null [of "[]" "[]"] by simp
  from mock_lacks_queue [where out = sample_outside, OF _ _ made this] init made show ?thesis
    by (intro exI [of _ st] exI [of _ made]) (simp add: sample_outside_def retry_env_def)
qed

end
