(* ===== verification/Program_Runs.thy ===== *)
theory Program_Runs
  imports Program
begin

text \<open>
  Runs of the program of \<open>cmd/start.go\<close>: what can happen around the shutdown. The first message of an app
  goes through the locks of the cache step by step and leaves the integrations of the app in it; the
  next one finds them there.
\<close>

section \<open>Orders of a map\<close>

lemma legal_order_ex: "\<exists>order. legal_order order"
proof -
  have "\<forall>m :: strmap. \<exists>ks. finite (dom m) \<longrightarrow> enumerates ks m"
    using enumerates_ex by blast
  then obtain f where "\<forall>m :: strmap. finite (dom m) \<longrightarrow> enumerates (f m) m" by metis
  then show ?thesis by (intro exI [of _ "\<lambda>n. f"]) (simp add: legal_order_def)
qed

lemma legal_order_Nil: "legal_order order \<Longrightarrow> finite (dom m) \<Longrightarrow> dom m \<noteq> {} \<Longrightarrow> order n m \<noteq> []"
  unfolding legal_order_def enumerates_def by (metis empty_set)

section \<open>The consumer alone with the cache\<close>

lemma program_step_eq: "program_step su w v \<Longrightarrow> v = w' \<Longrightarrow> program_step su w w'"
  by simp

lemma program_reach_trans: "program_reach su v w \<Longrightarrow> program_reach su u v \<Longrightarrow> program_reach su u w"
  by (induction rule: program_reach.induct) (auto intro: program_goes_on)

lemma locks_to_again [simp]: "fault_seen L = None \<Longrightarrow> locks_to L' (locks_to L w) = locks_to L' w"
  by (cases "fault_seen L'") (simp_all add: locks_to_def with_shared_def with_producer_def)

lemma locks_to_call: "(locks_to L w)\<lparr>call_at := c\<rparr> = locks_to L (w\<lparr>call_at := c\<rparr>)"
  by (cases "fault_seen L") (simp_all add: locks_to_def with_shared_def with_producer_def)

lemma locks_to_same: "fault_seen L = None \<Longrightarrow> locks_of w = L \<Longrightarrow> locks_to L w = w"
  by (simp add: locks_to_def with_shared_def with_producer_def)

lemma cache_turn:
  assumes "main_at w = Main_Serving" "fault_seen L = None" "\<not> reads_out (pcs L ! 0)"
    and "lock_step (Go 0) L = Some L'"
  shows "program_step su (locks_to L w) (locks_to L' w)"
  by (rule program_step_eq [OF cache_goes_on [where t = 0 and L = L']]) (use assms in simp_all)

lemma at_rest_fault: "at_rest L \<Longrightarrow> fault_seen L = None"
  by (simp add: at_rest_def)

text \<open>A lookup from a state in which no operation is under way.\<close>

lemma message_looked_up:
  assumes "main_at w = Main_Serving" "supervisor w = Sup_Running" "\<not> consumer_closed (consumer_state w)"
    and "call_at w = No_Call" "su_decode su message = Inr dat"
    and "at_rest (locks_of w)" "0 < length (pcs (locks_of w))"
  shows "program_reach su w ((locks_to (secured (AppId dat) (locks_of w)) w)
    \<lparr>call_at := looked_up message key dat (cells (locks_of w) (AppId dat))\<rparr>)"
proof -
  let ?a = "AppId dat" and ?L = "locks_of w"
  let ?s = "secured ?a ?L" and ?u = "w\<lparr>call_at := Looking_Up message key dat\<rparr>"
  have rest: "at_rest ?s" using assms(6) by (rule at_rest_secured)
  obtain l where l: "locks ?s ?a = Some l" using secured_locks by blast
  have len: "0 < length (pcs ?s)" using assms(7) by simp
  have none: "fault_seen ?L = None" "fault_seen ?s = None" using assms(6) rest by (simp_all add: at_rest_fault)
  note alone = begin_alone(1) [OF assms(6,7), of ?a] global_alone [OF assms(6,7), of ?a None]
    shared_alone [OF rest len l, of None] reading_alone [OF rest len, of ?a None]
  have main: "main_at ?u = Main_Serving" using assms(1) by simp
  have "program_step su w (locks_to (goto 0 (Get_Global ?a None) ?L) ?u)"
    using assms alone(1) by (intro message_comes) simp_all
  moreover have "program_step su (locks_to (goto 0 (Get_Global ?a None) ?L) ?u)
      (locks_to (goto 0 (Get_Shared ?a None) (?s\<lparr>global_lock := Some 0\<rparr>)) ?u)"
    using none assms(7) by (intro cache_turn [OF main _ _ alone(2)]) simp_all
  moreover have "program_step su (locks_to (goto 0 (Get_Shared ?a None) (?s\<lparr>global_lock := Some 0\<rparr>)) ?u)
      (locks_to (goto 0 (Get_Reading ?a None) (?s\<lparr>global_lock := Some 0\<rparr>)) ?u)" (is "program_step su _ ?v")
    using none assms(7) by (intro cache_turn [OF main _ _ alone(3)]) simp_all
  moreover have "program_step su ?v
      (locks_to (goto 0 Idle ?s) (?v\<lparr>call_at := looked_up message key dat (cells (locks_of ?v) ?a)\<rparr>))"
    using main none assms(7) alone(4) by (intro lookup_returns) simp_all
  ultimately have "program_reach su w
      (locks_to (goto 0 Idle ?s) (?v\<lparr>call_at := looked_up message key dat (cells (locks_of ?v) ?a)\<rparr>))"
    by (meson program_begins program_goes_on)
  moreover have "locks_to (goto 0 Idle ?s) (?v\<lparr>call_at := looked_up message key dat (cells (locks_of ?v) ?a)\<rparr>) =
      (locks_to ?s w)\<lparr>call_at := looked_up message key dat (cells ?L ?a)\<rparr>"
    using none rest by (simp add: locks_to_call)
  ultimately show ?thesis by simp
qed

text \<open>The update after a miss.\<close>

lemma miss_updated:
  assumes "main_at w = Main_Serving" "call_at w = Missed message key dat"
    and "at_rest (locks_of w)" "0 < length (pcs (locks_of w))"
    and "su_houston su (houston_state (shared_of w)) (AppId dat) = (h, Inr v)"
  shows "\<exists>c. program_reach su w
    ((locks_to ((secured (AppId dat) (locks_of w))\<lparr>cells := (cells (locks_of w))(AppId dat \<mapsto> v)\<rparr>)
       (with_shared (\<lambda>i. i\<lparr>houston_state := h, cache_counters := c\<rparr>) w))
      \<lparr>call_at := Answered message key (Inr None)\<rparr>)"
proof -
  let ?a = "AppId dat" and ?L = "locks_of w"
  let ?s = "secured ?a ?L"
  let ?u = "(with_shared (\<lambda>i. (miss_counted ?a i)\<lparr>houston_state := h\<rparr>) w)\<lparr>call_at := Storing message key\<rparr>"
  have rest: "at_rest ?s" using assms(3) by (rule at_rest_secured)
  obtain l where l: "locks ?s ?a = Some l" using secured_locks by blast
  have len: "0 < length (pcs ?s)" using assms(4) by simp
  have none: "fault_seen ?L = None" "fault_seen ?s = None" using assms(3) rest by (simp_all add: at_rest_fault)
  note alone = begin_alone(2) [OF assms(3,4), of ?a v] global_alone [OF assms(3,4), of ?a "Some v"]
    shared_alone [OF rest len l, of "Some v"] reading_alone [OF rest len, of ?a "Some v"]
    lock_alone [OF rest len l, of v] writing_alone [OF rest len, of ?a v "[l \<mapsto> 0]"]
    unlock_alone [OF rest len l, of "(cells ?s)(?a \<mapsto> v)"]
  have main: "main_at ?u = Main_Serving" using assms(1) by simp
  let ?L1 = "goto 0 (Get_Global ?a (Some v)) ?L"
  let ?L2 = "goto 0 (Get_Shared ?a (Some v)) (?s\<lparr>global_lock := Some 0\<rparr>)"
  let ?L3 = "goto 0 (Get_Reading ?a (Some v)) (?s\<lparr>global_lock := Some 0\<rparr>)"
  let ?L4 = "goto 0 (Upd_Lock ?a v) ?s"
  let ?L5 = "goto 0 (Upd_Writing ?a v (generation ?s)) (?s\<lparr>held := [l \<mapsto> 0]\<rparr>)"
  let ?L6 = "goto 0 (Upd_Unlock ?a) (?s\<lparr>held := [l \<mapsto> 0], cells := (cells ?s)(?a \<mapsto> v)\<rparr>)"
  let ?L7 = "?s\<lparr>cells := (cells ?s)(?a \<mapsto> v)\<rparr>"
  have "program_step su w (locks_to ?L1 ?u)"
    using assms alone(1) by (intro houston_answers) simp_all
  moreover have "program_step su (locks_to ?L1 ?u) (locks_to ?L2 ?u)"
    using none assms(4) by (intro cache_turn [OF main _ _ alone(2)]) simp_all
  moreover have "program_step su (locks_to ?L2 ?u) (locks_to ?L3 ?u)"
    using none assms(4) by (intro cache_turn [OF main _ _ alone(3)]) simp_all
  moreover have "program_step su (locks_to ?L3 ?u) (locks_to ?L4 ?u)"
    using none assms(4) alone(4) by (intro cache_turn [OF main]) simp_all
  moreover have "program_step su (locks_to ?L4 ?u) (locks_to ?L5 ?u)"
    using none assms(4) by (intro cache_turn [OF main _ _ alone(5)]) simp_all
  moreover have "program_step su (locks_to ?L5 ?u) (locks_to ?L6 ?u)"
    using none assms(4) by (intro cache_turn [OF main _ _ alone(6)]) simp_all
  moreover have "program_step su (locks_to ?L6 ?u) (locks_to ?L7 ?u)"
    using none assms(4) by (intro cache_turn [OF main _ _ alone(7)]) simp_all
  moreover have "program_step su (locks_to ?L7 ?u)
      ((locks_to ?L7 ?u)\<lparr>call_at := Answered message key (Inr None)\<rparr>)"
    using main none at_rest_idle [OF rest len] by (intro update_returns) simp_all
  ultimately have "program_reach su w ((locks_to ?L7 ?u)\<lparr>call_at := Answered message key (Inr None)\<rparr>)"
    by (meson program_begins program_goes_on)
  moreover have "(locks_to ?L7 ?u)\<lparr>call_at := Answered message key (Inr None)\<rparr> =
      (locks_to ?L7 (with_shared (\<lambda>i. i\<lparr>houston_state := h, cache_counters :=
        cache_counters (miss_counted ?a (shared_of w))\<rparr>) w))\<lparr>call_at := Answered message key (Inr None)\<rparr>"
    using none(2) by (simp add: locks_to_def with_shared_def with_producer_def miss_counted_def count_cache_def)
  ultimately show ?thesis by auto
qed

section \<open>An app in the cache\<close>

text \<open>
  The consumer runs, no operation of the cache is under way, nothing has been sent and nothing has been
  told to stop.
\<close>

definition consuming :: "('h, 'w, 'x) program \<Rightarrow> bool" where
  "consuming w \<longleftrightarrow>
     main_at w = Main_Serving \<and> supervisor w = Sup_Running \<and> \<not> stop_closed w \<and> \<not> stop_flag w
     \<and> events_at w = Looping \<and> \<not> consumer_closed (consumer_state w)
     \<and> at_rest (locks_of w) \<and> 0 < length (pcs (locks_of w))
     \<and> channel (producer_of w) = [] \<and> \<not> channel_closed (producer_of w) \<and> handed (producer_of w) = []
     \<and> (\<forall>a t. prod_counters (producer_of w) MessagesProduced [a, t] = 0)"

definition cached_app :: "string \<Rightarrow> strmap \<Rightarrow> ('h, 'w, 'x) program \<Rightarrow> bool" where
  "cached_app a m w \<longleftrightarrow> consuming w \<and> call_at w = No_Call \<and> cells (locks_of w) a = Some (Some m)"

lemma consuming_call [simp]: "consuming (w\<lparr>call_at := c\<rparr>) = consuming w"
  by (simp add: consuming_def)

lemma consuming_locks:
  assumes "consuming w" "at_rest L" "0 < length (pcs L)"
  shows "consuming (locks_to L w)"
  using assms at_rest_fault [OF assms(2)] by (simp add: consuming_def)

lemma consuming_houston: "consuming w \<Longrightarrow> consuming (with_shared (\<lambda>i. i\<lparr>houston_state := h, cache_counters := c\<rparr>) w)"
  by (simp add: consuming_def)

lemma consuming_looked_up:
  assumes "consuming w" "call_at w = No_Call" "su_decode su message = Inr dat"
  shows "program_reach su w ((locks_to (secured (AppId dat) (locks_of w)) w)
      \<lparr>call_at := looked_up message key dat (cells (locks_of w) (AppId dat))\<rparr>)"
  using assms by (intro message_looked_up) (simp_all add: consuming_def)

text \<open>A message whose app has just been cached is counted and dropped.\<close>

lemma missed_message_dropped:
  assumes "consuming w" "call_at w = Answered message key (Inr None)" "su_decode su message = Inr dat"
  shows "\<exists>v. program_step su w v \<and> consuming v \<and> call_at v = No_Call \<and> locks_of v = locks_of w"
proof -
  let ?p = "(producer_of w)\<lparr>schedule := []\<rparr>"
  let ?q = "(consumed dat message (ints ?p) ?p)\<lparr>prod_counters :=
      bump MessagesWithNoIntegration [AppId dat] 1 (prod_counters (consumed dat message (ints ?p) ?p))\<rparr>"
  obtain order where order: "legal_order order" using legal_order_ex by blast
  let ?v = "w\<lparr>consumer_state := (consumer_state (with_producer (\<lambda>p. p\<lparr>schedule := []\<rparr>) w))\<lparr>handler_state := ?q\<rparr>,
    call_at := No_Call\<rparr>"
  have "HandleMessage (su_config su) (su_driver su) (su_decode su) (\<lambda>i a. Returned (i, Inr None)) order ?p message key =
      Returned (?q, None)"
    by (rule handle_no_integrations [where r = None]) (use assms(3) in simp_all)
  then have "consume_step su order [] (Inr None) (Kafka_Message message key) w =
      Returned ((consumer_state (with_producer (\<lambda>p. p\<lparr>schedule := []\<rparr>) w))\<lparr>handler_state := ?q\<rparr>, True)"
    unfolding consume_step_def by (intro consume_message) simp
  then have "program_step su w ?v"
    using assms(1,2) order
    by (intro consumes [where ev = "Kafka_Message message key" and r = "Inr None" and sched = "[]" and order = order])
      (simp_all add: consuming_def due_def)
  moreover have "consuming ?v"
    using assms(1) by (simp add: consuming_def with_producer_def consumed_def bump_apply)
  moreover have "locks_of ?v = locks_of w" by (simp add: consumed_def)
  ultimately show ?thesis by (intro exI [of _ ?v]) simp
qed

lemma consuming_reach:
  assumes "su_token su h = (h1, Inr t)"
  shows "\<exists>w. program_reach su (program_start opts h d c ttl n) w \<and> consuming w \<and> call_at w = No_Call
    \<and> cells (locks_of w) = Map.empty \<and> houston_state (shared_of w) = h1"
proof -
  let ?w0 = "program_start opts h d c ttl n"
  let ?w1 = "?w0\<lparr>supervisor := Sup_Token\<rparr>"
  let ?w2 = "(with_shared (\<lambda>i. i\<lparr>houston_state := h1\<rparr>) ?w1)\<lparr>supervisor := Sup_Run\<rparr>"
  let ?w3 = "?w2\<lparr>supervisor := Sup_Running, consumer_state :=
    (consumer_state ?w2)\<lparr>subscription := [co_Topic (co_options (consumer_state ?w2))]\<rparr>\<rparr>"
  note defs = program_start_def program_of_def Let_def new_consumer_def new_producer_def new_shared_def
  have "program_step su ?w0 ?w1"
    by (rule supervisor_goes_on) (simp_all add: defs)
  moreover have "program_step su ?w1 ?w2"
    by (rule program_step_eq [OF token_asked [where h = h1 and r = "Inr t"]])
      (use assms(1) in \<open>simp_all add: defs\<close>)
  moreover have "program_step su ?w2 ?w3"
    by (rule subscribed) (simp_all add: defs with_shared_def with_producer_def)
  ultimately have "program_reach su ?w0 ?w3"
    by (meson program_begins program_goes_on)
  moreover have "consuming ?w3" "call_at ?w3 = No_Call" "cells (locks_of ?w3) = Map.empty"
      "houston_state (shared_of ?w3) = h1"
    using at_rest_start [of "Suc n"]
    by (simp_all add: consuming_def defs with_shared_def with_producer_def no_metrics_def lock_start_def NewMap_def)
  ultimately show ?thesis by blast
qed

lemma cached_app_reach:
  assumes "su_token su h = (h1, Inr t)" "su_houston su h1 a = (h2, Inr (Some m))"
    and "su_decode su message = Inr dat" "AppId dat = a"
  obtains w where "program_reach su (program_start opts h d c ttl n) w" "cached_app a m w"
proof -
  obtain w where reach: "program_reach su (program_start opts h d c ttl n) w"
    and w: "consuming w" "call_at w = No_Call" "cells (locks_of w) = Map.empty" "houston_state (shared_of w) = h1"
    using consuming_reach [OF assms(1)] by blast
  let ?u = "(locks_to (secured a (locks_of w)) w)\<lparr>call_at := Missed message [] dat\<rparr>"
  have rest: "at_rest (locks_of w)" "0 < length (pcs (locks_of w))" using w(1) by (simp_all add: consuming_def)
  note rest_a = at_rest_secured [OF rest(1), of a]
  note rest_aa = at_rest_secured [OF rest_a, of a]
  have looked: "program_reach su w ?u"
    using consuming_looked_up [where su = su and key = "[]", OF w(1,2) assms(3)] w(3) assms(4)
    by (simp add: looked_up_def)
  have u: "consuming ?u" using consuming_locks [OF w(1) rest_a] rest by simp
  have "su_houston su (houston_state (shared_of ?u)) (AppId dat) = (h2, Inr (Some m))"
    using assms(2,4) w(4) by simp
  from miss_updated [where su = su, OF _ _ _ _ this] u obtain cs where
    updated: "program_reach su ?u
      ((locks_to ((secured a (locks_of ?u))\<lparr>cells := (cells (locks_of ?u))(a \<mapsto> Some m)\<rparr>)
         (with_shared (\<lambda>i. i\<lparr>houston_state := h2, cache_counters := cs\<rparr>) ?u))
        \<lparr>call_at := Answered message [] (Inr None)\<rparr>)" (is "program_reach su ?u ?v")
    unfolding consuming_def assms(4) by auto
  have v: "consuming ?v" "cells (locks_of ?v) a = Some (Some m)"
    using consuming_locks [OF consuming_houston [OF u, of cs h2] at_rest_cells [OF rest_aa]] rest by simp_all
  obtain x where x: "program_step su ?v x" "consuming x" "call_at x = No_Call" "locks_of x = locks_of ?v"
    using missed_message_dropped [OF v(1) _ assms(3)] by auto
  have "program_reach su (program_start opts h d c ttl n) x"
    using program_goes_on [OF program_reach_trans [OF updated program_reach_trans [OF looked reach]] x(1)] .
  moreover have "cached_app a m x" using x v(2) by (simp add: cached_app_def)
  ultimately show thesis by (rule that)
qed

section \<open>Messages left on the channel\<close>

text \<open>With no turn of the channel's goroutine in between, a routed message stays on the channel.\<close>

lemma iteration_waits:
  assumes "schedule p = []" "length (channel p) < channel_size"
  shows "channel (iteration cfg driver dat message key addr e p) =
      channel p @ [\<lparr>km_topic = Loop_Var addr, km_key = key, km_value = message\<rparr>]"
    and "handed (iteration cfg driver dat message key addr e p) = handed p"
  using assms by (simp_all add: iteration_def sent_channel turns_def hand_on_def)

lemma iterations_wait:
  assumes "schedule p = []" "length (channel p) + length es \<le> channel_size"
  shows "channel (fold (iteration cfg driver dat message key addr) es p) =
      channel p @ replicate (length es) \<lparr>km_topic = Loop_Var addr, km_key = key, km_value = message\<rparr>
    \<and> handed (fold (iteration cfg driver dat message key addr) es p) = handed p"
  using assms
proof (induction es arbitrary: p)
  case Nil
  then show ?case by simp
next
  case (Cons e es)
  then show ?case by (simp add: iteration_waits)
qed

lemma routed_left_on_channel:
  assumes "decode message = Inr dat" "\<not> channel_closed p" "cassandra_ready cfg" "schedule p = []" "channel p = []"
    and "ints_get (ints p) (AppId dat) = Returned (i, Inr (Some m))" "dom m \<noteq> {}" "finite (dom m)"
    and "legal_order order" "card (dom m) \<le> channel_size"
  shows "\<exists>p'. HandleMessage cfg driver decode ints_get order p message key = Returned (p', None)
    \<and> channel p' = replicate (card (dom m))
        \<lparr>km_topic = Loop_Var (length (loop_vars p)), km_key = key, km_value = message\<rparr>
    \<and> handed p' = handed p \<and> \<not> channel_closed p'
    \<and> (\<forall>t. prod_counters p' MessagesProduced [AppId dat, t] =
          prod_counters p MessagesProduced [AppId dat, t] + card {k \<in> dom m. m k = Some t})"
proof -
  let ?ks = "order (length (loop_vars p)) m"
  have ks: "enumerates ?ks m" using assms(8,9) by (simp add: legal_order_def)
  then have "length (entries ?ks m) = card (dom m)" by (simp add: entries_def enumerates_length)
  then show ?thesis
    using handle_routed [where decode = decode and ints_get = ints_get and message = message and order = order
        and driver = driver and key = key, OF assms(1-3,6,7)] assms(2,4,5,10) ks
    by (simp add: iterations_wait fold_iteration_produced entries_def comp_def consumed_def count_topics)
qed

section \<open>Properties\<close>

text \<open>C7: A shutdown can crash the program: when the event handler has closed the producer and the
  consumer, which waits for the same signal, takes one more message of an app with integrations,
  that message is sent on a closed channel.\<close>

theorem shutdown_can_crash:
  assumes "su_token su h = (h1, Inr t)" "su_houston su h1 a = (h2, Inr (Some m))"
    and "m \<noteq> Map.empty" "finite (dom m)"
    and "su_decode su message = Inr dat" "AppId dat = a" "cassandra_ready (su_config su)"
  shows "\<exists>w. program_reach su (program_start opts h d c ttl n) w
    \<and> main_at w = Main_Crashed ''send on closed channel''"
proof -
  from cached_app_reach [OF assms(1,2,5,6)] obtain w
    where reach: "program_reach su (program_start opts h d c ttl n) w" and w: "cached_app a m w" by blast
  let ?v = "w\<lparr>stop_closed := True\<rparr>"
  obtain p' where close: "producer_Close (su_config su) (su_driver su) 0 (producer_of w) = Returned p'"
    and p': "channel_closed p'" "ints p' = ints (producer_of w)"
    using producer_Close_open [where p = "producer_of w", OF _ assms(7)] w
    by (metis cached_app_def consuming_def)
  let ?u = "(with_producer (\<lambda>_. p') ?v)\<lparr>events_at := Loop_Ended\<rparr>"
  let ?x = "(locks_to (secured a (locks_of ?u)) ?u)\<lparr>call_at := Answered message [] (Inr (Some m))\<rparr>"
  obtain order where order: "legal_order order" using legal_order_ex by blast
  have "program_step su w ?v" using w by (intro signal_received) (simp_all add: cached_app_def consuming_def)
  moreover have "program_step su ?v ?u"
    using w close
    by (intro handles [where ev = Shutdown_Closed and flushed = 0])
      (simp_all add: cached_app_def consuming_def reported_def handle_step_def handle_event_def)
  moreover have "program_reach su ?u ?x"
    using message_looked_up [of ?u su message dat "[]"] w assms(5,6) p'(2)
    by (simp add: cached_app_def consuming_def looked_up_def)
  moreover have "program_step su ?x (?x\<lparr>main_at := Main_Crashed ''send on closed channel''\<rparr>)"
  proof (rule consume_panics [where ev = "Kafka_Message message []" and sched = "[]" and order = order
        and r = "Inr (Some m)"])
    have "order k m \<noteq> []" for k
      using legal_order_Nil [OF order assms(4)] assms(3) by simp
    then show "consume_step su order [] (Inr (Some m)) (Kafka_Message message []) ?x =
        Panicked ''send on closed channel''"
      using p'(1) assms(3,5)
      by (simp add: consume_step_def consume_def handle_after_close_routed [where m = m and dat = dat])
    show "main_at ?x = Main_Serving"
      using w at_rest_fault [of "locks_of w"] p'(2) by (simp add: cached_app_def consuming_def)
  qed (use w order in \<open>simp_all add: cached_app_def consuming_def due_def\<close>)
  ultimately have "program_reach su (program_start opts h d c ttl n)
      (?x\<lparr>main_at := Main_Crashed ''send on closed channel''\<rparr>)"
    using reach by (meson program_goes_on program_reach_trans)
  moreover have "main_at (?x\<lparr>main_at := Main_Crashed ''send on closed channel''\<rparr>) =
      Main_Crashed ''send on closed channel''"
    by simp
  ultimately show ?thesis by blast
qed

definition sample_wiring :: "(unit, unit, unit) wiring" where
  "sample_wiring =
     \<lparr>su_config = sample_config, su_driver = sample_driver, su_decode = sample_decode,
      su_event_app = (\<lambda>d. Inr ''m''), su_houston = (\<lambda>u a. (u, Inr (Some sample_map))),
      su_token = (\<lambda>u. (u, Inr ''token'')), su_retry = False, su_sse = True, su_web = True,
      su_clock = (\<lambda>_. 0), su_send = sample_send\<rparr>"

lemma sample_wiring_app:
  "su_token sample_wiring () = ((), Inr ''token'')"
  "su_houston sample_wiring () a = ((), Inr (Some sample_map))" "sample_map \<noteq> Map.empty"
  "finite (dom sample_map)" "su_decode sample_wiring ''m1'' = Inr (projr (sample_decode ''m1''))"
  "AppId (projr (sample_decode ''m1'')) = ''m''" "cassandra_ready (su_config sample_wiring)"
  "card (dom sample_map) \<le> channel_size"
  by (simp_all add: sample_wiring_def sample_defs channel_size_def)

theorem shutdown_can_crash_witness:
  "\<exists>w. program_reach sample_wiring (program_start sample_options () None () True 1) w
    \<and> main_at w = Main_Crashed ''send on closed channel''"
  by (rule shutdown_can_crash [OF sample_wiring_app(1-7)])

text \<open>C8: A shutdown can lose messages: Serve returns, and with it the program, as soon as the signal is
  given, without waiting for the goroutines that close the producer. A message of any app with at most as
  many integrations as the produce channel has room for can then be counted as sent for every
  integration, while all its copies are still on the channel: none has been handed to Kafka, and no
  step of any goroutine follows that would do it.\<close>

theorem shutdown_can_lose_messages:
  assumes "su_token su h = (h1, Inr t)" "su_houston su h1 a = (h2, Inr (Some m))"
    and "m \<noteq> Map.empty" "finite (dom m)"
    and "su_decode su message = Inr dat" "AppId dat = a" "cassandra_ready (su_config su)"
    and "card (dom m) \<le> channel_size"
  shows "\<exists>w. program_reach su (program_start opts h d c ttl n) w
    \<and> main_at w = Main_Returned \<and> (\<forall>w'. \<not> program_step su w w')
    \<and> (\<forall>t. prod_counters (producer_of w) MessagesProduced [a, t] = card {k \<in> dom m. m k = Some t})
    \<and> map km_value (channel (producer_of w)) = replicate (card (dom m)) message
    \<and> handed (producer_of w) = []"
proof -
  from cached_app_reach [OF assms(1,2,5,6)] obtain w
    where reach: "program_reach su (program_start opts h d c ttl n) w" and w: "cached_app a m w" by blast
  let ?x = "(locks_to (secured a (locks_of w)) w)\<lparr>call_at := Answered message [] (Inr (Some m))\<rparr>"
  have looked: "program_reach su w ?x"
    using consuming_looked_up [where su = su and key = "[]" and w = w, OF _ _ assms(5)] w assms(6)
    by (simp add: cached_app_def looked_up_def)
  have x: "consuming ?x"
    using w at_rest_secured by (auto simp: cached_app_def consuming_def at_rest_fault intro!: consuming_locks)
  obtain order where order: "legal_order order" using legal_order_ex by blast
  let ?q = "(producer_of ?x)\<lparr>schedule := []\<rparr>"
  have q: "\<not> channel_closed ?q" "schedule ?q = []" "channel ?q = []" using x by (simp_all add: consuming_def)
  have "dom m \<noteq> {}" using assms(3) by simp
  from routed_left_on_channel [where decode = "su_decode su" and order = order and i = "ints ?q"
      and driver = "su_driver su" and ints_get = "\<lambda>i a. Returned (i, Inr (Some m))" and key = "[]",
      OF assms(5) q(1) assms(7) q(2,3) refl this assms(4) order assms(8)]
  obtain p' where call: "HandleMessage (su_config su) (su_driver su) (su_decode su)
      (\<lambda>i a. Returned (i, Inr (Some m))) order ?q message [] = Returned (p', None)"
    and p': "map km_value (channel p') = replicate (card (dom m)) message" "handed p' = []"
      "\<forall>t. prod_counters p' MessagesProduced [a, t] = card {k \<in> dom m. m k = Some t}"
    using x assms(6) by (auto simp: consuming_def)
  let ?c = "(consumer_state (with_producer (\<lambda>p. p\<lparr>schedule := []\<rparr>) ?x))\<lparr>handler_state := p'\<rparr>"
  let ?v = "?x\<lparr>consumer_state := ?c, call_at := No_Call\<rparr>"
  let ?u = "?v\<lparr>stop_closed := True\<rparr>"
  have "program_step su ?x ?v"
  proof (rule consumes [where ev = "Kafka_Message message []" and sched = "[]" and order = order
        and r = "Inr (Some m)"])
    show "consume_step su order [] (Inr (Some m)) (Kafka_Message message []) ?x = Returned (?c, True)"
      unfolding consume_step_def by (rule consume_message [where err = None]) (use call in simp)
  qed (use x order in \<open>simp_all add: consuming_def due_def\<close>)
  moreover have "program_step su ?v ?u" using x by (intro signal_received) (simp_all add: consuming_def)
  moreover have "program_step su ?u (?u\<lparr>main_at := Main_Returned\<rparr>)"
    using x by (intro server_returns) (simp_all add: consuming_def)
  ultimately have "program_reach su (program_start opts h d c ttl n) (?u\<lparr>main_at := Main_Returned\<rparr>)"
    using program_reach_trans [OF looked reach] by (meson program_goes_on)
  moreover have "\<not> program_step su (?u\<lparr>main_at := Main_Returned\<rparr>) w'" for w'
    by (auto elim: program_step.cases)
  ultimately show ?thesis using p' by (intro exI [of _ "?u\<lparr>main_at := Main_Returned\<rparr>"]) simp
qed

theorem shutdown_can_lose_messages_witness:
  "\<exists>w. program_reach sample_wiring (program_start sample_options () None () True 1) w
    \<and> main_at w = Main_Returned
    \<and> prod_counters (producer_of w) MessagesProduced [''m'', ''s3-topic''] = 1
    \<and> map km_value (channel (producer_of w)) = [''m1'', ''m1''] \<and> handed (producer_of w) = []"
proof -
  have "{k \<in> dom sample_map. sample_map k = Some ''s3-topic''} = {''S3''}"
    by (auto simp: sample_map_def)
  then have cards: "card {k \<in> dom sample_map. sample_map k = Some ''s3-topic''} = 1"
      "replicate (card (dom sample_map)) ''m1'' = [''m1'', ''m1'']"
    by (simp_all add: sample_map_def numeral_2_eq_2)
  obtain w where "program_reach sample_wiring (program_start sample_options () None () True 1) w"
      "main_at w = Main_Returned" "handed (producer_of w) = []"
    and counts: "\<forall>t. prod_counters (producer_of w) MessagesProduced [''m'', t] =
        card {k \<in> dom sample_map. sample_map k = Some t}"
    and left: "map km_value (channel (producer_of w)) = replicate (card (dom sample_map)) ''m1''"
    using shutdown_can_lose_messages [where opts = sample_options and d = None and c = "()" and ttl = True and n = 1,
        OF sample_wiring_app] by blast
  moreover have "prod_counters (producer_of w) MessagesProduced [''m'', ''s3-topic''] = 1"
    using counts cards(1) by simp
  moreover have "map km_value (channel (producer_of w)) = [''m1'', ''m1'']"
    using left cards(2) by simp
  ultimately show ?thesis by (intro exI [of _ w]) simp
qed

text \<open>C38: The supervisor can run the consumer again after it has closed: between the closing of the
  shutdown channel and the setting of the flag the supervisor looks at, Run returns, and is called
  on the closed consumer.\<close>

theorem closed_consumer_run_again:
  assumes "\<forall>h. \<exists>h' t. su_token su h = (h', Inr t)"
  shows "\<exists>w. program_reach su (program_start opts h d c ttl n) w
    \<and> main_at w = Main_Serving \<and> supervisor w = Sup_Running \<and> consumer_closed (consumer_state w)"
proof -
  note defs = program_start_def program_of_def Let_def new_consumer_def
  let ?serves = "\<lambda>w. program_reach su (program_start opts h d c ttl n) w \<and> main_at w = Main_Serving
    \<and> \<not> stop_flag w \<and> call_at w = No_Call"
  have again: "\<exists>v. ?serves v \<and> supervisor v = Sup_Running \<and> stop_closed v = stop_closed w
      \<and> consumer_closed (consumer_state v) = consumer_closed (consumer_state w)"
    if "?serves w" "supervisor w = Sup_Check" for w
  proof -
    let ?u = "w\<lparr>supervisor := Sup_Token\<rparr>"
    obtain h' t where "su_token su (houston_state (shared_of w)) = (h', Inr t)" using assms by blast
    then have "program_step su ?u
        ((with_shared (\<lambda>i. i\<lparr>houston_state := h'\<rparr>) ?u)\<lparr>supervisor := Sup_Run\<rparr>)"
      (is "program_step su ?u ?v")
      using that by (intro program_step_eq [OF token_asked [where h = h' and r = "Inr t"]]) simp_all
    moreover have "program_step su w ?u" using that by (intro supervisor_goes_on) simp_all
    moreover have "program_step su ?v (?v\<lparr>supervisor := Sup_Running, consumer_state :=
        (consumer_state ?v)\<lparr>subscription := [co_Topic (co_options (consumer_state ?v))]\<rparr>\<rparr>)"
      (is "program_step su ?v ?x") using that by (intro subscribed) simp_all
    ultimately have "program_reach su (program_start opts h d c ttl n) ?x"
      using that by (meson program_goes_on)
    then show ?thesis using that by (intro exI [of _ ?x]) (simp add: with_shared_def with_producer_def)
  qed
  have "?serves (program_start opts h d c ttl n)" by (simp add: defs program_begins)
  from again [OF this] obtain w where w: "?serves w" "supervisor w = Sup_Running" "\<not> stop_closed w"
    by (auto simp: defs)
  let ?u = "w\<lparr>stop_closed := True\<rparr>"
  let ?c = "consumer_state (with_producer (\<lambda>p. p\<lparr>schedule := []\<rparr>) ?u)"
  let ?v = "?u\<lparr>consumer_state := consumer_Close ?c, supervisor := Sup_Check\<rparr>"
  have "program_step su w ?u" using w by (intro signal_received) simp_all
  moreover have "program_step su ?u ?v"
    using w by (intro consumer_stops [where order = "\<lambda>n m. []" and sched = "[]"])
      (simp_all add: consume_step_def consume_def)
  ultimately have "?serves ?v" using w(1) by (auto intro: program_goes_on)
  from again [OF this] show ?thesis by (auto simp: consumer_Close_def)
qed

theorem closed_consumer_run_again_witness:
  "\<exists>w. program_reach sample_wiring (program_start sample_options () None () True 1) w
    \<and> main_at w = Main_Serving \<and> supervisor w = Sup_Running \<and> consumer_closed (consumer_state w)"
  by (rule closed_consumer_run_again) (simp add: sample_wiring_def)

end
