(* ===== verification/Producer_Records.thy ===== *)
theory Producer_Records
  imports Producer_Routing
begin

text \<open>
  What the producer records in Cassandra of the messages it sends (\<open>HandleMessage\<close> of
  \<open>kafka/clickstream/clickstream_producer.go\<close> with \<open>InsertMessage\<close> of \<open>cassandra/client.go\<close>), next to the
  topics they go to.
\<close>

text \<open>The statement for one integration, by its topic; its error is logged only.\<close>

definition record_topic ::
    "'w cql_driver \<Rightarrow> cassandra_client \<Rightarrow> message \<Rightarrow> string \<Rightarrow> 'w \<Rightarrow> 'w" where
  "record_topic driver c dat t w = fst (InsertMessage driver w c (MessageID dat) (t @ ''-sent''))"

lemma counted_cass_world [simp]: "cass_world (counted a i m p) = cass_world p"
  by (simp add: counted_def)

lemma iteration_cass_world:
  assumes "pc_CassandraEnabled cfg" "pc_Cassandra cfg = Some c"
  shows "cass_world (iteration cfg driver dat message key addr e p) =
    record_topic driver c dat (snd e) (cass_world p)"
  using assms by (simp add: iteration_def recorded_def record_topic_def)

lemma iterations_cass_world:
  assumes "pc_CassandraEnabled cfg" "pc_Cassandra cfg = Some c"
  shows "cass_world (fold (iteration cfg driver dat message key addr) es p) =
    fold (record_topic driver c dat) (map snd es) (cass_world p)"
  by (induction es arbitrary: p) (simp_all add: iteration_cass_world [OF assms])

text \<open>A driver that keeps the values of the statements it executes.\<close>

definition logging_driver :: "cql_value list list cql_driver" where
  "logging_driver =
     \<lparr>create_session = (\<lambda>w cl. (w, Inr 0)), exec = (\<lambda>w s q vs. (w @ [vs], None)),
      close_session = (\<lambda>w s. w)\<rparr>"

definition recording_config :: producer_config where
  "recording_config = sample_config\<lparr>pc_CassandraEnabled := True, pc_Cassandra :=
     Some \<lparr>cass_session = 0, cass_configs =
       \<lparr>Servers = [''c''], Keyspace = ''mock'', ReplicationFactor = 1, MessageTableName = ''t'',
        Consistency = 0, RunID = 7\<rparr>\<rparr>\<rparr>"

definition recording_producer :: "(unit, unit, cql_value list list) producer" where
  "recording_producer =
     \<lparr>ints = (), deadletter = None, cass_world = [], loop_vars = [], channel = [], channel_closed = False,
      handed = [], refused = [], schedule = [], prod_counters = no_metrics\<rparr>"

section \<open>Properties\<close>

text \<open>C14: With recording on, a message gets one row in Cassandra and one count for every integration of its
  app, under the topic of that integration, the rows marked as sent, in the order of the loop: whatever
  the goroutine of the produce channel does, however full the channel is, and whatever errors the
  rows before had. The topics the messages go to do depend on all of that (C3, C13), so the rows and
  the counts do not tell where a message went.\<close>

theorem every_integration_recorded:
  assumes "decode message = Inr dat" "\<not> channel_closed p"
    and "pc_CassandraEnabled cfg" "pc_Cassandra cfg = Some c"
    and "ints_get (ints p) (AppId dat) = Returned (i, Inr (Some m))" "m \<noteq> Map.empty"
    and "order (length (loop_vars p)) m = ks" "enumerates ks m"
  shows "\<exists>p'. HandleMessage cfg driver decode ints_get order p message key = Returned (p', None)
    \<and> cass_world p' = fold (record_topic driver c dat) (map (map_get m) ks) (cass_world p)
    \<and> (\<forall>t. prod_counters p' MessagesProduced [AppId dat, t] =
          prod_counters p MessagesProduced [AppId dat, t] + card {k \<in> dom m. m k = Some t})"
proof -
  have ready: "cassandra_ready cfg" using assms(4) by (simp add: cassandra_ready_def)
  have ne: "dom m \<noteq> {}" using assms(6) by simp
  show ?thesis
    using assms(7) count_topics [OF assms(8)] handle_routed [where decode = decode and ints_get = ints_get, OF assms(1,2) ready assms(5) ne]
    by (simp add: iterations_cass_world [OF assms(3,4)] fold_iteration_produced entries_def comp_def consumed_def)
qed

theorem every_integration_recorded_witness:
  "\<exists>p'. HandleMessage recording_config logging_driver sample_decode sample_get sample_order
      recording_producer ''m1'' ''k'' = Returned (p', None)
    \<and> cass_world p' = [[Cql_Int 7, Cql_Text ''s3-topic-sent'', Cql_Text ''1''],
                       [Cql_Int 7, Cql_Text ''ga-topic-sent'', Cql_Text ''1'']]"
  using every_integration_recorded [of sample_decode "''m1''" "projr (sample_decode ''m1'')"
      recording_producer recording_config _ sample_get "()"
      sample_map sample_order "[''S3'', ''GA'']" logging_driver "''k''"]
    sample_order_enumerates
  by (auto simp: sample_defs recording_producer_def recording_config_def logging_driver_def record_topic_def
      InsertMessage_def map_get_def)

end
