(* ===== verification/Kafka_Stats.thy ===== *)
theory Kafka_Stats
  imports Metrics
begin

text \<open>
  The statistics of the Kafka clients: the structures of \<open>kafka/monitoring.go\<close> that librdkafka's
  JSON is decoded into, and the gauges of \<open>pkg/prom/kafka.go\<close> that \<open>HandleKafkaStats\<close> sets from them.
  A gauge keeps, for each list of label values, the last value set, a \<open>float64\<close> that came from an
  integer. \<open>decode\<close> is \<open>json.Unmarshal\<close> into a \<open>Stats\<close>.
\<close>

section \<open>The decoded statistics\<close>

record window =
  win_Avg :: int
  win_Cnt :: int
  win_Max :: int
  win_Min :: int
  win_Sum :: int

record Broker =
  broker_BufGrow :: int
  broker_IntLatency :: window
  broker_Name :: string
  broker_Nodeid :: int
  broker_OutbufCnt :: int
  broker_OutbufMsgCnt :: int
  broker_ReqTimeouts :: int
  broker_Rtt :: window
  broker_Rx :: int
  broker_Rxbytes :: int
  broker_Rxcorriderrs :: int
  broker_Rxerrs :: int
  broker_Rxpartial :: int
  broker_State :: string
  broker_Stateage :: int
  broker_Throttle :: window
  broker_Tx :: int
  broker_Txbytes :: int
  broker_Txerrs :: int
  broker_Txretries :: int
  broker_WaitrespCnt :: int
  broker_WaitrespMsgCnt :: int
  broker_Wakeups :: int
  broker_ZbufGrow :: int

record Stats =
  stats_Brokers :: "string \<rightharpoonup> Broker"
  stats_MetadataCacheCnt :: int
  stats_MsgCnt :: int
  stats_MsgMax :: int
  stats_MsgSize :: int
  stats_MsgSizeMax :: int
  stats_Name :: string
  stats_Replyq :: int
  stats_SimpleCnt :: int
  stats_Time :: int
  stats_Ts :: int
  stats_Type :: string

section \<open>The gauges\<close>

datatype gauge =
    StatsMetadataCacheCount
  | StatsMessageCount
  | StatsMessageMax
  | StatsMessageSize
  | StatsMessageSizeMax
  | StatsReplyQ
  | StatsSimpleCnt
  | StatsTS
  | BrokerBufGrow
  | BrokerIntLatencyAvg
  | BrokerIntLatencyCnt
  | BrokerIntLatencyMax
  | BrokerIntLatencyMin
  | BrokerIntLatencySum
  | BrokerOutBufCnt
  | BrokerOutBufMsgCnt
  | BrokerReqTimeouts
  | BrokerRttAvg
  | BrokerRttCnt
  | BrokerRttMax
  | BrokerRttMin
  | BrokerRttSum
  | BrokerRx
  | BrokerRxBytes
  | BrokerRxCorridErrs
  | BrokerRxErrs
  | BrokerRxPartial
  | BrokerThrottleAvg
  | BrokerThrottleCnt
  | BrokerThrottleMax
  | BrokerThrottleMin
  | BrokerThrottleSum
  | BrokerTx
  | BrokerTxBytes
  | BrokerTxErrs
  | BrokerTxRetries
  | BrokerWaitRespCnt
  | BrokerWaitRespMsgCnt
  | BrokerWakeups
  | BrokerZBufGrow

fun gauge_name :: "gauge \<Rightarrow> string" where
  "gauge_name StatsMetadataCacheCount = ''event_router_kafka_metadata_cache_cnt''"
| "gauge_name StatsMessageCount = ''event_router_kafka_msg_cnt''"
| "gauge_name StatsMessageMax = ''event_router_kafka_msg_max''"
| "gauge_name StatsMessageSize = ''event_router_kafka_msg_size''"
| "gauge_name StatsMessageSizeMax = ''event_router_kafka_message_size_max''"
| "gauge_name StatsReplyQ = ''event_router_kafak_replyq''"
| "gauge_name StatsSimpleCnt = ''event_router_kafka_simple_cnt''"
| "gauge_name StatsTS = ''event_router_kafka_ts''"
| "gauge_name BrokerBufGrow = ''event_router_broker_buf_grow''"
| "gauge_name BrokerIntLatencyAvg = ''event_router_broker_int_latency_avg''"
| "gauge_name BrokerIntLatencyCnt = ''event_router_broker_int_latency_cnt''"
| "gauge_name BrokerIntLatencyMax = ''event_router_broker_int_latency_max''"
| "gauge_name BrokerIntLatencyMin = ''event_router_broker_int_latency_min''"
| "gauge_name BrokerIntLatencySum = ''event_router_broker_int_latency_sum''"
| "gauge_name BrokerOutBufCnt = ''event_router_broker_out_buf_cnt''"
| "gauge_name BrokerOutBufMsgCnt = ''event_router_broker_out_buf_msg_cnt''"
| "gauge_name BrokerReqTimeouts = ''event_router_broker_reg_timeouts''"
| "gauge_name BrokerRttAvg = ''event_router_broker_rtt_avg''"
| "gauge_name BrokerRttCnt = ''event_router_broker_rtt_cnt''"
| "gauge_name BrokerRttMax = ''event_router_broker_rtt_max''"
| "gauge_name BrokerRttMin = ''event_router_broker_rtt_min''"
| "gauge_name BrokerRttSum = ''event_router_broker_rtt_sum''"
| "gauge_name BrokerRx = ''event_router_broker_rx''"
| "gauge_name BrokerRxBytes = ''event_router_broker_rx_bytes''"
| "gauge_name BrokerRxCorridErrs = ''event_router_broker_rx_corriderrs''"
| "gauge_name BrokerRxErrs = ''event_router_broker_rx_errs''"
| "gauge_name BrokerRxPartial = ''event_router_broker_rx_partial''"
| "gauge_name BrokerThrottleAvg = ''event_router_broker_throttle_avg''"
| "gauge_name BrokerThrottleCnt = ''event_router_broker_throttle_cnt''"
| "gauge_name BrokerThrottleMax = ''event_router_broker_throttle_max''"
| "gauge_name BrokerThrottleMin = ''event_router_broker_throttle_min''"
| "gauge_name BrokerThrottleSum = ''event_router_broker_throttle_sum''"
| "gauge_name BrokerTx = ''event_router_broker_tx''"
| "gauge_name BrokerTxBytes = ''event_router_broker_tx_bytes''"
| "gauge_name BrokerTxErrs = ''event_router_broker_tx_errs''"
| "gauge_name BrokerTxRetries = ''event_router_broker_tx_retries''"
| "gauge_name BrokerWaitRespCnt = ''event_router_broker_wait_resp_cnt''"
| "gauge_name BrokerWaitRespMsgCnt = ''event_router_broker_wait_resp_msg_cnt''"
| "gauge_name BrokerWakeups = ''event_router_broker_wakeups''"
| "gauge_name BrokerZBufGrow = ''event_router_broker_zbuf_grow''"

fun broker_gauge :: "gauge \<Rightarrow> bool" where
  "broker_gauge StatsMetadataCacheCount = False"
| "broker_gauge StatsMessageCount = False"
| "broker_gauge StatsMessageMax = False"
| "broker_gauge StatsMessageSize = False"
| "broker_gauge StatsMessageSizeMax = False"
| "broker_gauge StatsReplyQ = False"
| "broker_gauge StatsSimpleCnt = False"
| "broker_gauge StatsTS = False"
| "broker_gauge _ = True"

definition gauge_labels :: "gauge \<Rightarrow> string list" where
  "gauge_labels g =
     (if broker_gauge g then [''name'', ''nodeId'', ''client''] else [''name'', ''client''])"

text \<open>What \<open>init\<close> passes to \<open>prometheus.MustRegister\<close>.\<close>

definition registered_gauges :: "gauge list" where
  "registered_gauges =
     [StatsMetadataCacheCount, StatsMessageCount, StatsMessageMax, StatsMessageSize,
      StatsMessageSizeMax, StatsReplyQ, StatsSimpleCnt, BrokerBufGrow, BrokerIntLatencyAvg,
      BrokerIntLatencyCnt, BrokerIntLatencyMax, BrokerIntLatencyMin, BrokerIntLatencySum,
      BrokerOutBufCnt, BrokerOutBufMsgCnt, BrokerReqTimeouts, BrokerRttAvg, BrokerRttCnt,
      BrokerRttMax, BrokerRttMin, BrokerRttSum, BrokerRx, BrokerRxBytes,
      BrokerRxCorridErrs, BrokerRxErrs, BrokerRxPartial, BrokerThrottleAvg,
      BrokerThrottleCnt, BrokerThrottleMax, BrokerThrottleMin, BrokerThrottleSum]"

type_synonym gauges = "gauge \<Rightarrow> string list \<Rightarrow> int option"

fun bit_size :: "nat \<Rightarrow> nat" where
  "bit_size n = (if n = 0 then 0 else Suc (bit_size (n div 2)))"

declare bit_size.simps [simp del]

text \<open>
  The conversion \<open>float64(i)\<close>: to the nearest integer of at most 53 significant bits, to the even
  one of two.
\<close>

definition float64_of :: "int \<Rightarrow> int" where
  "float64_of i =
     (if \<bar>i\<bar> < 2 ^ 53 then i
      else
        (let e = bit_size (nat \<bar>i\<bar>) - 53; q = \<bar>i\<bar> div 2 ^ e; r = \<bar>i\<bar> mod 2 ^ e;
             q' = (if 2 * r > 2 ^ e \<or> (2 * r = 2 ^ e \<and> odd q) then q + 1 else q)
         in sgn i * q' * 2 ^ e))"

definition set_gauge :: "gauge \<Rightarrow> (string \<times> string) list \<Rightarrow> int \<Rightarrow> gauges \<Rightarrow> gauges outcome" where
  "set_gauge g labels i gs =
     and_then (label_values (gauge_labels g) labels)
       (\<lambda>vs. Returned (gs(g := (gs g)(vs \<mapsto> float64_of i))))"

text \<open>The assignments of \<open>HandleKafkaStats\<close>, one entry per statement in the order of the source.\<close>

definition stats_updates :: "Stats \<Rightarrow> (gauge \<times> int) list" where
  "stats_updates stats =
     [(StatsMetadataCacheCount, stats_MetadataCacheCnt stats),
      (StatsMessageCount, stats_MsgCnt stats),
      (StatsMessageMax, stats_MsgMax stats),
      (StatsMessageSize, stats_MsgSize stats),
      (StatsMessageSizeMax, stats_MsgSizeMax stats),
      (StatsReplyQ, stats_Replyq stats),
      (StatsSimpleCnt, stats_SimpleCnt stats),
      (StatsTS, stats_Ts stats)]"

definition broker_updates :: "Broker \<Rightarrow> (gauge \<times> int) list" where
  "broker_updates b =
     [(BrokerBufGrow, broker_BufGrow b),
      (BrokerIntLatencyAvg, win_Avg (broker_IntLatency b)),
      (BrokerIntLatencyCnt, win_Cnt (broker_IntLatency b)),
      (BrokerIntLatencyMax, win_Max (broker_IntLatency b)),
      (BrokerIntLatencyMin, win_Min (broker_IntLatency b)),
      (BrokerIntLatencySum, win_Sum (broker_IntLatency b)),
      (BrokerOutBufCnt, broker_OutbufCnt b),
      (BrokerOutBufMsgCnt, broker_OutbufMsgCnt b),
      (BrokerReqTimeouts, broker_ReqTimeouts b),
      (BrokerRttAvg, win_Avg (broker_Rtt b)),
      (BrokerRttCnt, win_Cnt (broker_Rtt b)),
      (BrokerRttMax, win_Max (broker_Rtt b)),
      (BrokerRttMin, win_Min (broker_Rtt b)),
      (BrokerRttSum, win_Sum (broker_Rtt b)),
      (BrokerRx, broker_Rx b),
      (BrokerRxBytes, broker_Rxbytes b),
      (BrokerRxCorridErrs, broker_Rxcorriderrs b),
      (BrokerRxErrs, broker_Rxerrs b),
      (BrokerRxPartial, broker_Rxpartial b),
      (BrokerThrottleAvg, win_Avg (broker_Throttle b)),
      (BrokerThrottleCnt, win_Cnt (broker_Throttle b)),
      (BrokerThrottleMax, win_Max (broker_Throttle b)),
      (BrokerThrottleMin, win_Min (broker_Throttle b)),
      (BrokerThrottleSum, win_Sum (broker_Throttle b)),
      (BrokerTx, broker_Tx b),
      (BrokerTxBytes, broker_Txbytes b),
      (BrokerTxErrs, broker_Txerrs b),
      (BrokerTxRetries, broker_Txretries b),
      (BrokerWaitRespCnt, broker_WaitrespCnt b),
      (BrokerWaitRespMsgCnt, broker_WaitrespMsgCnt b),
      (BrokerWakeups, broker_Wakeups b),
      (BrokerZBufGrow, broker_ZbufGrow b)]"

fun set_gauges :: "(string \<times> string) list \<Rightarrow> (gauge \<times> int) list \<Rightarrow> gauges \<Rightarrow> gauges outcome" where
  "set_gauges labels [] gs = Returned gs"
| "set_gauges labels ((g, i) # us) gs =
     and_then (set_gauge g labels i gs) (\<lambda>gs. set_gauges labels us gs)"

fun set_brokers :: "string \<Rightarrow> Broker list \<Rightarrow> gauges \<Rightarrow> gauges outcome" where
  "set_brokers client [] gs = Returned gs"
| "set_brokers client (b # bs) gs =
     (let nodeId = format_int (broker_Nodeid b)
      in and_then (set_gauges [(''name'', broker_Name b), (''nodeId'', nodeId), (''client'', client)]
           (broker_updates b) gs) (\<lambda>gs. set_brokers client bs gs))"

text \<open>\<open>order\<close> lists the keys of the map of brokers as the \<open>range\<close> visits them.\<close>

definition HandleKafkaStats ::
    "(string \<Rightarrow> Stats result) \<Rightarrow> string list \<Rightarrow> string \<Rightarrow> string \<Rightarrow> gauges \<Rightarrow> gauges outcome" where
  "HandleKafkaStats decode order ks client gs =
     (case decode ks of
        Inl err \<Rightarrow> Returned gs
      | Inr stats \<Rightarrow>
          and_then (set_gauges [(''name'', stats_Name stats), (''client'', client)]
            (stats_updates stats) gs) (\<lambda>gs.
          set_brokers client (map (\<lambda>k. the (stats_Brokers stats k)) order) gs))"

section \<open>What a call sets\<close>

fun assign :: "string list \<Rightarrow> gauge \<times> int \<Rightarrow> gauges \<Rightarrow> gauges" where
  "assign vs (g, i) gs = gs(g := (gs g)(vs \<mapsto> float64_of i))"

lemma assign_apply:
  "assign vs u gs g vs' = (if g = fst u \<and> vs' = vs then Some (float64_of (snd u)) else gs g vs')"
  by (cases u) simp

lemma assign_gauge: "g \<noteq> fst u \<Longrightarrow> assign vs u gs g = gs g"
  by (cases u) simp

declare assign.simps [simp del]

lemma set_gauges_assign:
  assumes "\<forall>u \<in> set us. label_values (gauge_labels (fst u)) labels = Returned vs"
  shows "set_gauges labels us gs = Returned (fold (assign vs) us gs)"
  using assms
proof (induction us arbitrary: gs)
  case Nil
  then show ?case by simp
next
  case (Cons u us)
  then show ?case by (cases u) (simp add: set_gauge_def assign.simps)
qed

lemma assign_other: "vs' \<noteq> vs \<Longrightarrow> fold (assign vs) us gs g vs' = gs g vs'"
  by (induction us arbitrary: gs) (simp_all add: assign_apply)

lemma assign_absent: "g \<notin> fst ` set us \<Longrightarrow> fold (assign vs) us gs g = gs g"
  by (induction us arbitrary: gs) (simp_all add: assign_gauge)

lemma assign_value:
  assumes "distinct (map fst us)" "(g, i) \<in> set us"
  shows "fold (assign vs) us gs g vs = Some (float64_of i)"
  using assms
proof (induction us arbitrary: gs)
  case Nil
  then show ?case by simp
next
  case (Cons u us)
  show ?case
  proof (cases "u = (g, i)")
    case True
    with Cons.prems(1) have "g \<notin> fst ` set us" by auto
    then have "fold (assign vs) us (assign vs u gs) g = assign vs u gs g"
      by (rule assign_absent)
    then have "fold (assign vs) us (assign vs u gs) g vs = assign vs (g, i) gs g vs"
      using True by simp
    then show ?thesis by (simp only: fold.simps comp_apply) (subst assign_apply, simp)
  next
    case False
    with Cons show ?thesis by auto
  qed
qed

lemma stats_updates_gauges:
  "distinct (map fst (stats_updates stats))" "\<forall>u \<in> set (stats_updates stats). \<not> broker_gauge (fst u)"
  by (simp_all add: stats_updates_def)

lemma broker_updates_gauges:
  "distinct (map fst (broker_updates b))" "\<forall>u \<in> set (broker_updates b). broker_gauge (fst u)"
  by (simp_all add: broker_updates_def)

text \<open>The child of the gauges of one broker.\<close>

definition broker_child :: "string \<Rightarrow> Broker \<Rightarrow> string list" where
  "broker_child client b = [broker_Name b, format_int (broker_Nodeid b), client]"

lemma set_brokers_fold:
  "set_brokers client bs gs =
     Returned (fold (\<lambda>b. fold (assign (broker_child client b)) (broker_updates b)) bs gs)"
proof (induction bs arbitrary: gs)
  case Nil
  then show ?case by simp
next
  case (Cons b bs)
  have "\<forall>u \<in> set (broker_updates b). label_values (gauge_labels (fst u))
      [(''name'', broker_Name b), (''nodeId'', format_int (broker_Nodeid b)), (''client'', client)] =
      Returned (broker_child client b)"
    using broker_updates_gauges(2) [of b]
    by (auto simp: gauge_labels_def label_values_def broker_child_def)
  from set_gauges_assign [OF this] Cons show ?case by simp
qed

lemma HandleKafkaStats_fold:
  assumes "decode ks = Inr stats"
  shows "HandleKafkaStats decode order ks client gs = Returned
    (fold (\<lambda>b. fold (assign (broker_child client b)) (broker_updates b))
       (map (\<lambda>k. the (stats_Brokers stats k)) order)
       (fold (assign [stats_Name stats, client]) (stats_updates stats) gs))"
proof -
  have "\<forall>u \<in> set (stats_updates stats). label_values (gauge_labels (fst u))
      [(''name'', stats_Name stats), (''client'', client)] = Returned [stats_Name stats, client]"
    using stats_updates_gauges(2) [of stats]
    by (auto simp: gauge_labels_def label_values_def)
  from set_gauges_assign [OF this] assms show ?thesis
    by (simp add: HandleKafkaStats_def set_brokers_fold)
qed

definition same_broker :: "Broker \<Rightarrow> Broker \<Rightarrow> bool" where
  "same_broker b c \<longleftrightarrow> broker_Name b = broker_Name c \<and> broker_Nodeid b = broker_Nodeid c"

lemma broker_child_eq: "broker_child client b = broker_child client c \<longleftrightarrow> same_broker b c"
  by (auto simp: broker_child_def same_broker_def dest: format_int_inj)

lemma brokers_other:
  "\<forall>c \<in> set bs. broker_child client c \<noteq> vs \<Longrightarrow>
     fold (\<lambda>b. fold (assign (broker_child client b)) (broker_updates b)) bs gs g vs = gs g vs"
  by (induction bs arbitrary: gs) (auto simp: assign_other)

lemma brokers_value:
  assumes "b \<in> set bs" "\<forall>c \<in> set bs. same_broker b c \<longrightarrow> c = b" "(g, i) \<in> set (broker_updates b)"
  shows "fold (\<lambda>b. fold (assign (broker_child client b)) (broker_updates b)) bs gs g
      (broker_child client b) = Some (float64_of i)"
  using assms(1,2)
proof (induction bs arbitrary: gs rule: rev_induct)
  case Nil
  then show ?case by simp
next
  case (snoc c bs)
  show ?case
  proof (cases "c = b")
    case True
    then show ?thesis
      using assign_value [OF broker_updates_gauges(1) assms(3)] by simp
  next
    case False
    with snoc.prems have "broker_child client b \<noteq> broker_child client c"
      by (auto simp: broker_child_eq)
    with False snoc show ?thesis by (simp add: assign_other)
  qed
qed


section \<open>Properties\<close>

text \<open>C37: HandleKafkaStats never panics. Text that is not JSON changes no gauge; otherwise every gauge of
  the client shows the value of the call, so does every gauge of every broker that shares its name and
  number with no other, whatever the order of the map, and no other series is touched.\<close>

theorem HandleKafkaStats_sets_brokers:
  "\<exists>gs'. HandleKafkaStats decode order ks client gs = Returned gs'
    \<and> (\<forall>err. decode ks = Inl err \<longrightarrow> gs' = gs)
    \<and> (\<forall>stats. decode ks = Inr stats \<and> enumerates order (stats_Brokers stats) \<longrightarrow>
         (\<forall>(g, i) \<in> set (stats_updates stats). gs' g [stats_Name stats, client] = Some (float64_of i))
         \<and> (\<forall>k b. stats_Brokers stats k = Some b
               \<and> (\<forall>l c. stats_Brokers stats l = Some c \<and> same_broker b c \<longrightarrow> c = b) \<longrightarrow>
               (\<forall>(g, i) \<in> set (broker_updates b). gs' g (broker_child client b) = Some (float64_of i)))
         \<and> (\<forall>g vs. vs \<noteq> [stats_Name stats, client]
               \<and> (\<forall>k b. stats_Brokers stats k = Some b \<longrightarrow> vs \<noteq> broker_child client b) \<longrightarrow>
               gs' g vs = gs g vs))"
proof (cases "decode ks")
  case (Inl err)
  then show ?thesis by (simp add: HandleKafkaStats_def)
next
  case (Inr stats)
  let ?bs = "map (\<lambda>k. the (stats_Brokers stats k)) order"
  let ?gs = "fold (assign [stats_Name stats, client]) (stats_updates stats) gs"
  let ?gs' = "fold (\<lambda>b. fold (assign (broker_child client b)) (broker_updates b)) ?bs ?gs"
  have keys: "b \<in> set ?bs \<longleftrightarrow> (\<exists>k. stats_Brokers stats k = Some b)" if "enumerates order (stats_Brokers stats)" for b
    using that by (force simp: enumerates_def)
  have "?gs' g (broker_child client b) = Some (float64_of i)"
    if "enumerates order (stats_Brokers stats)" "stats_Brokers stats k = Some b" "(g, i) \<in> set (broker_updates b)"
      "\<forall>l c. stats_Brokers stats l = Some c \<and> same_broker b c \<longrightarrow> c = b" for k b g i
    using keys [OF that(1)] that(2,4) by (intro brokers_value [OF _ _ that(3)]) blast+
  moreover have "?gs' g [stats_Name stats, client] = Some (float64_of i)"
    if "(g, i) \<in> set (stats_updates stats)" for g i
    using assign_value [OF stats_updates_gauges(1) that]
    by (subst brokers_other) (auto simp: broker_child_def)
  moreover have "?gs' g vs = gs g vs"
    if "enumerates order (stats_Brokers stats)" "vs \<noteq> [stats_Name stats, client]"
      "\<forall>k b. stats_Brokers stats k = Some b \<longrightarrow> vs \<noteq> broker_child client b" for g vs
    using keys [OF that(1)] that(2,3) assign_other [OF that(2)] brokers_other [of ?bs client vs ?gs g] by fastforce
  ultimately show ?thesis
    using HandleKafkaStats_fold [where decode = decode and ks = ks, OF Inr] Inr by auto
qed

definition sample_window :: window where
  "sample_window = \<lparr>win_Avg = 1, win_Cnt = 2, win_Max = 3, win_Min = 0, win_Sum = 4\<rparr>"

definition sample_broker :: Broker where
  "sample_broker =
     \<lparr>broker_BufGrow = 1, broker_IntLatency = sample_window, broker_Name = ''kafka:9092/1'',
      broker_Nodeid = 1, broker_OutbufCnt = 0, broker_OutbufMsgCnt = 0, broker_ReqTimeouts = 0,
      broker_Rtt = sample_window, broker_Rx = 5, broker_Rxbytes = 6, broker_Rxcorriderrs = 0,
      broker_Rxerrs = 0, broker_Rxpartial = 0, broker_State = ''UP'', broker_Stateage = 9,
      broker_Throttle = sample_window, broker_Tx = 7, broker_Txbytes = 8, broker_Txerrs = 0,
      broker_Txretries = 0, broker_WaitrespCnt = 0, broker_WaitrespMsgCnt = 0, broker_Wakeups = 2,
      broker_ZbufGrow = 0\<rparr>"

definition sample_stats :: Stats where
  "sample_stats =
     \<lparr>stats_Brokers = [''1'' \<mapsto> sample_broker], stats_MetadataCacheCnt = 1, stats_MsgCnt = 2,
      stats_MsgMax = 3, stats_MsgSize = 4, stats_MsgSizeMax = 5, stats_Name = ''rdkafka#producer-1'',
      stats_Replyq = 0, stats_SimpleCnt = 0, stats_Time = 0, stats_Ts = 10, stats_Type = ''producer''\<rparr>"

theorem HandleKafkaStats_sets_brokers_witness:
  "\<exists>gs'. HandleKafkaStats (\<lambda>s. Inr sample_stats) [''1''] ''{}'' ''producer'' (\<lambda>g. Map.empty) = Returned gs'
    \<and> gs' BrokerRx [''kafka:9092/1'', ''1'', ''producer''] = Some 5
    \<and> gs' StatsMessageCount [''rdkafka#producer-1'', ''producer''] = Some 2"
proof -
  have b: "stats_Brokers sample_stats k = (if k = ''1'' then Some sample_broker else None)" for k
    by (simp add: sample_stats_def)
  have one: "enumerates [''1''] (stats_Brokers sample_stats)"
    by (simp add: enumerates_def sample_stats_def)
  have facts: "(BrokerRx, 5) \<in> set (broker_updates sample_broker)" "format_int 1 = ''1''"
    "broker_Name sample_broker = ''kafka:9092/1''" "broker_Nodeid sample_broker = 1"
    by (simp_all add: broker_updates_def sample_broker_def format_int_def format_nat.simps)
  have "\<exists>gs'. HandleKafkaStats (\<lambda>s. Inr sample_stats) [''1''] ''{}'' ''producer'' (\<lambda>g. Map.empty) = Returned gs'
    \<and> gs' BrokerRx [''kafka:9092/1'', ''1'', ''producer''] = Some (float64_of 5)
    \<and> gs' StatsMessageCount [''rdkafka#producer-1'', ''producer''] = Some (float64_of 2)"
    using HandleKafkaStats_sets_brokers [of "\<lambda>s. Inr sample_stats" "[''1'']" "''{}''" "''producer''" "\<lambda>g. Map.empty"]
  proof (elim exE conjE)
    fix gs'
    assume call: "HandleKafkaStats (\<lambda>s. Inr sample_stats) [''1''] ''{}'' ''producer'' (\<lambda>g. Map.empty) = Returned gs'"
      and all: "\<forall>stats. (Inr sample_stats :: Stats result) = Inr stats \<and> enumerates [''1''] (stats_Brokers stats) \<longrightarrow>
         (\<forall>(g, i) \<in> set (stats_updates stats). gs' g [stats_Name stats, ''producer''] = Some (float64_of i))
         \<and> (\<forall>k b. stats_Brokers stats k = Some b
               \<and> (\<forall>l c. stats_Brokers stats l = Some c \<and> same_broker b c \<longrightarrow> c = b) \<longrightarrow>
               (\<forall>(g, i) \<in> set (broker_updates b). gs' g (broker_child ''producer'' b) = Some (float64_of i)))
         \<and> (\<forall>g vs. vs \<noteq> [stats_Name stats, ''producer'']
               \<and> (\<forall>k b. stats_Brokers stats k = Some b \<longrightarrow> vs \<noteq> broker_child ''producer'' b) \<longrightarrow>
               gs' g vs = None)"
    from all [rule_format, of sample_stats] one
    have stats: "\<forall>(g, i) \<in> set (stats_updates sample_stats). gs' g [stats_Name sample_stats, ''producer''] = Some (float64_of i)"
      and brokers: "\<forall>k b. stats_Brokers sample_stats k = Some b
         \<and> (\<forall>l c. stats_Brokers sample_stats l = Some c \<and> same_broker b c \<longrightarrow> c = b) \<longrightarrow>
         (\<forall>(g, i) \<in> set (broker_updates b). gs' g (broker_child ''producer'' b) = Some (float64_of i))"
      by blast+
    have "gs' BrokerRx [''kafka:9092/1'', ''1'', ''producer''] = Some (float64_of 5)"
      using brokers [rule_format, of "''1''" sample_broker] b facts
      by (auto simp: broker_child_def split: if_splits)
    moreover have "gs' StatsMessageCount [''rdkafka#producer-1'', ''producer''] = Some (float64_of 2)"
      using stats by (simp add: stats_updates_def sample_stats_def)
    ultimately show ?thesis using call by blast
  qed
  then show ?thesis by (simp add: float64_of_def)
qed

text \<open>The two calls of \<open>MustRegister\<close> do not panic, since all names are distinct, but they leave
  out nine gauges: the time stamp and everything the clients transmit and wait for is set and never
  exported.\<close>

theorem registered_gauges_miss_nine:
  "distinct (map metric_name registered_metrics @ map gauge_name registered_gauges)
   \<and> (g \<notin> set registered_gauges \<longleftrightarrow>
        g \<in> {StatsTS, BrokerTx, BrokerTxBytes, BrokerTxErrs, BrokerTxRetries, BrokerWaitRespCnt,
             BrokerWaitRespMsgCnt, BrokerWakeups, BrokerZBufGrow})"
proof -
  have "distinct (map metric_name registered_metrics @ map gauge_name registered_gauges)"
    by (simp add: registered_metrics_def registered_gauges_def)
  moreover have "g \<notin> set registered_gauges \<longleftrightarrow>
        g \<in> {StatsTS, BrokerTx, BrokerTxBytes, BrokerTxErrs, BrokerTxRetries, BrokerWaitRespCnt,
             BrokerWaitRespMsgCnt, BrokerWakeups, BrokerZBufGrow}"
    by (cases g) (simp_all add: registered_gauges_def)
  ultimately show ?thesis by blast
qed

end
