(* ===== verification/Sse_Client.thy ===== *)
theory Sse_Client
  imports Sse_Stream
begin

text \<open>
  The client of \<open>sse/client.go\<close> over the library for server-sent events: the loop of \<open>Subscribe\<close>, which
  connects again and again, the listener it starts for every connection, and the reader that \<open>Listen\<close>
  starts when the connection stands. All of them are goroutines; they meet at the unbuffered channels
  of the one default client of the library, so a send waits for a receiver.

  The \<open>k\<close>-th listener and the \<open>k\<close>-th exit channel belong to the \<open>k\<close>-th call of \<open>Listen\<close>. \<open>subscribed\<close> is
  the listener whose channel the library has for the events of the subscription: \<open>Subscribe\<close> of the
  library replaces it. What comes over the network, whether a token is to be had and whether a
  connection can be made is left open; a reader ends as \<open>reader\<close> of \<open>Sse_Stream\<close> does on the body it
  reads, and its panic ends the program, which \<open>Program\<close> has. Sleeping and logging have no effect; a call
  of the handler is one step.
\<close>

datatype loop_pc =
    At_Check | At_Token | At_Listen | Listening | Delivering sse_event nat | Sleeping | Loop_Over

datatype listener_pc = Starting | Waiting | Closing | Ended

datatype reader_pc = Reading | Offering sse_event | Reporting string | Reader_Done

text \<open>A reader that ends in silence is gone; one with a status waits for somebody to take it.\<close>

fun ends_at :: "reader_end \<Rightarrow> reader_pc" where
  "ends_at Reader_Silent = Reader_Done"
| "ends_at (Status_Fatal err) = Reporting err"

record sse_world =
  should_shutdown :: bool
  shutdown_closed :: bool
  loop_at :: loop_pc
  listeners :: "listener_pc list"
  exit_closed :: "bool list"
  readers :: "reader_pc list"
  subscribed :: "nat option"
  handled :: "sse_event list"

definition NewSSEClient :: sse_world where
  "NewSSEClient =
     \<lparr>should_shutdown = False, shutdown_closed = False, loop_at = At_Check, listeners = [],
      exit_closed = [], readers = [], subscribed = None, handled = []\<rparr>"

text \<open>\<open>maybeDeliver\<close>: where the loop goes with an event; it keeps the read lock while it waits.\<close>

definition deliver_to :: "string \<Rightarrow> sse_event \<Rightarrow> nat option \<Rightarrow> loop_pc" where
  "deliver_to channel e sub =
     (case sub of None \<Rightarrow> Listening
      | Some j \<Rightarrow> if maybeDeliver {channel} e = None then Listening else Delivering e j)"

fun delivering :: "loop_pc \<Rightarrow> bool" where
  "delivering (Delivering e j) = True"
| "delivering _ = False"


section \<open>The steps of the goroutines\<close>

inductive sse_step :: "string \<Rightarrow> sse_world \<Rightarrow> sse_world \<Rightarrow> bool" for channel where
  check_stop: "loop_at w = At_Check \<Longrightarrow> should_shutdown w \<Longrightarrow>
     sse_step channel w (w\<lparr>loop_at := Loop_Over\<rparr>)"
| check_go: "loop_at w = At_Check \<Longrightarrow> \<not> should_shutdown w \<Longrightarrow>
     sse_step channel w (w\<lparr>loop_at := At_Token\<rparr>)"
| token_error: "loop_at w = At_Token \<Longrightarrow> sse_step channel w (w\<lparr>loop_at := At_Check\<rparr>)"
| token_ok: "loop_at w = At_Token \<Longrightarrow>
     sse_step channel w (w\<lparr>loop_at := At_Listen, listeners := listeners w @ [Starting],
       exit_closed := exit_closed w @ [False]\<rparr>)"
| listen_error: "loop_at w = At_Listen \<Longrightarrow>
     sse_step channel w (w\<lparr>loop_at := At_Check,
       exit_closed := (exit_closed w)[length (exit_closed w) - 1 := True]\<rparr>)"
| listen_ok: "loop_at w = At_Listen \<Longrightarrow>
     sse_step channel w (w\<lparr>loop_at := Listening, readers := readers w @ [Reading]\<rparr>)"
| listen_takes: "loop_at w = Listening \<Longrightarrow> i < length (readers w) \<Longrightarrow> readers w ! i = Offering e \<Longrightarrow>
     sse_step channel w (w\<lparr>loop_at := deliver_to channel e (subscribed w),
       readers := (readers w)[i := Reading]\<rparr>)"
| listener_takes: "loop_at w = Delivering e j \<Longrightarrow> j < length (listeners w) \<Longrightarrow> listeners w ! j = Waiting \<Longrightarrow>
     sse_step channel w (w\<lparr>loop_at := Listening,
       handled := (if ev_Event e = channel then handled w @ [e] else handled w)\<rparr>)"
| listen_closed: "loop_at w = Listening \<Longrightarrow> j < length (listeners w) \<Longrightarrow> listeners w ! j = Closing \<Longrightarrow>
     sse_step channel w (w\<lparr>loop_at := Sleeping, listeners := (listeners w)[j := Ended]\<rparr>)"
| wakes: "loop_at w = Sleeping \<Longrightarrow> sse_step channel w (w\<lparr>loop_at := At_Check\<rparr>)"
| listener_subscribes: "j < length (listeners w) \<Longrightarrow> listeners w ! j = Starting \<Longrightarrow>
     \<not> delivering (loop_at w) \<Longrightarrow>
     sse_step channel w (w\<lparr>listeners := (listeners w)[j := Waiting], subscribed := Some j\<rparr>)"
| status_seen: "j < length (listeners w) \<Longrightarrow> listeners w ! j = Waiting \<Longrightarrow>
     i < length (readers w) \<Longrightarrow> readers w ! i = Reporting err \<Longrightarrow>
     sse_step channel w (w\<lparr>listeners := (listeners w)[j := Closing],
       readers := (readers w)[i := Reader_Done]\<rparr>)"
| shutdown_seen: "j < length (listeners w) \<Longrightarrow> listeners w ! j = Waiting \<Longrightarrow> shutdown_closed w \<Longrightarrow>
     sse_step channel w (w\<lparr>listeners := (listeners w)[j := Closing], should_shutdown := True\<rparr>)"
| exit_seen: "j < length (listeners w) \<Longrightarrow> listeners w ! j = Waiting \<Longrightarrow>
     j < length (exit_closed w) \<Longrightarrow> exit_closed w ! j \<Longrightarrow>
     sse_step channel w (w\<lparr>listeners := (listeners w)[j := Closing], should_shutdown := True\<rparr>)"
| reads_event: "i < length (readers w) \<Longrightarrow> readers w ! i = Reading \<Longrightarrow>
     sse_step channel w (w\<lparr>readers := (readers w)[i := Offering e]\<rparr>)"
| body_ends: "i < length (readers w) \<Longrightarrow> readers w ! i = Reading \<Longrightarrow>
     reader body ending = Returned (es, r) \<Longrightarrow>
     sse_step channel w (w\<lparr>readers := (readers w)[i := ends_at r]\<rparr>)"
| program_shuts_down: "sse_step channel w (w\<lparr>shutdown_closed := True\<rparr>)"

definition sse_steps :: "string \<Rightarrow> sse_world \<Rightarrow> sse_world \<Rightarrow> bool" where
  "sse_steps channel = (sse_step channel)\<^sup>*\<^sup>*"

definition sse_reach :: "string \<Rightarrow> sse_world \<Rightarrow> bool" where
  "sse_reach channel w \<longleftrightarrow> sse_steps channel NewSSEClient w"

lemma sse_steps_refl [simp]: "sse_steps channel w w"
  by (simp add: sse_steps_def)

lemma sse_steps_step: "sse_step channel w w' \<Longrightarrow> sse_steps channel w' w'' \<Longrightarrow> sse_steps channel w w''"
  by (simp add: sse_steps_def converse_rtranclp_into_rtranclp)

text \<open>What holds at the start of a run and is kept by every step holds along it.\<close>

lemma sse_steps_keep:
  assumes "sse_steps channel w w'" "P w" "\<And>u v. P u \<Longrightarrow> sse_step channel u v \<Longrightarrow> P v"
  shows "P w'"
  using assms unfolding sse_steps_def by (induction rule: rtranclp_induct) blast+

inductive_cases sse_stepE: "sse_step channel w w'"

section \<open>A delivery nobody takes\<close>

text \<open>The loop waits to hand an event to a listener that will not take another.\<close>

definition stuck :: "sse_world \<Rightarrow> bool" where
  "stuck w \<longleftrightarrow>
     (case loop_at w of
        Delivering e j \<Rightarrow> j < length (listeners w) \<and> listeners w ! j \<in> {Closing, Ended}
      | _ \<Rightarrow> False)"

lemma stuck_iff:
  "stuck w \<longleftrightarrow> (\<exists>e j. loop_at w = Delivering e j \<and> j < length (listeners w)
     \<and> listeners w ! j \<in> {Closing, Ended})"
  by (auto simp: stuck_def split: loop_pc.splits)

lemma stuck_step:
  assumes "sse_step channel w w'" "stuck w"
  shows "stuck w' \<and> handled w' = handled w \<and> length (listeners w') = length (listeners w)"
  using assms by (cases rule: sse_step.cases) (auto simp: stuck_iff nth_list_update split: if_splits)

lemma stuck_steps:
  assumes "sse_steps channel w w'" "stuck w"
  shows "stuck w' \<and> handled w' = handled w \<and> length (listeners w') = length (listeners w)"
  by (rule sse_steps_keep [OF assms(1), where P = "\<lambda>u. stuck u \<and> handled u = handled w
        \<and> length (listeners u) = length (listeners w)"])
    (use assms(2) stuck_step in auto)


section \<open>A failed connection\<close>

definition ends_for_a_reason :: "sse_world \<Rightarrow> bool" where
  "ends_for_a_reason w \<longleftrightarrow>
     (should_shutdown w \<longrightarrow> shutdown_closed w \<or> True \<in> set (exit_closed w))
     \<and> (loop_at w = Loop_Over \<longrightarrow> should_shutdown w)
     \<and> (loop_at w = At_Listen \<longrightarrow> listeners w \<noteq> [])
     \<and> length (exit_closed w) = length (listeners w)"

lemma exit_stays: "True \<in> set xs \<Longrightarrow> True \<in> set (xs[i := True])"
  by (induction xs arbitrary: i) (auto split: nat.splits)

lemma ends_for_a_reason_step:
  assumes "ends_for_a_reason w" "sse_step channel w w'"
  shows "ends_for_a_reason w'"
  using assms(2,1)
proof (cases rule: sse_step.cases)
  case (exit_seen j)
  then have "True \<in> set (exit_closed w)" by (metis nth_mem)
  with exit_seen assms(1) show ?thesis by (simp add: ends_for_a_reason_def)
qed (auto simp: ends_for_a_reason_def deliver_to_def exit_stays split: option.splits if_splits)

text \<open>The connections the loop may still begin once the flag is set.\<close>

definition begun :: "sse_world \<Rightarrow> nat" where
  "begun w = length (listeners w) + (if loop_at w = At_Token then 1 else 0)"

lemma begun_step:
  assumes "sse_step channel w w'" "should_shutdown w"
  shows "should_shutdown w' \<and> begun w' \<le> begun w"
  using assms by (cases rule: sse_step.cases) (auto simp: begun_def deliver_to_def split: option.splits)

lemma begun_steps:
  assumes "sse_steps channel w w'" "should_shutdown w"
  shows "should_shutdown w' \<and> begun w' \<le> begun w"
  by (rule sse_steps_keep [OF assms(1), where P = "\<lambda>u. should_shutdown u \<and> begun u \<le> begun w"])
    (use assms(2) begun_step in \<open>auto intro: order_trans\<close>)


section \<open>A stream that ends\<close>






section \<open>Runs\<close>

lemma sse_step_eq: "sse_step channel w v \<Longrightarrow> v = w' \<Longrightarrow> sse_step channel w w'"
  by simp

lemma sse_reach_step: "sse_reach channel w \<Longrightarrow> sse_step channel w w' \<Longrightarrow> sse_reach channel w'"
  by (simp add: sse_reach_def sse_steps_def rtranclp.rtrancl_into_rtrancl)

text \<open>The first call of \<open>Listen\<close>, the listener subscribed.\<close>

definition connecting :: sse_world where
  "connecting = NewSSEClient\<lparr>loop_at := At_Listen, listeners := [Waiting], exit_closed := [False],
     subscribed := Some 0\<rparr>"

definition connected :: sse_world where
  "connected = connecting\<lparr>loop_at := Listening, readers := [Reading]\<rparr>"

lemma connecting_reach: "sse_reach channel connecting"
proof -
  let ?u = "NewSSEClient\<lparr>loop_at := At_Token\<rparr>"
  let ?v = "?u\<lparr>loop_at := At_Listen, listeners := [Starting], exit_closed := [False]\<rparr>"
  have "sse_reach channel NewSSEClient" by (simp add: sse_reach_def)
  moreover have "sse_step channel NewSSEClient ?u"
    by (rule sse_step_eq [OF check_go]) (simp_all add: NewSSEClient_def)
  moreover have "sse_step channel ?u ?v"
    by (rule sse_step_eq [OF token_ok]) (simp_all add: NewSSEClient_def)
  moreover have "sse_step channel ?v connecting"
    by (rule sse_step_eq [OF listener_subscribes [where j = 0]])
      (simp_all add: NewSSEClient_def connecting_def)
  ultimately show ?thesis by (blast intro: sse_reach_step)
qed

lemma connected_reach: "sse_reach channel connected"
  by (rule sse_reach_step [OF connecting_reach], rule sse_step_eq [OF listen_ok])
    (simp_all add: connecting_def connected_def NewSSEClient_def)

text \<open>An event is on its way to the listener when the connection breaks and the listener sees that.\<close>

definition event_then_error :: "string \<Rightarrow> sse_world" where
  "event_then_error channel =
     connected\<lparr>loop_at := Delivering (new_event\<lparr>ev_Event := channel\<rparr>) 0, listeners := [Closing],
       readers := [Reader_Done]\<rparr>"

lemma event_then_error_reach: "sse_reach channel (event_then_error channel)"
proof -
  let ?e = "new_event\<lparr>ev_Event := channel\<rparr>"
  let ?u = "connected\<lparr>readers := [Offering ?e]\<rparr>"
  let ?v = "connected\<lparr>loop_at := Delivering ?e 0, readers := [Reading]\<rparr>"
  let ?w = "connected\<lparr>loop_at := Delivering ?e 0, readers := [Reporting ''reset'']\<rparr>"
  note defs = NewSSEClient_def connecting_def connected_def event_then_error_def
  have 1: "sse_step channel connected ?u"
    by (rule sse_step_eq [OF reads_event [where i = 0]]) (simp_all add: defs)
  have 2: "sse_step channel ?u ?v"
    by (rule sse_step_eq [OF listen_takes [where i = 0 and e = ?e]])
      (simp_all add: defs deliver_to_def maybeDeliver_def new_event_def)
  have 3: "sse_step channel ?v ?w"
    by (rule sse_step_eq [OF body_ends [where i = 0 and body = "[]" and ending = "Read_Error ''reset''"
            and es = "[]" and r = "Status_Fatal ''reset''"]])
      (simp_all add: defs reader_def)
  have 4: "sse_step channel ?w (event_then_error channel)"
    by (rule sse_step_eq [OF status_seen [where i = 0 and j = 0]]) (simp_all add: defs)
  show ?thesis
    by (rule sse_reach_step [OF _ 4], rule sse_reach_step [OF _ 3], rule sse_reach_step [OF _ 2],
        rule sse_reach_step [OF connected_reach 1])
qed

definition loop_over :: "nat \<Rightarrow> sse_world \<Rightarrow> bool" where
  "loop_over n w \<longleftrightarrow> loop_at w = Loop_Over \<and> length (listeners w) = n"

lemma loop_over_step: "loop_over n w \<Longrightarrow> sse_step channel w w' \<Longrightarrow> loop_over n w'"
  by (erule sse_step.cases) (auto simp: loop_over_def)

text \<open>A connection that fails while its listener waits: the listener sees that before the loop does.\<close>

lemma failure_ends_loop:
  assumes "loop_at w = At_Listen" "listeners w \<noteq> []" "last (listeners w) = Waiting"
    and "length (exit_closed w) = length (listeners w)" "\<not> shutdown_closed w"
  shows "\<exists>v. sse_steps channel w v \<and> \<not> shutdown_closed v \<and> loop_over (length (listeners w)) v"
proof -
  let ?j = "length (listeners w) - 1"
  let ?u = "w\<lparr>loop_at := At_Check, exit_closed := (exit_closed w)[length (exit_closed w) - 1 := True]\<rparr>"
  let ?v = "?u\<lparr>listeners := (listeners ?u)[?j := Closing], should_shutdown := True\<rparr>"
  have "sse_step channel w ?u" using assms(1) by (rule listen_error)
  moreover have "sse_step channel ?u ?v"
    by (rule exit_seen) (use assms in \<open>simp_all add: last_conv_nth\<close>)
  moreover have "sse_step channel ?v (?v\<lparr>loop_at := Loop_Over\<rparr>)" by (rule check_stop) simp_all
  ultimately have "sse_steps channel w (?v\<lparr>loop_at := Loop_Over\<rparr>)"
    by (blast intro: sse_steps_step sse_steps_refl)
  then show ?thesis
    using assms(5) by (intro exI [of _ "?v\<lparr>loop_at := Loop_Over\<rparr>"]) (simp add: loop_over_def)
qed



section \<open>Properties\<close>

text \<open>C34: The SSE client can deadlock while the program runs: when an event and the error of its connection
  come together, the listener may take the error and wait for Listen to see the close, while Listen
  waits for the listener to take the event. From then on no event is handled and no connection is
  made, whatever happens, a shutdown of the program included.\<close>

theorem client_can_deadlock:
  "\<exists>w. sse_reach channel w \<and> \<not> shutdown_closed w
    \<and> {w'. sse_steps channel w w'} \<subseteq>
        {w'. delivering (loop_at w') \<and> handled w' = handled w \<and> length (listeners w') = length (listeners w)}"
proof -
  let ?w = "event_then_error channel"
  have "stuck ?w" "\<not> shutdown_closed ?w"
    by (simp_all add: stuck_def event_then_error_def connected_def connecting_def NewSSEClient_def)
  moreover have "delivering (loop_at w')" if "stuck w'" for w'
    using that by (auto simp: stuck_iff)
  ultimately show ?thesis
    using event_then_error_reach stuck_steps by (intro exI [of _ ?w]) blast
qed

text \<open>C35: One failed connection can stop the client for good. When a connection fails while its listener
  waits, the listener can see that before the loop looks at its flag again, and then the loop ends,
  with the program running, and never connects again. Whenever the flag is set without a shutdown of
  the program, a connection has failed; the flag is never reset, and at most one more connection
  is tried, the one for which the loop had looked at the flag already.\<close>

theorem failed_connection_can_end_client:
  assumes "sse_reach channel w" "\<not> shutdown_closed w"
  shows "(loop_at w = At_Listen \<and> last (listeners w) = Waiting \<longrightarrow>
      (\<exists>v. sse_steps channel w v \<and> \<not> shutdown_closed v
        \<and> (\<forall>w'. sse_steps channel v w' \<longrightarrow>
              loop_at w' = Loop_Over \<and> length (listeners w') = length (listeners w))))
    \<and> (should_shutdown w \<longrightarrow> True \<in> set (exit_closed w)
        \<and> (\<forall>w'. sse_steps channel w w' \<longrightarrow> should_shutdown w'
              \<and> length (listeners w') \<le> length (listeners w) + (if loop_at w = At_Token then 1 else 0)))"
proof -
  have "ends_for_a_reason NewSSEClient" by (simp add: ends_for_a_reason_def NewSSEClient_def)
  with assms(1) have reason: "ends_for_a_reason w"
    unfolding sse_reach_def by (rule sse_steps_keep) (rule ends_for_a_reason_step)
  have over: "loop_over n w'" if "sse_steps channel v w'" "loop_over n v" for n v w'
    using that by (rule sse_steps_keep) (rule loop_over_step)
  have ends: "\<exists>v. sse_steps channel w v \<and> \<not> shutdown_closed v
      \<and> (\<forall>w'. sse_steps channel v w' \<longrightarrow> loop_at w' = Loop_Over \<and> length (listeners w') = length (listeners w))"
    if "loop_at w = At_Listen" "last (listeners w) = Waiting"
  proof -
    have "\<exists>v. sse_steps channel w v \<and> \<not> shutdown_closed v \<and> loop_over (length (listeners w)) v"
      using that reason assms(2) by (intro failure_ends_loop) (auto simp: ends_for_a_reason_def)
    with over show ?thesis unfolding loop_over_def by blast
  qed
  have "should_shutdown w' \<and> length (listeners w') \<le> length (listeners w) + (if loop_at w = At_Token then 1 else 0)"
    if "should_shutdown w" "sse_steps channel w w'" for w'
    using begun_steps [OF that(2,1)] by (simp add: begun_def split: if_splits)
  moreover have "True \<in> set (exit_closed w)" if "should_shutdown w"
    using that reason assms(2) by (simp add: ends_for_a_reason_def)
  ultimately show ?thesis using ends by blast
qed

theorem failed_connection_can_end_client_witness:
  "sse_reach ''clickstream'' connecting
    \<and> (\<exists>v. sse_steps ''clickstream'' connecting v \<and> \<not> shutdown_closed v \<and> loop_at v = Loop_Over)"
proof -
  from failed_connection_can_end_client [OF connecting_reach [of "''clickstream''"]]
  obtain v where "sse_steps ''clickstream'' connecting v" "\<not> shutdown_closed v"
    "\<forall>w'. sse_steps ''clickstream'' v w' \<longrightarrow> loop_at w' = Loop_Over"
    by (auto simp: connecting_def NewSSEClient_def)
  then show ?thesis using connecting_reach by (metis sse_steps_refl)
qed



end
