(* ===== verification/Spec2Isabelle.thy ===== *)
theory Spec2Isabelle
  imports Mock_Program Program_Runs Producer_Records Kafka_Stats Cache_Locks Sse_Client
begin

text \<open>
  The verification library of the event router (\<open>github.com/astronomerio/event-router\<close>), a Go program
  that reads the events of customers' apps from a Kafka topic and sends each event to the topic of
  every integration that is enabled for its app. Paths below are relative to the root of the repository.

  \<^bold>\<open>The program.\<close> \<open>cmd/start.go\<close> makes the parts and starts their goroutines. The consumer
  (\<open>kafka/clickstream/clickstream_consumer.go\<close>) hands every message to the producer
  (\<open>clickstream_producer.go\<close>), which decodes it (\<open>clickstream_producer_easyjson.go\<close>), asks the cache of
  integrations (\<open>integrations/integrations.go\<close>) for the integrations of its app, and sends one copy per
  integration to the produce channel of the Kafka client. A cache miss asks Houston over HTTP
  (\<open>houston/client.go\<close>, \<open>pkg/http.go\<close>); events of the SSE stream (\<open>sse/client.go\<close> and the vendored
  \<open>astronomerio/sse\<close>) update the cache, and a timer empties it. Deliveries that fail go to the dead letter
  queue (\<open>deadletterqueue/client.go\<close>), which stores them in S3 (\<open>s3/client.go\<close>). One shutdown channel
  stops all goroutines. \<open>cmd/mock.go\<close> runs the same consumer and producer with a Houston that is a
  constant, and records messages in Cassandra (\<open>cassandra/client.go\<close>). Settings come from the
  environment (\<open>config/config.go\<close> over \<open>viper\<close>), counters and gauges go to Prometheus (\<open>pkg/prom\<close>).

  \<^bold>\<open>The theories.\<close> Each opens with a text that says what it holds; a definition has the name of the
  function or type it translates.
  \<^item> \<open>Go_Prelude\<close>: errors, panics and results; strings and integers of the standard library; the order
    in which a loop over a map visits its keys.
  \<^item> \<open>Metrics\<close>, \<open>Kafka_Stats\<close>: \<open>pkg/prom/client.go\<close>, \<open>pkg/prom/kafka.go\<close>, \<open>kafka/monitoring.go\<close>.
  \<^item> \<open>Http\<close>, \<open>Houston\<close>: \<open>pkg/http.go\<close>, \<open>houston/client.go\<close>, \<open>houston/mock_client.go\<close>.
  \<^item> \<open>Timer_Loop\<close>: the goroutines that wait for a timer and the shutdown, used by the next two.
  \<^item> \<open>Integrations\<close>, \<open>Cache_Locks\<close>: \<open>integrations/integrations.go\<close>, its operations one at a time, and
    their locks under every interleaving.
  \<^item> \<open>S3\<close>, \<open>Deadletter\<close>, \<open>Deadletter_Flush\<close>: \<open>s3/client.go\<close>, \<open>deadletterqueue/client.go\<close>.
  \<^item> \<open>Cassandra\<close>: \<open>cassandra/client.go\<close>.
  \<^item> \<open>Producer\<close>, \<open>Producer_Routing\<close>, \<open>Producer_Records\<close>, \<open>Producer_Events\<close>: \<open>clickstream_producer.go\<close> with the goroutine of
    the Kafka client that takes messages from the channel.
  \<^item> \<open>Consumer\<close>: \<open>clickstream_consumer.go\<close>.
  \<^item> \<open>Json_Lexer\<close>, \<open>Message_Json\<close>: the decoder and encoder of messages with the lexer and writer of easyjson;
    \<open>Json_Tokens\<close>, \<open>Json_Literals\<close>, \<open>Json_Text\<close>, \<open>Message_Text\<close> hold the grammar of the texts and the proofs.
  \<^item> \<open>Sse_Stream\<close>, \<open>Sse_Client\<close>: the vendored stream library and \<open>sse/client.go\<close>.
  \<^item> \<open>Config\<close>, \<open>Commands\<close>: \<open>config/config.go\<close>, \<open>pkg/helper_funcs.go\<close>; the flags and settings of \<open>cmd/\<close>, the
    routes and answers of \<open>api/\<close>.
  \<^item> \<open>Program_Cache\<close>, \<open>Program\<close>, \<open>Program_Runs\<close>, \<open>Mock_Program\<close>: \<open>start\<close> and \<open>mock\<close> from the command line to
    the running goroutines, the cache between them, and the runs into the shutdown.
  \<^item> This theory: a property of producer, cache and Houston together.

  \<^bold>\<open>State.\<close> A struct is a record with the fields the code works on. Go maps are partial functions, so
  everything that depends on the order of a loop over a map takes an \<open>order\<close>, which is any enumeration of
  the keys. The package variables of \<open>integrations.go\<close> are fields of \<open>integrations\<close>, those of \<open>config.go\<close>
  fields of \<open>config_state\<close>, those of \<open>cmd/\<close> the map \<open>vars\<close>. The world outside (network, S3, Cassandra)
  is a state of its own that is passed through every call. Errors are values of \<open>go_error\<close>; a panic is a
  value of \<open>outcome\<close>, never an unspecified term: an index or slice out of range, a nil dereference, a send
  on a closed channel, an unknown label. A topic of a produced message is a pointer into the store
  \<open>loop_vars\<close>, since the code takes the address of a loop variable. Durations of timers are 64-bit words
  and wrap around.

  \<^bold>\<open>Concurrency.\<close> A call that runs under one lock or touches what no other goroutine does is one step.
  Where goroutines meet within a call, the interleaving is explicit: \<open>schedule\<close> lists how many messages
  the goroutine of the produce channel takes after each send; \<open>lock_run\<close> follows any sequence of lock
  operations of any number of goroutines; \<open>sse_step\<close>, \<open>loop_step\<close> and \<open>program_step\<close> are step relations,
  and the properties hold for everything reachable, or exhibit a run. \<open>program_step\<close> contains the steps of
  the locks: a call of \<open>HandleMessage\<close> and an event of the stream take the cache step by step (\<open>call_at\<close>,
  \<open>asking\<close>), so the faults of the cache can end the program. \<open>Integrations\<close> and \<open>Consumer\<close> look at one
  goroutine alone; there a call is one step.

  \<^bold>\<open>Interfaces.\<close> \<open>houston_api\<close> (what the cache relies on; interpreted by the Houston client and its mock),
  \<open>integrations_api\<close> (what the producer relies on; a sublocale of \<open>houston_api\<close> through the cache, and
  interpreted by the mock; a call that has its answer goes on over a client that gives just that),
  \<open>message_handler\<close> (what the consumer relies on; a sublocale of \<open>integrations_api\<close>
  through the producer), \<open>dead_letter_queue\<close> (what the event handler relies on). The program's invariant is
  proved once in \<open>houston_api\<close> and holds for both commands by the two interpretations.

  \<^bold>\<open>What the lemmas show.\<close> For every operation, equations for its branches and that it keeps the invariant of
  its component (\<open>integrations_wf\<close>, \<open>producer_wf\<close>, \<open>lx_wf\<close>, \<open>lock_inv\<close>, \<open>shared_ok\<close>, \<open>running\<close>). For the producer, that
  every message goes to one topic per integration, that none is lost or duplicated in any schedule, and
  which topic it gets. For the codec, that it returns on every input, gives each text of the grammar the
  message it describes, and reads back what it writes. For the whole program, that nothing closes and
  nothing panics before the shutdown but the cache and the reader of the stream, and what can go wrong
  after it; for the cache, that its locks make
  every update take effect once, as the atomic operations would have it, and where they do not protect it. Where the code does not do what it
  means to do, the theorem states what it does; the findings of the manifest list these.

  \<^bold>\<open>Loops and bounds.\<close> Loops over a list or a map are structural recursion over the list or the
  enumeration. The loops of the JSON decoder are recursive functions that end because \<open>work\<close>, the length of what
  is left, decreases with every token (\<open>Json_Tokens\<close>); no fuel is used. The one loop without a bound is
  \<open>Flush\<close>, which adds keys to the map it ranges over: \<open>flush_range\<close> is the relation of all runs the language
  allows, and a theorem shows that they have no common bound. The goroutines run for ever; they are step
  relations.

  \<^bold>\<open>Not modelled, and why.\<close> Kafka, S3, Cassandra, Houston and the AWS SDK are services or libraries the
  sources call: their answers are parameters or free choices of the steps. The same holds for \<open>encoding/json\<close>
  on Houston's responses, SSE events and Kafka statistics, and for cobra's splitting of a command line. Gin,
  the profiler's handlers and the rendering of metrics are calls of libraries. Logging has no effect on the
  state. \<open>kafka/consumer.go\<close>, \<open>kafka/producer.go\<close> and \<open>kafka/message_handler.go\<close> declare interfaces only. In
  \<open>Program\<close> the SSE client is reduced to what it does to the rest: the events it hands to the cache, its
  requests for a token, and the panic of its reader; \<open>Sse_Client\<close> has its goroutines. A call to Houston is
  one step there, and the token that the goroutines share without a lock is read and written in it.
\<close>

section \<open>The components together\<close>

text \<open>C5: The first message of an app that is not cached is dropped without an error, whatever
  integrations the app has: nothing is sent, it is counted as a message with no integration, and
  the integrations are cached. Of the next message of the app one copy for each of them is sent, and from
  an empty channel to the topics that \<open>final_topics\<close> gives for the schedule (C3).\<close>

theorem first_message_dropped:
  assumes "decode message = Inr dat" "\<not> channel_closed p" "cassandra_ready cfg"
    and "cache_miss (ints p) (AppId dat)"
    and "houston_get (houston (ints p)) (AppId dat) = (h, Inr (Some m))" "m \<noteq> Map.empty"
    and "\<forall>n. enumerates (order n m) m"
    and "decode next = Inr dat'" "AppId dat' = AppId dat"
  shows "\<exists>p'. producer_handle cfg driver decode houston_get order p message key = Returned (p', None)
    \<and> handed p' = handed p \<and> channel p' = channel p \<and> refused p' = refused p
    \<and> prod_counters p' MessagesWithNoIntegration [AppId dat] =
        prod_counters p MessagesWithNoIntegration [AppId dat] + 1
    \<and> cache (ints p') (AppId dat) = Some (Some m)
    \<and> (\<exists>p''. producer_handle cfg driver decode houston_get order p' next key' = Returned (p'', None)
        \<and> in_flight p'' = in_flight p' + replicate_mset (card (dom m)) (key', next)
        \<and> (channel p = [] \<longrightarrow> handed (settle cfg p'') = handed p @ routed key' next
             (final_topics (schedule p) (map (map_get m) (order (length (loop_vars p)) m)))))"
proof -
  obtain i where get: "GetIntegrations houston_get (ints p) (AppId dat) = Returned (i, Inr None)"
    and hit: "cache i (AppId dat) = Some (Some m)"
    using get_miss_success [where houston_get = houston_get and s = "ints p" and a = "AppId dat",
      OF assms(4,5)] by auto
  let ?p = "(consumed dat message i p)\<lparr>prod_counters :=
      bump MessagesWithNoIntegration [AppId dat] 1 (prod_counters (consumed dat message i p))\<rparr>"
  have call: "producer_handle cfg driver decode houston_get order p message key = Returned (?p, None)"
    unfolding producer_handle_def
    by (rule handle_no_integrations [where decode = decode and r = None and p = p and message = message
        and dat = dat and i = i]) (use assms(1) get in simp_all)
  obtain i' where found: "GetIntegrations houston_get (ints ?p) (AppId dat') = Returned (i', Inr (Some m))"
    using get_hit [of "ints ?p"] hit assms(9) by simp
  have "\<not> channel_closed ?p" using assms(2) by simp
  note ready = assms(8) this assms(3)
  have order: "enumerates (order (length (loop_vars ?p)) m) m" using assms(7) by blast
  obtain p'' where routed: "producer_handle cfg driver decode houston_get order ?p next key' = Returned (p'', None)"
    and "in_flight p'' = in_flight ?p + replicate_mset (card (dom m)) (key', next)"
    using handled_in_flight [where decode = decode and ints_get = "GetIntegrations houston_get" and order = order,
        OF ready found assms(6) order] by (auto simp: producer_handle_def)
  moreover have "handed (settle cfg p'') = handed ?p @ routed key' next
      (final_topics (schedule ?p) (map (map_get m) (order (length (loop_vars ?p)) m)))" if "channel ?p = []"
    using handled_and_settled [where decode = decode and ints_get = "GetIntegrations houston_get" and order = order
          and driver = driver and key = key',
        OF ready that found assms(6) order] routed by (auto simp: producer_handle_def)
  ultimately show ?thesis
    using call hit
    by (intro exI [of _ ?p]) (simp add: consumed_def)
qed

definition any_order :: "nat \<Rightarrow> strmap \<Rightarrow> string list" where
  "any_order n m = [''S3'']"

lemma any_order_enumerates: "enumerates (any_order n [''S3'' \<mapsto> t]) [''S3'' \<mapsto> t]"
  by (simp add: any_order_def enumerates_def)

theorem first_message_dropped_witness:
  "\<exists>p'. producer_handle sample_config sample_driver sample_decode up any_order
      (sample_producer (NewClient ()) (None :: unit option) []) ''m1'' ''k'' = Returned (p', None)
    \<and> handed p' = [] \<and> channel p' = [] \<and> prod_counters p' MessagesWithNoIntegration [''m''] = 1
    \<and> (\<exists>p''. producer_handle sample_config sample_driver sample_decode up any_order p' ''m2'' ''k'' =
          Returned (p'', None) \<and> in_flight p'' = in_flight p' + {#(''k'', ''m2'')#}
        \<and> handed (settle sample_config p'') = [(''s3-topic'', ''k'', ''m2'')])"
proof -
  let ?p = "sample_producer (NewClient ()) (None :: unit option) []"
  have pre: "sample_decode ''m1'' = Inr (projr (sample_decode ''m1''))"
    "sample_decode ''m2'' = Inr (projr (sample_decode ''m2''))"
    "AppId (projr (sample_decode ''m1'')) = ''m''" "AppId (projr (sample_decode ''m2'')) = ''m''"
    "\<not> channel_closed ?p" "cassandra_ready sample_config" "handed ?p = []" "channel ?p = []"
    "prod_counters ?p MessagesWithNoIntegration [''m''] = 0"
    "cache_miss (ints ?p) a" "up (houston (ints ?p)) a = ((), Inr (Some [''S3'' \<mapsto> ''s3-topic'']))"
    for a
    by (simp_all add: sample_defs cache_miss_def NewClient_def NewMap_def up_def no_metrics_def)
  have topics: "schedule ?p = []" "loop_vars ?p = []"
    "routed ''k'' ''m2'' (final_topics [] (map (map_get [''S3'' \<mapsto> ''s3-topic'']) (any_order 0 [''S3'' \<mapsto> ''s3-topic'']))) =
      [(''s3-topic'', ''k'', ''m2'')]"
    by (simp_all add: sample_defs any_order_def final_topics_def turns_of_def channel_size_def routed_def map_get_def)
  obtain p' where "producer_handle sample_config sample_driver sample_decode up any_order ?p ''m1'' ''k'' =
      Returned (p', None)" "handed p' = []" "channel p' = []"
    "prod_counters p' MessagesWithNoIntegration [''m''] = 1"
    "\<exists>p''. producer_handle sample_config sample_driver sample_decode up any_order p' ''m2'' ''k'' =
        Returned (p'', None) \<and> in_flight p'' = in_flight p' + {#(''k'', ''m2'')#}
      \<and> handed (settle sample_config p'') = [(''s3-topic'', ''k'', ''m2'')]"
    using first_message_dropped [of sample_decode "''m1''" "projr (sample_decode ''m1'')" ?p sample_config up
        "()" "[''S3'' \<mapsto> ''s3-topic'']" any_order "''m2''" "projr (sample_decode ''m2'')"
        sample_driver "''k''" "''k''"] pre any_order_enumerates topics
    by auto
  then show ?thesis by blast
qed

end
